(* ===== verification/Sync_Prelude.thy ===== *)
theory Sync_Prelude
  imports Main "HOL-Library.Word" "HOL-Library.Multiset"
begin

text \<open>
  Shared vocabulary of the development: the machine integers of the C++ sources, the
  operations of the C++ standard library that the sources call on strings, vectors and
  unordered containers, and the generic lemmas the component theories rest on.

  \<^item> \<open>std::string\<close> and \<open>std::string_view\<close> are \<^typ>\<open>string\<close> (a list of bytes), and
    \<open>npos\<close> is \<^term>\<open>None\<close>.
  \<^item> \<open>std::unordered_set\<close> is a list without duplicates that grows at its end
    (\<open>uset_insert\<close>); \<open>std::unordered_map\<close> is an association list without duplicate
    keys (\<open>umap_emplace\<close>, \<open>umap_assign\<close>, \<open>umap_erase\<close>). The C++ iteration order is
    unspecified; the list order stands for the order of one execution.
  \<^item> Fixed-width integers are words, so additions wrap as they do in C++.
\<close>

unbundle bit_operations_syntax

section \<open>Types\<close>

type_synonym u8 = "8 word"
type_synonym u16 = "16 word"
type_synonym u32 = "32 word"
type_synonym u64 = "64 word"
type_synonym bytes = "u8 list"

text \<open>Facts that carry the component proofs: frame facts of the operations, and facts
  about the driver calls an operation makes.\<close>

named_theorems frame_simps
named_theorems call_simps

section \<open>Characters and strings of the C++ standard library\<close>

text \<open>\<open>std::isspace\<close> and \<open>std::toupper\<close> in the default "C" locale.\<close>

definition c_isspace :: "char \<Rightarrow> bool" where
  "c_isspace c = (c \<in> {CHR 0x20, CHR 0x09, CHR 0x0A, CHR 0x0B, CHR 0x0C, CHR 0x0D})"

definition c_toupper :: "char \<Rightarrow> char" where
  "c_toupper c =
     (let n = (of_char c :: nat)
      in if 97 \<le> n \<and> n \<le> 122 then char_of (n - 32) else c)"

text \<open>\<open>s.find(c)\<close>, \<open>s.rfind(c)\<close> and \<open>s.find(needle)\<close>.\<close>

fun find_char :: "char \<Rightarrow> string \<Rightarrow> nat option" where
  "find_char c [] = None"
| "find_char c (x # xs) = (if x = c then Some 0 else map_option Suc (find_char c xs))"

fun rfind_char :: "char \<Rightarrow> string \<Rightarrow> nat option" where
  "rfind_char c [] = None"
| "rfind_char c (x # xs) =
     (case rfind_char c xs of
        Some i \<Rightarrow> Some (Suc i)
      | None \<Rightarrow> if x = c then Some 0 else None)"

definition is_prefix :: "string \<Rightarrow> string \<Rightarrow> bool" where
  "is_prefix p s = (take (length p) s = p)"

fun str_find :: "string \<Rightarrow> string \<Rightarrow> nat option" where
  "str_find needle [] = (if needle = [] then Some 0 else None)"
| "str_find needle (x # xs) =
     (if is_prefix needle (x # xs) then Some 0
      else map_option Suc (str_find needle xs))"

text \<open>\<open>std::to_string\<close> on unsigned and signed integers, and the zero-padded lower-case
  hexadecimal of \<open>printf\<close>'s \<open>%0<k>x\<close>.\<close>

definition digit_char :: "nat \<Rightarrow> char" where
  "digit_char d = (if d < 10 then char_of (48 + d) else char_of (87 + d))"

fun nat_to_string :: "nat \<Rightarrow> string" where
  "nat_to_string n =
     (if n < 10 then [digit_char n]
      else nat_to_string (n div 10) @ [digit_char (n mod 10)])"

declare nat_to_string.simps [simp del]

definition int_to_string :: "int \<Rightarrow> string" where
  "int_to_string i =
     (if i < 0 then CHR ''-'' # nat_to_string (nat (- i)) else nat_to_string (nat i))"

fun hex_digits :: "nat \<Rightarrow> nat \<Rightarrow> string" where
  "hex_digits 0 n = []"
| "hex_digits (Suc k) n = hex_digits k (n div 16) @ [digit_char (n mod 16)]"

text \<open>The join loop the sources write out: a separator before every element but the first.\<close>

fun join_with :: "string \<Rightarrow> string list \<Rightarrow> string" where
  "join_with sep [] = []"
| "join_with sep [x] = x"
| "join_with sep (x # y # ys) = x @ sep @ join_with sep (y # ys)"

text \<open>\<open>reinterpret_cast<const char*>\<close> on a byte buffer.\<close>

definition bytes_to_string :: "bytes \<Rightarrow> string" where
  "bytes_to_string bs = map (\<lambda>b. char_of (unat b)) bs"

section \<open>Unordered containers\<close>

definition uset_insert :: "'a \<Rightarrow> 'a list \<Rightarrow> 'a list" where
  "uset_insert x xs = (if x \<in> set xs then xs else xs @ [x])"

definition uset_of :: "'a list \<Rightarrow> 'a list" where
  "uset_of xs = fold uset_insert xs []"

definition umap_emplace :: "'k \<Rightarrow> 'v \<Rightarrow> ('k \<times> 'v) list \<Rightarrow> ('k \<times> 'v) list" where
  "umap_emplace k v m = (if k \<in> fst ` set m then m else m @ [(k, v)])"

definition umap_erase :: "'k \<Rightarrow> ('k \<times> 'v) list \<Rightarrow> ('k \<times> 'v) list" where
  "umap_erase k m = filter (\<lambda>(k', _). k' \<noteq> k) m"

fun umap_assign :: "'k \<Rightarrow> 'v \<Rightarrow> ('k \<times> 'v) list \<Rightarrow> ('k \<times> 'v) list" where
  "umap_assign k v [] = [(k, v)]"
| "umap_assign k v ((k', v') # m) =
     (if k' = k then (k, v) # m else (k', v') # umap_assign k v m)"

definition umap_keys :: "('k \<times> 'v) list \<Rightarrow> 'k list" where
  "umap_keys m = map fst m"

section \<open>Batches\<close>

text \<open>The loops \<open>for (start = 0; start < size; start += n)\<close> over
  \<open>[start, min(start + n, size))\<close> cut a vector into consecutive batches; \<open>n > 0\<close>.\<close>

function batches_of :: "nat \<Rightarrow> 'a list \<Rightarrow> 'a list list" where
  "batches_of n xs =
     (if xs = [] \<or> n = 0 then [] else take n xs # batches_of n (drop n xs))"
  by pat_completeness auto
termination
  by (relation "measure (\<lambda>(n, xs). length xs)") auto

declare batches_of.simps [simp del]

text \<open>The order in which the threads of a batch take effect: each choice picks one of those
  that have not run yet, and without a choice the first one runs. Every order of the batch
  is the result of some list of choices.\<close>

fun run_order :: "nat list \<Rightarrow> 'a list \<Rightarrow> 'a list" where
  "run_order [] xs = xs"
| "run_order (k # ks) xs =
     (if xs = [] then []
      else let i = k mod length xs in xs ! i # run_order ks (take i xs @ drop (Suc i) xs))"

section \<open>Lemmas\<close>

subsection \<open>Searching in strings\<close>

lemma find_char_None_iff: "find_char c s = None \<longleftrightarrow> c \<notin> set s"
  by (induction s) auto

lemma rfind_char_None_iff: "rfind_char c s = None \<longleftrightarrow> c \<notin> set s"
  by (induction s) (auto split: option.splits)

lemma find_char_None [simp]: "c \<notin> set s \<Longrightarrow> find_char c s = None"
  by (simp add: find_char_None_iff)

lemma rfind_char_None [simp]: "c \<notin> set s \<Longrightarrow> rfind_char c s = None"
  by (simp add: rfind_char_None_iff)

lemma find_char_SomeD:
  "find_char c s = Some i \<Longrightarrow> s = take i s @ c # drop (Suc i) s \<and> c \<notin> set (take i s)"
  by (induction s arbitrary: i) (auto split: if_splits)

lemma find_char_append [simp]: "c \<notin> set xs \<Longrightarrow> find_char c (xs @ c # ys) = Some (length xs)"
  by (induction xs) auto

lemma rfind_char_SomeD:
  "rfind_char c s = Some i \<Longrightarrow> s = take i s @ c # drop (Suc i) s \<and> c \<notin> set (drop (Suc i) s)"
proof (induction s arbitrary: i)
  case (Cons x s)
  then show ?case
    by (cases "rfind_char c s") (auto simp: rfind_char_None_iff split: if_splits)
qed simp

lemma rfind_char_append [simp]: "c \<notin> set ys \<Longrightarrow> rfind_char c (xs @ c # ys) = Some (length xs)"
  by (induction xs) auto

lemma is_prefix_append [simp]: "is_prefix p (p @ s)"
  by (simp add: is_prefix_def)

lemma str_find_Some_prefix: "str_find p s = Some i \<Longrightarrow> is_prefix p (drop i s)"
proof (induction s arbitrary: i)
  case Nil
  then show ?case by (auto simp: is_prefix_def split: if_splits)
next
  case (Cons x s)
  then show ?case by (auto split: if_splits)
qed

lemma str_find_Some_bound: "str_find p s = Some i \<Longrightarrow> i + length p \<le> length s"
proof (induction s arbitrary: i)
  case Nil
  then show ?case by (auto split: if_splits)
next
  case (Cons x s)
  then show ?case
    by (auto simp: is_prefix_def split: if_splits dest: arg_cong [where f = length])
qed

subsection \<open>Numbers as strings\<close>

lemma nat_to_string_nonempty [simp]: "nat_to_string n \<noteq> []"
  by (subst nat_to_string.simps) simp

lemma of_char_digit_char: "d < 10 \<Longrightarrow> of_char (digit_char d) = 48 + (d :: nat)"
  by (simp add: digit_char_def)
lemma digit_char_inject: "d < 10 \<Longrightarrow> e < 10 \<Longrightarrow> digit_char d = digit_char e \<longleftrightarrow> d = e"
  using of_char_digit_char by (metis add_left_cancel)

lemma nat_to_string_inject: "nat_to_string m = nat_to_string n \<longleftrightarrow> m = n"
proof (induction m arbitrary: n rule: less_induct)
  case (less m)
  show ?case
  proof
    assume eq: "nat_to_string m = nat_to_string n"
    then have "digit_char (m mod 10) = digit_char (n mod 10)"
      by (subst (asm) (1 2) nat_to_string.simps) (simp split: if_splits)
    then have "m mod 10 = n mod 10" by (simp add: digit_char_inject)
    moreover have "m div 10 = n div 10"
    proof (cases "m < 10 \<or> n < 10")
      case True
      with eq have "m < 10 \<and> n < 10"
        by (subst (asm) (1 2) nat_to_string.simps) (auto simp: Nil_is_append_conv split: if_splits dest: sym)
      then show ?thesis by simp
    next
      case False
      with eq have "nat_to_string (m div 10) = nat_to_string (n div 10)"
        by (subst (asm) (1 2) nat_to_string.simps) simp
      with less.IH [of "m div 10" "n div 10"] False show ?thesis by simp
    qed
    ultimately show "m = n" by (metis div_mult_mod_eq)
  qed simp
qed

lemma unat_diff_less: "(m :: 'a::len word) < n \<Longrightarrow> unat (n - m) = unat n - unat m"
  by (simp add: unat_sub order_less_imp_le)

lemma length_hex_digits [simp]: "length (hex_digits k n) = k"
  by (induction k arbitrary: n) auto

lemma join_with_Cons:
  "join_with sep (x # xs) = x @ (if xs = [] then [] else sep @ join_with sep xs)"
  by (cases xs) auto

subsection \<open>Unordered containers\<close>

lemma set_uset_insert [simp]: "set (uset_insert x xs) = insert x (set xs)"
  by (auto simp: uset_insert_def)

lemma distinct_uset_insert [simp]: "distinct (uset_insert x xs) = distinct xs"
  by (auto simp: uset_insert_def)

lemma set_fold_uset_insert: "set (fold uset_insert xs ys) = set xs \<union> set ys"
  by (induction xs arbitrary: ys) auto

lemma distinct_fold_uset_insert: "distinct (fold uset_insert xs ys) = distinct ys"
  by (induction xs arbitrary: ys) auto

lemma set_uset_of [simp]: "set (uset_of xs) = set xs"
  by (simp add: uset_of_def set_fold_uset_insert)

lemma distinct_uset_of [simp]: "distinct (uset_of xs)"
  by (simp add: uset_of_def distinct_fold_uset_insert)

lemma uset_of_Nil_iff [simp]: "uset_of xs = [] \<longleftrightarrow> xs = []"
  by (metis set_empty set_uset_of)

lemma umap_keys_simps [simp]:
  "umap_keys [] = []"
  "umap_keys ((k, v) # m) = k # umap_keys m"
  "umap_keys (m @ m') = umap_keys m @ umap_keys m'"
  by (simp_all add: umap_keys_def)

lemma length_umap_keys [simp]: "length (umap_keys m) = length m"
  by (simp add: umap_keys_def)

lemma umap_emplace_fresh [simp]:
  "k \<notin> set (umap_keys m) \<Longrightarrow> umap_emplace k v m = m @ [(k, v)]"
  by (simp add: umap_emplace_def umap_keys_def)

lemma umap_emplace_taken [simp]:
  "k \<in> set (umap_keys m) \<Longrightarrow> umap_emplace k v m = m"
  by (simp add: umap_emplace_def umap_keys_def)

lemma distinct_umap_emplace [simp]:
  "distinct (umap_keys (umap_emplace k v m)) = distinct (umap_keys m)"
  by (cases "k \<in> set (umap_keys m)") auto

lemma umap_keys_erase: "umap_keys (umap_erase k m) = filter (\<lambda>k'. k' \<noteq> k) (umap_keys m)"
  by (induction m) (auto simp: umap_erase_def)

lemma set_umap_erase: "set (umap_erase k m) = {p \<in> set m. fst p \<noteq> k}"
  by (auto simp: umap_erase_def)

lemma set_umap_keys_assign [simp]:
  "set (umap_keys (umap_assign k v m)) = insert k (set (umap_keys m))"
  by (induction k v m rule: umap_assign.induct) auto

lemma distinct_umap_assign [simp]:
  "distinct (umap_keys m) \<Longrightarrow> distinct (umap_keys (umap_assign k v m))"
  by (induction k v m rule: umap_assign.induct) auto

lemma map_of_umap_assign [simp]: "map_of (umap_assign k v m) = (map_of m)(k \<mapsto> v)"
  by (induction k v m rule: umap_assign.induct) auto

lemma map_of_umap_erase [simp]: "map_of (umap_erase k m) = (map_of m)(k := None)"
  by (induction m) (auto simp: umap_erase_def)

lemma map_of_umap_emplace:
  "map_of (umap_emplace k v m) = (if k \<in> set (umap_keys m) then map_of m else (map_of m)(k \<mapsto> v))"
proof (cases "k \<in> set (umap_keys m)")
  case False
  then have "map_of m k = None" by (simp add: umap_keys_def map_of_eq_None_iff)
  then show ?thesis
    using False by (auto simp: fun_eq_iff map_add_def split: option.splits)
qed simp

subsection \<open>Batches\<close>

lemma batches_of_Nil [simp]: "batches_of n [] = []"
  by (simp add: batches_of.simps)

lemma concat_batches_of: "0 < n \<Longrightarrow> concat (batches_of n xs) = xs"
proof (induction n xs rule: batches_of.induct)
  case (1 n xs)
  show ?case
  proof (cases "xs = []")
    case False
    with 1 show ?thesis by (simp add: batches_of.simps [of n xs])
  qed simp
qed

lemma mset_run_order [simp]: "mset (run_order ks xs) = mset xs"
proof (induction ks xs rule: run_order.induct)
  case (2 k ks xs)
  show ?case
  proof (cases "xs = []")
    case False
    let ?i = "k mod length xs"
    have "xs = take ?i xs @ xs ! ?i # drop (Suc ?i) xs"
      using False by (intro id_take_nth_drop) simp
    then have "mset xs = add_mset (xs ! ?i) (mset (take ?i xs @ drop (Suc ?i) xs))"
      by (metis mset.simps(2) mset_append union_mset_add_mset_right)
    then show ?thesis using 2 [OF False refl] False by (simp add: Let_def)
  qed simp
qed simp

lemma mset_concat_map_order:
  "(\<And>b. mset (f b) = mset b) \<Longrightarrow> mset (concat (map f bs)) = mset (concat bs)"
  by (induction bs) auto

lemma mset_concat_map_cong:
  "mset xs = mset ys \<Longrightarrow> mset (concat (map f xs)) = mset (concat (map f ys))"
  by (simp add: mset_concat flip: sum_mset_sum_list)

lemma fold_fold_concat: "fold (\<lambda>b. fold f (g b)) bs x = fold f (concat (map g bs)) x"
  by (induction bs arbitrary: x) auto

lemma batches_of_sizes: "b \<in> set (batches_of n xs) \<Longrightarrow> b \<noteq> [] \<and> length b \<le> n"
proof (induction n xs rule: batches_of.induct)
  case (1 n xs)
  then show ?case
    by (cases "xs = [] \<or> n = 0") (auto simp: batches_of.simps [of n xs])
qed

section \<open>Refinement\<close>

text \<open>
  A detailed transition system implements an abstract one: an abstraction function maps the
  states that satisfy an invariant, and every detailed step is a sequence of abstract steps
  (none, when the abstraction does not see it). What holds in all reachable abstract states
  then holds of the abstraction of all reachable detailed states.
\<close>

locale refinement =
  fixes cstep :: "'c \<Rightarrow> 'c \<Rightarrow> bool"
    and astep :: "'a \<Rightarrow> 'a \<Rightarrow> bool"
    and abstraction :: "'c \<Rightarrow> 'a"
    and invar :: "'c \<Rightarrow> bool"
  assumes invar_step: "invar c \<Longrightarrow> cstep c c' \<Longrightarrow> invar c'"
    and simulates: "invar c \<Longrightarrow> cstep c c' \<Longrightarrow> astep\<^sup>*\<^sup>* (abstraction c) (abstraction c')"
begin

lemma run_simulates:
  assumes "cstep\<^sup>*\<^sup>* c c'" "invar c"
  shows "invar c' \<and> astep\<^sup>*\<^sup>* (abstraction c) (abstraction c')"
  using assms(1)
proof (induction rule: rtranclp_induct)
  case (step c1 c2)
  then show ?case
    using invar_step simulates by (blast intro: rtranclp_trans)
qed (simp add: assms(2))

lemma transfer_invariant:
  assumes "cstep\<^sup>*\<^sup>* c c'" "invar c" "P (abstraction c)"
    and keep: "\<And>a a'. P a \<Longrightarrow> astep a a' \<Longrightarrow> P a'"
  shows "P (abstraction c')"
proof -
  have "astep\<^sup>*\<^sup>* (abstraction c) (abstraction c')"
    using run_simulates [OF assms(1,2)] by blast
  then show ?thesis
    by (induction rule: rtranclp_induct) (use assms(3) keep in blast)+
qed

end

end
