(* ===== verification/Cql_Protocol.thy ===== *)
theory Cql_Protocol
  imports Sync_Prelude
begin

text \<open>
  The CQL binary protocol helpers of \<open>services/dual-writer/src/cql_server.cpp\<close>: the nine
  byte frame header, the big-endian readers, the long string parser, the classification of
  a query as a write and the extraction of its table.

  \<open>int16_t\<close> and \<open>int32_t\<close> are the words of their width; a cast to \<open>size_t\<close>
  sign-extends (\<^term>\<open>scast\<close>) to 64 bits, and size arithmetic wraps there, as in C++.
\<close>

section \<open>Definitions\<close>

subsection \<open>Constants\<close>

definition CQL_VERSION_RESPONSE :: u8 where "CQL_VERSION_RESPONSE = 0x84"
definition OP_QUERY :: u8 where "OP_QUERY = 0x07"
definition OP_RESULT :: u8 where "OP_RESULT = 0x08"
definition OP_PREPARE :: u8 where "OP_PREPARE = 0x09"
definition OP_EXECUTE :: u8 where "OP_EXECUTE = 0x0A"
definition OP_BATCH :: u8 where "OP_BATCH = 0x0D"
definition RESULT_PREPARED :: u32 where "RESULT_PREPARED = 0x0004"

lemmas cql_constants =
  CQL_VERSION_RESPONSE_def OP_QUERY_def OP_RESULT_def OP_PREPARE_def OP_EXECUTE_def
  OP_BATCH_def RESULT_PREPARED_def

subsection \<open>Frame header\<close>

record frame_header =
  fh_version :: u8
  fh_flags :: u8
  fh_stream_id :: u16
  fh_opcode :: u8
  fh_body_length :: u32

text \<open>\<open>static_cast<uint8_t>((v >> k) & 0xFF)\<close> on an \<open>int\<close>.\<close>

definition byte_at :: "nat \<Rightarrow> u32 \<Rightarrow> u8" where
  "byte_at k v = ucast (signed_drop_bit k v AND 0xFF)"

definition to_bytes :: "frame_header \<Rightarrow> bytes" where
  "to_bytes h =
     [fh_version h,
      fh_flags h,
      byte_at 8 (scast (fh_stream_id h)),
      byte_at 0 (scast (fh_stream_id h)),
      fh_opcode h,
      byte_at 24 (fh_body_length h),
      byte_at 16 (fh_body_length h),
      byte_at 8 (fh_body_length h),
      byte_at 0 (fh_body_length h)]"

definition response_header :: "u8 \<Rightarrow> u16 \<Rightarrow> u32 \<Rightarrow> frame_header" where
  "response_header opcode stream_id body_len =
     \<lparr>fh_version = CQL_VERSION_RESPONSE, fh_flags = 0, fh_stream_id = stream_id,
      fh_opcode = opcode, fh_body_length = body_len\<rparr>"

definition read_i32_be :: "bytes \<Rightarrow> nat \<Rightarrow> u32" where
  "read_i32_be p i =
     (push_bit 24 (ucast (p ! i)) OR push_bit 16 (ucast (p ! (i + 1)))
      OR push_bit 8 (ucast (p ! (i + 2))) OR ucast (p ! (i + 3)))"

definition read_i16_be :: "bytes \<Rightarrow> nat \<Rightarrow> u16" where
  "read_i16_be p i = ucast (push_bit 8 (ucast (p ! i) :: u32) OR ucast (p ! (i + 1)))"

definition parse_header :: "bytes \<Rightarrow> frame_header" where
  "parse_header buf =
     \<lparr>fh_version = buf ! 0,
      fh_flags = buf ! 1,
      fh_stream_id = read_i16_be buf 2,
      fh_opcode = buf ! 4,
      fh_body_length = read_i32_be buf 5\<rparr>"

subsection \<open>Long strings\<close>

text \<open>The largest length a \<open>std::string\<close> or a \<open>std::vector<uint8_t>\<close> can have; beyond it
  the constructors throw \<open>std::length_error\<close>.\<close>

definition max_size :: u64 where "max_size = 0x7FFFFFFFFFFFFFFF"

text \<open>\<^term>\<open>None\<close> is the \<open>std::length_error\<close> of the string constructor.\<close>

definition parse_long_string :: "bytes \<Rightarrow> nat \<Rightarrow> string option" where
  "parse_long_string body offset =
     (let size = (of_nat (length body) :: u64); off = (of_nat offset :: u64) in
      if size < off + 4 then Some []
      else
        let len = (scast (read_i32_be body offset) :: u64) in
        if size < off + 4 + len then Some []
        else if max_size < len then None
        else Some (bytes_to_string (take (unat len) (drop (offset + 4) body))))"

subsection \<open>Query classification\<close>

definition starts_with_ci :: "string \<Rightarrow> string \<Rightarrow> bool" where
  "starts_with_ci sv prefix =
     (length prefix \<le> length sv \<and>
      map c_toupper (take (length prefix) sv) = map c_toupper prefix)"

definition is_write_query :: "string \<Rightarrow> bool" where
  "is_write_query query =
     (let trimmed = dropWhile c_isspace query
      in starts_with_ci trimmed ''INSERT'' \<or> starts_with_ci trimmed ''UPDATE'' \<or>
         starts_with_ci trimmed ''DELETE'')"

definition ends_token :: "char \<Rightarrow> bool" where
  "ends_token c = (c_isspace c \<or> c = CHR ''('' \<or> c = CHR '';'')"

definition extract_table_target :: "string \<Rightarrow> string" where
  "extract_table_target query =
     (let upper = map c_toupper query;
          pos = (case str_find ''INTO'' upper of
                   Some idx \<Rightarrow> Some (idx + 4)
                 | None \<Rightarrow> (case str_find ''UPDATE'' upper of
                     Some idx2 \<Rightarrow> Some (idx2 + 6)
                   | None \<Rightarrow> (case str_find ''FROM'' upper of
                       Some idx3 \<Rightarrow> Some (idx3 + 4)
                     | None \<Rightarrow> None)))
      in case pos of
           None \<Rightarrow> ''unknown''
         | Some pos \<Rightarrow>
             takeWhile (\<lambda>c. \<not> ends_token c) (dropWhile c_isspace (drop pos query)))"

definition build_void_result :: "u16 \<Rightarrow> bytes" where
  "build_void_result stream_id =
     to_bytes (response_header OP_RESULT stream_id 4) @ [0x00, 0x00, 0x00, 0x01]"

section \<open>Lemmas\<close>

subsection \<open>Bytes of words\<close>

lemma bit_byte_at: "k \<le> 24 \<Longrightarrow> bit (byte_at k v) i \<longleftrightarrow> i < 8 \<and> bit v (k + i)"
proof -
  have mask8: "(0xFF :: u32) = mask 8"
    by (simp add: mask_eq_exp_minus_1)
  show "k \<le> 24 \<Longrightarrow> ?thesis"
    by (auto simp: byte_at_def mask8 bit_simps min_def)
qed

lemma no_bit_u8 [simp]: "8 \<le> n \<Longrightarrow> \<not> bit (a :: u8) n"
  by (auto dest: bit_imp_le_length)

lemma top_bit_cases: "7 \<le> n \<Longrightarrow> n < 8 \<Longrightarrow> n = 7" "15 \<le> n \<Longrightarrow> n < 16 \<Longrightarrow> n = 15" for n :: nat
  by simp_all

lemma read_i32_be_of_bytes:
  "read_i32_be [byte_at 24 v, byte_at 16 v, byte_at 8 v, byte_at 0 v] 0 = v"
proof (rule bit_word_eqI)
  fix n assume "n < LENGTH(32)"
  then consider "n < 8" | "8 \<le> n" "n - 8 < 8" | "16 \<le> n" "n - 16 < 8" | "24 \<le> n" "n - 24 < 8"
    by fastforce
  then show "bit (read_i32_be [byte_at 24 v, byte_at 16 v, byte_at 8 v, byte_at 0 v] 0) n = bit v n"
    by cases (auto simp: read_i32_be_def bit_simps bit_byte_at)
qed

lemma byte_at_read_i32_be:
  "byte_at 24 (read_i32_be [a, b, c, d] 0) = a" "byte_at 16 (read_i32_be [a, b, c, d] 0) = b"
  "byte_at 8 (read_i32_be [a, b, c, d] 0) = c" "byte_at 0 (read_i32_be [a, b, c, d] 0) = d"
  by (rule bit_word_eqI, auto simp: bit_byte_at read_i32_be_def bit_simps)+

lemma read_i16_be_of_bytes:
  "read_i16_be [byte_at 8 (scast v), byte_at 0 (scast v)] 0 = v"
proof (rule bit_word_eqI)
  fix n assume "n < LENGTH(16)"
  then consider "n < 8" | "8 \<le> n" "n - 8 < 8" "n < 16" by fastforce
  then show "bit (read_i16_be [byte_at 8 (scast v), byte_at 0 (scast v)] 0) n = bit v n"
    by cases (auto simp: read_i16_be_def bit_simps bit_byte_at min_def dest: top_bit_cases)
qed

lemma byte_at_read_i16_be:
  "byte_at 8 (scast (read_i16_be [a, b] 0)) = a" "byte_at 0 (scast (read_i16_be [a, b] 0)) = b"
  by (rule bit_word_eqI,
      auto simp: bit_byte_at read_i16_be_def bit_simps min_def dest: top_bit_cases)+

lemma read_i32_be_drop:
  "i + 3 < length p \<Longrightarrow> read_i32_be p i = read_i32_be [p ! i, p ! (i + 1), p ! (i + 2), p ! (i + 3)] 0"
  by (simp add: read_i32_be_def)

lemma read_i16_be_drop: "read_i16_be p i = read_i16_be [p ! i, p ! (i + 1)] 0"
  by (simp add: read_i16_be_def)

lemma length_to_bytes [simp]: "length (to_bytes h) = 9"
  by (simp add: to_bytes_def)

lemma nine_bytes: "length b = 9 \<Longrightarrow> b = [b ! 0, b ! 1, b ! 2, b ! 3, b ! 4, b ! 5, b ! 6, b ! 7, b ! 8]"
  by (intro nth_equalityI) (auto simp: less_Suc_eq_0_disj eval_nat_numeral)

lemma parse_header_to_bytes: "parse_header (to_bytes h) = h"
proof -
  have "read_i16_be (to_bytes h) 2 = fh_stream_id h"
    by (subst read_i16_be_drop) (simp add: to_bytes_def read_i16_be_of_bytes [simplified])
  moreover have "read_i32_be (to_bytes h) 5 = fh_body_length h"
    by (subst read_i32_be_drop) (simp_all add: to_bytes_def read_i32_be_of_bytes [simplified])
  ultimately show ?thesis
    by (simp add: parse_header_def to_bytes_def)
qed

lemma to_bytes_parse_header:
  assumes "length b = 9"
  shows "to_bytes (parse_header b) = b"
proof -
  have i16: "read_i16_be b 2 = read_i16_be [b ! 2, b ! 3] 0"
    by (subst read_i16_be_drop) simp
  have i32: "read_i32_be b 5 = read_i32_be [b ! 5, b ! 6, b ! 7, b ! 8] 0"
    using assms by (subst read_i32_be_drop) simp_all
  have "to_bytes (parse_header b) =
      [b ! 0, b ! 1, b ! 2, b ! 3, b ! 4, b ! 5, b ! 6, b ! 7, b ! 8]"
    by (simp add: to_bytes_def parse_header_def i16 i32 byte_at_read_i16_be byte_at_read_i32_be)
  also have "\<dots> = b" using nine_bytes [OF assms] by simp
  finally show ?thesis .
qed

subsection \<open>Extraction of the table\<close>

lemma c_isspace_ends_token: "c_isspace c \<Longrightarrow> ends_token c"
  by (simp add: ends_token_def)

lemma token_after_keyword:
  assumes "\<forall>c \<in> set w. c_isspace c" "\<forall>c \<in> set t. \<not> ends_token c" "t \<noteq> []"
    and "rest = [] \<or> ends_token (hd rest)"
  shows "takeWhile (\<lambda>c. \<not> ends_token c) (dropWhile c_isspace (w @ t @ rest)) = t"
proof -
  have "\<not> c_isspace (hd t)"
    using assms(2,3) by (cases t) (auto dest: c_isspace_ends_token)
  then have "dropWhile c_isspace (t @ rest) = t @ rest"
    using assms(3) by (cases t) auto
  then have "dropWhile c_isspace (w @ t @ rest) = t @ rest"
    using assms(1) by (simp add: dropWhile_append2)
  moreover have "takeWhile (\<lambda>c. \<not> ends_token c) rest = []"
    using assms(4) by (cases rest) auto
  ultimately show ?thesis
    using assms(2) by (simp add: takeWhile_append2)
qed

lemma length_of_upper: "map c_toupper kw = u \<Longrightarrow> length kw = length u"
  by (metis length_map)

lemma c_toupper_isspace: "c_isspace c \<Longrightarrow> c_isspace (c_toupper c)"
  by (auto simp: c_isspace_def c_toupper_def Let_def)

text \<open>White space contains no letter, so a keyword is not found in it.\<close>

definition blank :: "string \<Rightarrow> bool" where
  "blank w \<longleftrightarrow> (\<forall>c \<in> set w. c_isspace c)"

lemma str_find_skip:
  "blank w \<Longrightarrow> \<not> c_isspace k \<Longrightarrow>
   str_find (k # ks) (map c_toupper w @ u) = map_option ((+) (length w)) (str_find (k # ks) u)"
proof (induction w)
  case (Cons c w)
  then have "c_toupper c \<noteq> k" using c_toupper_isspace by (auto simp: blank_def)
  then show ?case
    using Cons by (cases "str_find (k # ks) u") (simp_all add: blank_def is_prefix_def)
qed (cases "str_find (k # ks) u", simp_all)

lemma keyword_letters: "\<not> c_isspace CHR ''I''" "\<not> c_isspace CHR ''U''" "\<not> c_isspace CHR ''F''"
  by code_simp+

lemma str_find_verb:
  "str_find ''INTO'' (''INSERT'' @ u) = map_option ((+) 6) (str_find ''INTO'' u)"
  "str_find ''FROM'' (''DELETE'' @ u) = map_option ((+) 6) (str_find ''FROM'' u)"
  by (cases "str_find ''INTO'' u"; cases "str_find ''FROM'' u"; simp add: is_prefix_def)+

lemma str_find_here: "p \<noteq> [] \<Longrightarrow> str_find p (p @ u) = Some 0"
  by (cases p) (simp_all add: is_prefix_def)

lemma upper_keywords [simp]:
  "map c_toupper ''INSERT'' = ''INSERT''" "map c_toupper ''UPDATE'' = ''UPDATE''"
  "map c_toupper ''DELETE'' = ''DELETE''"
  by code_simp+

lemma starts_with_ci_six:
  "length p = 6 \<Longrightarrow> starts_with_ci s p \<longleftrightarrow> 6 \<le> length s \<and> map c_toupper (take 6 s) = map c_toupper p"
  by (simp add: starts_with_ci_def)

lemma keyword_is_write:
  assumes "map c_toupper kw = u" "take 6 u \<in> {''INSERT'', ''UPDATE'', ''DELETE''}"
  shows "is_write_query (kw @ rest)"
proof -
  have len: "length kw = length u" using assms(1) by (rule length_of_upper)
  have "length (take 6 u) = 6" using assms(2) by (elim insertE) (simp_all del: length_take)
  then have "6 \<le> length u" by simp
  have "\<not> c_isspace (hd kw)"
  proof
    assume "c_isspace (hd kw)"
    then have "c_isspace (c_toupper (hd kw))" by (rule c_toupper_isspace)
    moreover have "kw \<noteq> []" using \<open>6 \<le> length u\<close> len by auto
    then have "c_toupper (hd kw) = hd (take 6 u)"
      using assms(1) by (simp add: hd_take flip: hd_map)
    moreover have "hd (take 6 u) \<in> {CHR ''I'', CHR ''U'', CHR ''D''}"
      using assms(2) by (elim insertE) (simp_all del: hd_take)
    ultimately show False
      by (auto simp: c_isspace_def)
  qed
  then have "dropWhile c_isspace (kw @ rest) = kw @ rest"
    using \<open>6 \<le> length u\<close> len by (cases kw) simp_all
  moreover have "map c_toupper (take 6 (kw @ rest)) = take 6 u"
    using assms(1) \<open>6 \<le> length u\<close> len by (simp add: take_map [symmetric])
  ultimately show ?thesis
    using assms(2) \<open>6 \<le> length u\<close> len
    by (simp only: is_write_query_def Let_def) (simp add: starts_with_ci_six del: list.map)
qed

lemma extract_at:
  assumes "map c_toupper kw = u"
    and "(case str_find ''INTO'' (u @ map c_toupper r) of
            Some i \<Rightarrow> Some (i + 4)
          | None \<Rightarrow> (case str_find ''UPDATE'' (u @ map c_toupper r) of
              Some i \<Rightarrow> Some (i + 6)
            | None \<Rightarrow> (case str_find ''FROM'' (u @ map c_toupper r) of
                Some i \<Rightarrow> Some (i + 4) | None \<Rightarrow> None))) = Some (length u)"
  shows "extract_table_target (kw @ r) =
    takeWhile (\<lambda>c. \<not> ends_token c) (dropWhile c_isspace r)"
  using assms length_of_upper [OF assms(1)]
  by (simp add: extract_table_target_def Let_def)

lemma keyword_positions:
  assumes "blank lead" "blank gap"
  shows "str_find ''INTO'' ((map c_toupper lead @ ''INSERT'' @ map c_toupper gap @ ''INTO'') @ u) =
      Some (length lead + (6 + length gap))"
    and "str_find ''UPDATE'' ((map c_toupper lead @ ''UPDATE'' @ map c_toupper [] @ []) @ u) = Some (length lead)"
    and "str_find ''FROM'' ((map c_toupper lead @ ''DELETE'' @ map c_toupper gap @ ''FROM'') @ u) =
      Some (length lead + (6 + length gap))"
  using str_find_here [of "''INTO''" u] str_find_here [of "''UPDATE''" u] str_find_here [of "''FROM''" u]
  by (simp_all only: append_assoc str_find_skip [OF assms(1) keyword_letters(1)]
      str_find_skip [OF assms(1) keyword_letters(2)] str_find_skip [OF assms(1) keyword_letters(3)] str_find_verb
      str_find_skip [OF assms(2) keyword_letters(1)] str_find_skip [OF assms(2) keyword_letters(3)]
      list.map append_Nil option.map list.distinct not_False_eq_True simp_thms)
    simp_all

lemma is_write_query_lead: "blank w \<Longrightarrow> is_write_query (w @ q) = is_write_query q"
  by (simp add: is_write_query_def blank_def dropWhile_append2)

subsection \<open>Lengths of long strings\<close>

lemma parse_long_string_short: "length body < 4 \<Longrightarrow> parse_long_string body 0 = Some []"
proof -
  assume "length body < 4"
  then have "(of_nat (length body) :: u64) < 4"
    by (simp add: word_less_nat_alt unat_of_nat)
  then show ?thesis by (simp add: parse_long_string_def Let_def)
qed

lemma uint_scast_u64: "uint (scast (x :: u32) :: u64) = sint x mod 2 ^ 64"
  by (simp only: scast_eq uint_word_of_int) simp

lemma long_string_in_bounds:
  assumes "length body < 2 ^ 63" "4 \<le> length body"
  shows "(of_nat (length body) :: u64) < 4 + scast (x :: u32) \<longleftrightarrow>
    sint x < - 4 \<or> int (length body) < sint x + 4"
proof -
  have x: "- (2 ^ 31) \<le> sint x" "sint x < 2 ^ 31"
    using sint_greater_eq [of x] sint_less [of x] by simp_all
  have size: "uint (of_nat (length body) :: u64) = int (length body)"
    using assms(1) by (simp add: uint_nat unat_of_nat)
  have "uint (4 + scast x :: u64) = (4 + sint x) mod 2 ^ 64"
    by (simp add: uint_word_ariths uint_scast_u64 mod_simps)
  moreover have "(4 + sint x) mod 2 ^ 64 = (if - 4 \<le> sint x then 4 + sint x else 4 + sint x + 2 ^ 64)"
  proof (cases "- 4 \<le> sint x")
    case False
    have "(4 + sint x) mod 2 ^ 64 = (4 + sint x + 2 ^ 64) mod 2 ^ 64"
      by (rule mod_add_self2 [symmetric])
    also have "\<dots> = 4 + sint x + 2 ^ 64"
      using False x by (intro mod_pos_pos_trivial) auto
    finally show ?thesis using False by simp
  qed (use x in simp)
  ultimately show ?thesis
    using x assms size by (auto simp: word_less_def)
qed

lemma long_string_too_long: "max_size < (scast (x :: u32) :: u64) \<longleftrightarrow> sint x < 0"
proof -
  have x: "- (2 ^ 31) \<le> sint x" "sint x < 2 ^ 31"
    using sint_greater_eq [of x] sint_less [of x] by simp_all
  have "sint x mod 2 ^ 64 = (if sint x < 0 then sint x + 2 ^ 64 else sint x)"
  proof (cases "sint x < 0")
    case True
    have "sint x mod 2 ^ 64 = (sint x + 2 ^ 64) mod 2 ^ 64"
      by (rule mod_add_self2 [symmetric])
    also have "\<dots> = sint x + 2 ^ 64"
      using True x by (intro mod_pos_pos_trivial) auto
    finally show ?thesis using True by simp
  qed (use x in simp)
  then show ?thesis
    using x by (simp add: word_less_def uint_scast_u64 max_size_def)
qed

lemma unat_scast_u64: "0 \<le> sint (x :: u32) \<Longrightarrow> unat (scast x :: u64) = nat (sint x)"
  using sint_greater_eq [of x] sint_less [of x] by (simp add: uint_scast_u64 flip: nat_uint_eq)

section \<open>Properties\<close>

text \<open>C26. Frame headers survive the wire in both directions: parsing the bytes of a header
  gives the header back, and re-encoding a parsed nine byte header gives the same bytes.\<close>

theorem frame_header_roundtrip:
  "parse_header (to_bytes h) = h \<and> (length b = 9 \<longrightarrow> to_bytes (parse_header b) = b)"
  by (simp add: parse_header_to_bytes to_bytes_parse_header)

theorem frame_header_roundtrip_witness:
  "to_bytes (parse_header [0x84, 0, 0xFF, 0xFE, 0x08, 0, 0, 0, 4]) =
     [0x84, 0, 0xFF, 0xFE, 0x08, 0, 0, 0, 4]"
  using frame_header_roundtrip [of "response_header 0 0 0" "[0x84, 0, 0xFF, 0xFE, 0x08, 0, 0, 0, 4]"] by simp

text \<open>C33. The table handed to the filter for the three write statements, in any letter case, after
  any leading white space, with any white space between \<open>INSERT\<close> and \<open>INTO\<close> or \<open>DELETE\<close> and
  \<open>FROM\<close> and before the table: it is the token after \<open>INTO\<close>, \<open>UPDATE\<close> or \<open>FROM\<close>, up to white
  space, an opening parenthesis or a semicolon, and the statement counts as a write. This
  holds for \<open>UPDATE\<close> only if the letters \<open>INTO\<close> occur nowhere in the text, and for \<open>DELETE FROM\<close>
  only if neither \<open>INTO\<close> nor \<open>UPDATE\<close> does, in no case and not inside another word either: the
  code looks for these first and then takes another token (\<open>extract_table_target_misreads\<close>).\<close>

theorem extract_table_target_write:
  assumes "map c_toupper verb = ''INSERT'' \<and> map c_toupper particle = ''INTO'' \<or>
      map c_toupper verb = ''UPDATE'' \<and> gap = [] \<and> particle = [] \<and>
        str_find ''INTO'' (map c_toupper query) = None \<or>
      map c_toupper verb = ''DELETE'' \<and> map c_toupper particle = ''FROM'' \<and>
        str_find ''INTO'' (map c_toupper query) = None \<and> str_find ''UPDATE'' (map c_toupper query) = None"
    and "query = lead @ verb @ gap @ particle @ w @ t @ rest" "blank lead" "blank gap" "blank w"
    and "\<forall>c \<in> set t. \<not> ends_token c" "t \<noteq> []" "rest = [] \<or> ends_token (hd rest)"
  shows "extract_table_target query = t \<and> is_write_query query"
proof
  let ?kw = "lead @ verb @ gap @ particle" and ?r = "w @ t @ rest"
  have query: "query = ?kw @ ?r" using assms(2) by simp
  let ?K = "map c_toupper ?kw"
  define u where "u = map c_toupper ?r"
  note found = keyword_positions [OF assms(3,4), of u]
  note len = length_of_upper [of verb] length_of_upper [of particle]
  have upper: "map c_toupper query = ?K @ u" by (simp only: query map_append u_def)
  have "(case str_find ''INTO'' (?K @ u) of
            Some i \<Rightarrow> Some (i + 4)
          | None \<Rightarrow> (case str_find ''UPDATE'' (?K @ u) of
              Some i \<Rightarrow> Some (i + 6)
            | None \<Rightarrow> (case str_find ''FROM'' (?K @ u) of
                Some i \<Rightarrow> Some (i + 4) | None \<Rightarrow> None))) = Some (length ?K)"
    using assms(1) unfolding upper
  proof (elim disjE conjE)
    assume kw: "map c_toupper verb = ''INSERT''" "map c_toupper particle = ''INTO''"
    then have "?K = map c_toupper lead @ ''INSERT'' @ map c_toupper gap @ ''INTO''" by (simp only: map_append)
    then show ?thesis using len(1) [OF kw(1)] len(2) [OF kw(2)] by (simp only: found(1) option.case) simp
  next
    assume kw: "map c_toupper verb = ''UPDATE''" "gap = []" "particle = []" and none: "str_find ''INTO'' (?K @ u) = None"
    then have "?K = map c_toupper lead @ ''UPDATE'' @ map c_toupper [] @ []" by (simp only: map_append list.map)
    then have "str_find ''UPDATE'' (?K @ u) = Some (length lead)" by (simp only: found(2))
    moreover have "length ?K = length lead + 6" using len(1) [OF kw(1)] kw(2,3) by simp
    ultimately show ?thesis by (simp only: none option.case)
  next
    assume kw: "map c_toupper verb = ''DELETE''" "map c_toupper particle = ''FROM''"
      and none: "str_find ''INTO'' (?K @ u) = None" "str_find ''UPDATE'' (?K @ u) = None"
    then have "?K = map c_toupper lead @ ''DELETE'' @ map c_toupper gap @ ''FROM''" by (simp only: map_append)
    then have "str_find ''FROM'' (?K @ u) = Some (length lead + (6 + length gap))" by (simp only: found(3))
    then show ?thesis using len(1) [OF kw(1)] len(2) [OF kw(2)] by (simp only: none option.case) simp
  qed
  then have "extract_table_target (?kw @ ?r) = takeWhile (\<lambda>c. \<not> ends_token c) (dropWhile c_isspace ?r)"
    unfolding u_def by (rule extract_at [OF refl])
  then show "extract_table_target query = t"
    using token_after_keyword [OF assms(5) [unfolded blank_def] assms(6-8)] by (simp only: query)
  have "is_write_query (verb @ gap @ particle @ ?r)" using assms(1) by (elim disjE conjE) (simp_all add: keyword_is_write)
  then show "is_write_query query" using assms(3) by (simp add: assms(2) is_write_query_lead)
qed

theorem extract_table_target_write_witness:
  "let query = '' delete  from ks.users where id = 1''
   in extract_table_target query = ''ks.users'' \<and> is_write_query query"
  unfolding Let_def
  by (rule extract_table_target_write [of "''delete''" "''from''" "''  ''" _ "'' ''" "'' ''" _ "'' where id = 1''"])
    code_simp+

text \<open>What the search order costs: the keywords are found inside literals and names.\<close>

lemma extract_table_target_misreads:
  "extract_table_target ''DELETE FROM ks.updates WHERE id = 1'' = ''s''"
  "extract_table_target ''UPDATE ks.users SET n = 1 WHERE v = into_x'' = ''_x''"
  by code_simp+

text \<open>C34. The length check of \<open>parse_long_string\<close> is exact on well-formed bodies and wraps on
  four negative lengths: for a body of fewer than \<open>2^63\<close> bytes the result is the string of
  the announced length when it fits, the parser throws \<open>std::length_error\<close> exactly when
  the announced length is between -4 and -1, and it returns the empty string otherwise.\<close>

theorem parse_long_string_cases:
  assumes "length body < 2 ^ 63"
  shows "parse_long_string body 0 =
    (let n = sint (read_i32_be body 0) in
     if 4 \<le> length body \<and> 0 \<le> n \<and> n + 4 \<le> int (length body)
     then Some (bytes_to_string (take (nat n) (drop 4 body)))
     else if 4 \<le> length body \<and> - 4 \<le> n \<and> n < 0 then None
     else Some [])"
proof (cases "4 \<le> length body")
  case False
  then show ?thesis by (simp add: parse_long_string_short)
next
  case True
  then have size: "\<not> (of_nat (length body) :: u64) < 0 + 4"
    using assms by (simp add: word_less_nat_alt unat_of_nat)
  show ?thesis
    using True size
    by (auto simp: parse_long_string_def Let_def long_string_in_bounds [OF assms True]
        long_string_too_long unat_scast_u64)
qed

theorem parse_long_string_cases_witness:
  "parse_long_string [0, 0, 0, 2, 72, 105, 9] 0 = Some ''Hi'' \<and>
   parse_long_string [0xFF, 0xFF, 0xFF, 0xFF] 0 = None"
proof -
  have "read_i32_be [0, 0, 0, 2, 72, 105, 9] 0 = 2" "read_i32_be [0xFF, 0xFF, 0xFF, 0xFF] 0 = - 1"
    by code_simp+
  moreover have "bytes_to_string [72, 105] = ''Hi''" by code_simp
  ultimately show ?thesis
    using parse_long_string_cases [of "[0, 0, 0, 2, 72, 105, 9]"]
      parse_long_string_cases [of "[0xFF, 0xFF, 0xFF, 0xFF]"]
    by (simp add: Let_def)
qed

end
