(* ===== verification/Svckit_Types.thy ===== *)
theory Svckit_Types
  imports Complex_Main Sync_Prelude
begin

text \<open>
  The shared domain types of \<open>svckit\<close>: the \<open>SyncError\<close> hierarchy
  (\<open>include/svckit/errors.hpp\<close>), \<open>FilterDecision\<close> (\<open>filter_governor.hpp\<close>,
  \<open>errors.cpp\<close>), \<open>DiscrepancyType\<close>, \<open>Discrepancy\<close> and \<open>ValidationResult\<close>
  (\<open>types.hpp\<close>, \<open>types.cpp\<close>), and the metric helpers of \<open>MetricsRegistry\<close>
  (\<open>metrics.hpp\<close>, \<open>metrics.cpp\<close>).

  Time points are tick counts handed in by the caller. A C++ \<open>float\<close> or \<open>double\<close> field
  is a \<^typ>\<open>real\<close>; where a value is computed in floating point the rounding function is a
  parameter of the computing definition. How an \<open>ostream\<close> prints a \<open>float\<close> is a
  parameter of \<open>summary\<close>. The prometheus client is not part of the repository: a
  registry is the sequence of calls made on it.
\<close>

section \<open>Definitions\<close>

subsection \<open>Errors\<close>

datatype sync_error =
    DatabaseError string
  | ConfigError string
  | MigrationError string
  | ValidationError string
  | FilterError string

fun what :: "sync_error \<Rightarrow> string" where
  "what (DatabaseError m) = ''[DatabaseError] '' @ m"
| "what (ConfigError m) = ''[ConfigError] '' @ m"
| "what (MigrationError m) = ''[MigrationError] '' @ m"
| "what (ValidationError m) = ''[ValidationError] '' @ m"
| "what (FilterError m) = ''[FilterError] '' @ m"

type_synonym 'a outcome = "sync_error + 'a"

subsection \<open>Filter decisions\<close>

datatype filter_decision = Allow | SkipTable | SkipTenant | SourceOnly

fun filter_decision_to_string :: "filter_decision \<Rightarrow> string" where
  "filter_decision_to_string Allow = ''Allow''"
| "filter_decision_to_string SkipTable = ''SkipTable''"
| "filter_decision_to_string SkipTenant = ''SkipTenant''"
| "filter_decision_to_string SourceOnly = ''SourceOnly''"

subsection \<open>Discrepancies and validation results\<close>

datatype discrepancy_type =
    MissingInTarget | MissingInSource | DataMismatch | TimestampMismatch

fun discrepancy_type_to_string :: "discrepancy_type \<Rightarrow> string" where
  "discrepancy_type_to_string MissingInTarget = ''MissingInTarget''"
| "discrepancy_type_to_string MissingInSource = ''MissingInSource''"
| "discrepancy_type_to_string DataMismatch = ''DataMismatch''"
| "discrepancy_type_to_string TimestampMismatch = ''TimestampMismatch''"

record discrepancy =
  disc_id :: string
  disc_table :: string
  disc_key :: "(string \<times> string) list"
  disc_type :: discrepancy_type
  disc_source_value :: "string option"
  disc_target_value :: "string option"
  disc_detected_at :: nat

definition new_discrepancy :: "nat \<Rightarrow> discrepancy" where
  "new_discrepancy now =
     \<lparr>disc_id = [], disc_table = [], disc_key = [], disc_type = DataMismatch,
      disc_source_value = None, disc_target_value = None, disc_detected_at = now\<rparr>"

record validation_result =
  vr_table :: string
  vr_rows_checked :: u64
  vr_rows_matched :: u64
  vr_discrepancies :: "discrepancy list"
  vr_consistency_percentage :: real
  vr_validation_time :: nat
  vr_source_only :: bool

definition new_validation_result :: "nat \<Rightarrow> validation_result" where
  "new_validation_result now =
     \<lparr>vr_table = [], vr_rows_checked = 0, vr_rows_matched = 0, vr_discrepancies = [],
      vr_consistency_percentage = 100, vr_validation_time = now, vr_source_only = False\<rparr>"

definition summary :: "(real \<Rightarrow> string) \<Rightarrow> validation_result \<Rightarrow> string" where
  "summary show_float r =
     ''table='' @ vr_table r @
     '' checked='' @ nat_to_string (unat (vr_rows_checked r)) @
     '' matched='' @ nat_to_string (unat (vr_rows_matched r)) @
     '' discrepancies='' @ nat_to_string (length (vr_discrepancies r)) @
     '' consistency='' @ show_float (vr_consistency_percentage r) @ ''%'' @
     (if vr_source_only r then '' [source-only]'' else [])"

subsection \<open>Metrics\<close>

datatype metric_call =
    Increment string u64
  | SetGauge string real

record metrics_registry =
  service_name :: string
  metric_calls :: "metric_call list"

definition new_metrics_registry :: "string \<Rightarrow> metrics_registry" where
  "new_metrics_registry name = \<lparr>service_name = name, metric_calls = []\<rparr>"

definition log_metric :: "metric_call \<Rightarrow> metrics_registry \<Rightarrow> metrics_registry" where
  "log_metric c m = m\<lparr>metric_calls := metric_calls m @ [c]\<rparr>"

definition record_rows_migrated :: "u64 \<Rightarrow> metrics_registry \<Rightarrow> metrics_registry" where
  "record_rows_migrated n m =
     log_metric (Increment (service_name m @ ''_rows_migrated_total'') n) m"

definition record_rows_failed :: "u64 \<Rightarrow> metrics_registry \<Rightarrow> metrics_registry" where
  "record_rows_failed n m =
     log_metric (Increment (service_name m @ ''_rows_failed_total'') n) m"

definition record_rows_filtered :: "u64 \<Rightarrow> metrics_registry \<Rightarrow> metrics_registry" where
  "record_rows_filtered n m =
     log_metric (Increment (service_name m @ ''_rows_filtered_total'') n) m"

definition set_throughput :: "real \<Rightarrow> metrics_registry \<Rightarrow> metrics_registry" where
  "set_throughput v m =
     log_metric (SetGauge (service_name m @ ''_throughput_rows_per_sec'') v) m"

text \<open>The operation name, the table and the duration are unused by the source.\<close>

definition record_operation ::
  "string \<Rightarrow> string \<Rightarrow> bool \<Rightarrow> real \<Rightarrow> metrics_registry \<Rightarrow> metrics_registry" where
  "record_operation op_name table success duration_secs m =
     (if success then record_rows_migrated 1 m else record_rows_failed 1 m)"

section \<open>Lemmas\<close>

lemma what_inject: "what e = what e' \<longleftrightarrow> e = e'"
  by (cases e; cases e') auto

lemma filter_decision_to_string_inject:
  "filter_decision_to_string d = filter_decision_to_string d' \<longleftrightarrow> d = d'"
  by (cases d; cases d') auto

lemma discrepancy_type_to_string_inject:
  "discrepancy_type_to_string d = discrepancy_type_to_string d' \<longleftrightarrow> d = d'"
  by (cases d; cases d') auto

lemma record_operation_calls:
  "metric_calls (record_operation op t ok d m) =
     metric_calls m @
       [Increment (service_name m @
          (if ok then ''_rows_migrated_total'' else ''_rows_failed_total'')) 1]"
  by (simp add: record_operation_def record_rows_migrated_def record_rows_failed_def
      log_metric_def)

end
