(* ===== verification/Svckit_Config.thy ===== *)
theory Svckit_Config
  imports Svckit_Types
begin

text \<open>
  Shared configuration (\<open>svckit/include/svckit/config.hpp\<close>, \<open>svckit/src/config.cpp\<close>):
  \<open>DatabaseConfig\<close>, \<open>ObservabilityConfig\<close>, their YAML parsers and \<open>load_yaml_root\<close>.

  yaml-cpp, the file system and the process environment are parameters. A \<open>yaml_api\<close>
  holds the yaml-cpp operations the loaders call: a conversion \<open>as<T>()\<close> that throws a
  \<open>YAML::Exception\<close> is \<^term>\<open>None\<close>, and \<open>as<T>(fallback)\<close> is the conversion with the
  fallback in place of \<^term>\<open>None\<close>; \<open>node[key]\<close> throws on a scalar node. A parser that
  returns \<^term>\<open>None\<close> lets such an exception escape.
\<close>

section \<open>Definitions\<close>

subsection \<open>The yaml-cpp interface\<close>

record 'n yaml_api =
  y_defined :: "'n \<Rightarrow> bool"
  y_is_map :: "'n \<Rightarrow> bool"
  y_is_sequence :: "'n \<Rightarrow> bool"
  y_is_scalar :: "'n \<Rightarrow> bool"
  y_is_null :: "'n \<Rightarrow> bool"
  y_child :: "'n \<Rightarrow> string \<Rightarrow> 'n"
  y_items :: "'n \<Rightarrow> 'n list"
  y_string :: "'n \<Rightarrow> string option"
  y_u16 :: "'n \<Rightarrow> u16 option"
  y_u32 :: "'n \<Rightarrow> u32 option"
  y_u64 :: "'n \<Rightarrow> u64 option"
  y_bool :: "'n \<Rightarrow> bool option"
  y_float :: "'n \<Rightarrow> real option"

text \<open>\<open>node[key]\<close>.\<close>

definition y_sub :: "'n yaml_api \<Rightarrow> 'n \<Rightarrow> string \<Rightarrow> 'n option" where
  "y_sub y n k = (if y_is_scalar y n then None else Some (y_child y n k))"

text \<open>\<open>if (node[key]) field = node[key].as<T>(fallback);\<close> on a map node.\<close>

definition y_field ::
  "'n yaml_api \<Rightarrow> ('n \<Rightarrow> 'v option) \<Rightarrow> 'n \<Rightarrow> string \<Rightarrow> 'v \<Rightarrow> 'v \<Rightarrow> 'v" where
  "y_field y conv n k fallback cur =
     (if y_defined y (y_child y n k)
      then (case conv (y_child y n k) of Some v \<Rightarrow> v | None \<Rightarrow> fallback)
      else cur)"

text \<open>\<open>if (node[key]) field = node[key].as<T>();\<close>, which may throw.\<close>

definition y_field_strict ::
  "'n yaml_api \<Rightarrow> ('n \<Rightarrow> 'v option) \<Rightarrow> 'n \<Rightarrow> string \<Rightarrow> 'v \<Rightarrow> 'v option" where
  "y_field_strict y conv n k cur =
     (if y_defined y (y_child y n k) then conv (y_child y n k) else Some cur)"

text \<open>\<open>for (const auto& t : node) out.push_back(t.as<std::string>());\<close>\<close>

fun y_strings :: "'n yaml_api \<Rightarrow> 'n list \<Rightarrow> string list option" where
  "y_strings y [] = Some []"
| "y_strings y (n # ns) =
     (case y_string y n of
        None \<Rightarrow> None
      | Some s \<Rightarrow> map_option ((#) s) (y_strings y ns))"

text \<open>\<open>if (node[key]) for (\<dots> : node[key]) \<dots>\<close>; an undefined node has no items to add.\<close>

definition y_string_list :: "'n yaml_api \<Rightarrow> 'n \<Rightarrow> string \<Rightarrow> string list option" where
  "y_string_list y n k =
     (if y_defined y (y_child y n k) then y_strings y (y_items y (y_child y n k))
      else Some [])"

text \<open>The same with the additional guard \<open>node[key].IsSequence()\<close>.\<close>

definition y_string_seq :: "'n yaml_api \<Rightarrow> 'n \<Rightarrow> string \<Rightarrow> string list option" where
  "y_string_seq y n k =
     (if y_defined y (y_child y n k) \<and> y_is_sequence y (y_child y n k)
      then y_strings y (y_items y (y_child y n k))
      else Some [])"

subsection \<open>Database and observability sections\<close>

record database_config =
  db_driver :: string
  db_hosts :: "string list"
  db_port :: u16
  db_keyspace :: string
  db_username :: "string option"
  db_password :: "string option"
  db_connection_timeout_ms :: u32
  db_request_timeout_ms :: u32
  db_pool_size :: u32
  db_speculative_execution :: bool
  db_speculative_delay_ms :: u32

definition default_database_config :: database_config where
  "default_database_config =
     \<lparr>db_driver = [], db_hosts = [], db_port = 9042, db_keyspace = [],
      db_username = None, db_password = None, db_connection_timeout_ms = 5000,
      db_request_timeout_ms = 30000, db_pool_size = 8,
      db_speculative_execution = False, db_speculative_delay_ms = 100\<rparr>"

definition parse_database_config :: "'n yaml_api \<Rightarrow> 'n \<Rightarrow> database_config option" where
  "parse_database_config y n =
     (let c = default_database_config in
      if \<not> y_defined y n \<or> \<not> y_is_map y n then Some c
      else
        case y_string_list y n ''hosts'' of None \<Rightarrow> None | Some hosts \<Rightarrow>
        case y_field_strict y (y_string y) n ''keyspace'' (db_keyspace c) of None \<Rightarrow> None
        | Some ks \<Rightarrow>
        case y_field_strict y (\<lambda>m. map_option Some (y_string y m)) n ''username'' None of
          None \<Rightarrow> None | Some user \<Rightarrow>
        case y_field_strict y (\<lambda>m. map_option Some (y_string y m)) n ''password'' None of
          None \<Rightarrow> None | Some pass \<Rightarrow>
        Some
          \<lparr>db_driver = y_field y (y_string y) n ''driver'' ''scylla'' (db_driver c),
           db_hosts = (if hosts = [] then [''localhost''] else hosts),
           db_port = y_field y (y_u16 y) n ''port'' 9042 (db_port c),
           db_keyspace = ks,
           db_username = user,
           db_password = pass,
           db_connection_timeout_ms =
             y_field y (y_u32 y) n ''connection_timeout_ms'' 5000 (db_connection_timeout_ms c),
           db_request_timeout_ms =
             y_field y (y_u32 y) n ''request_timeout_ms'' 30000 (db_request_timeout_ms c),
           db_pool_size = y_field y (y_u32 y) n ''pool_size'' 8 (db_pool_size c),
           db_speculative_execution =
             y_field y (y_bool y) n ''speculative_execution'' False
               (db_speculative_execution c),
           db_speculative_delay_ms =
             y_field y (y_u32 y) n ''speculative_delay_ms'' 100
               (db_speculative_delay_ms c)\<rparr>)"

record observability_config =
  obs_metrics_port :: u16
  obs_log_level :: string
  obs_jaeger_endpoint :: "string option"

definition default_observability_config :: observability_config where
  "default_observability_config =
     \<lparr>obs_metrics_port = 9092, obs_log_level = ''info'', obs_jaeger_endpoint = None\<rparr>"

definition parse_observability_config ::
  "'n yaml_api \<Rightarrow> 'n \<Rightarrow> observability_config option" where
  "parse_observability_config y n =
     (let c = default_observability_config in
      if \<not> y_defined y n \<or> \<not> y_is_map y n then Some c
      else
        case y_field_strict y (\<lambda>m. map_option Some (y_string y m)) n ''jaeger_endpoint'' None of
          None \<Rightarrow> None | Some jaeger \<Rightarrow>
        Some
          \<lparr>obs_metrics_port = y_field y (y_u16 y) n ''metrics_port'' 9092 (obs_metrics_port c),
           obs_log_level = y_field y (y_string y) n ''log_level'' ''info'' (obs_log_level c),
           obs_jaeger_endpoint = jaeger\<rparr>)"

subsection \<open>Loading a file\<close>

text \<open>What can leave a loader: a \<open>SyncError\<close>, or a yaml-cpp exception that no handler of
  the loader catches.\<close>

datatype load_error = LoadSync sync_error | LoadYaml

record 'n host_env =
  file_exists :: "string \<Rightarrow> bool"
  load_file :: "string \<Rightarrow> string + 'n"
  getenv :: "string \<Rightarrow> string option"

definition load_yaml_root ::
  "'n host_env \<Rightarrow> 'n yaml_api \<Rightarrow> string \<Rightarrow> 'n outcome" where
  "load_yaml_root h y path =
     (if \<not> file_exists h path then Inl (ConfigError (''Config file not found: '' @ path))
      else
        case load_file h path of
          Inl e \<Rightarrow>
            Inl (ConfigError (''YAML parse error in '' @ [CHR 0x27] @ path @ [CHR 0x27] @ '': '' @ e))
        | Inr doc \<Rightarrow>
            if \<not> y_defined y doc \<or> y_is_null y doc
            then Inl (ConfigError (''Empty config file: '' @ path))
            else Inr doc)"

text \<open>\<open>if (const char* v = std::getenv(name)) field = v;\<close>\<close>

definition env_override ::
  "'n host_env \<Rightarrow> string \<Rightarrow> string option \<Rightarrow> string option" where
  "env_override h name cur = (case getenv h name of Some v \<Rightarrow> Some v | None \<Rightarrow> cur)"

text \<open>The four credential overrides every service applies, with its own prefix.\<close>

definition env_credentials ::
  "'n host_env \<Rightarrow> string \<Rightarrow> database_config \<Rightarrow> database_config" where
  "env_credentials h prefix c =
     c\<lparr>db_username := env_override h (prefix @ ''_USERNAME'') (db_username c),
       db_password := env_override h (prefix @ ''_PASSWORD'') (db_password c)\<rparr>"

end
