(* ===== verification/Svckit_Database.thy ===== *)
theory Svckit_Database
  imports Svckit_Config
begin

text \<open>
  \<open>ScyllaConnection\<close> (\<open>svckit/include/svckit/database.hpp\<close>, \<open>svckit/src/database.cpp\<close>),
  the owner of a driver session, and the \<open>CqlDriver\<close> interface of
  \<open>svckit/include/svckit/concepts.hpp\<close> that every service relies on.

  The DataStax C/C++ driver is not part of the repository. It is the parameter
  \<open>driver\<close>: how the driver answers a call in a driver state \<open>'w\<close>. An \<open>io\<close> value is the
  driver state together with the sequence of driver calls made so far, so that an ordering
  or an absence of calls can be stated. A call that ends in \<open>CASS_OK\<close> answers
  \<^term>\<open>None\<close>, any other error code answers its message. Logging is left out; the frees of
  futures and statements local to a function are left out.
\<close>

section \<open>Definitions\<close>

subsection \<open>The driver\<close>

record cluster_settings =
  cs_contact_points :: string
  cs_port :: int
  cs_connect_timeout :: u32
  cs_request_timeout :: u32
  cs_num_threads_io :: u32
  cs_credentials :: "(string \<times> string) option"
  cs_speculative :: "(u32 \<times> nat) option"

datatype cass_call =
    ClusterNew "nat option"
  | ClusterConfigure nat cluster_settings
  | SessionNew "nat option"
  | SessionConnect nat nat "string option"
  | SessionExecute nat string
  | SessionClose nat
  | SessionFree nat
  | ClusterFree nat

record 'w driver =
  cass_cluster_new :: "'w \<Rightarrow> nat option \<times> 'w"
  cass_session_new :: "'w \<Rightarrow> nat option \<times> 'w"
  cass_session_connect :: "nat \<Rightarrow> nat \<Rightarrow> string option \<Rightarrow> 'w \<Rightarrow> string option \<times> 'w"
  cass_session_execute :: "nat \<Rightarrow> string \<Rightarrow> 'w \<Rightarrow> string option \<times> 'w"
  cass_session_close :: "nat \<Rightarrow> 'w \<Rightarrow> 'w"

record 'w io =
  io_world :: 'w
  io_calls :: "cass_call list"

definition did_call :: "cass_call \<Rightarrow> 'w \<Rightarrow> 'w io \<Rightarrow> 'w io" where
  "did_call c w s = \<lparr>io_world = w, io_calls = io_calls s @ [c]\<rparr>"

subsection \<open>The connection object\<close>

record scylla_connection =
  conn_config :: database_config
  conn_cluster :: "nat option"
  conn_session :: "nat option"
  conn_connected :: bool

definition is_connected :: "scylla_connection \<Rightarrow> bool" where
  "is_connected c = conn_connected c"

definition conn_keyspace :: "scylla_connection \<Rightarrow> string" where
  "conn_keyspace c = db_keyspace (conn_config c)"

definition settings_of :: "database_config \<Rightarrow> cluster_settings" where
  "settings_of cfg =
     \<lparr>cs_contact_points = join_with '','' (db_hosts cfg),
      cs_port = uint (db_port cfg),
      cs_connect_timeout = db_connection_timeout_ms cfg,
      cs_request_timeout = db_request_timeout_ms cfg,
      cs_num_threads_io = max (db_pool_size cfg) 1,
      cs_credentials =
        (case (db_username cfg, db_password cfg) of
           (Some u, Some p) \<Rightarrow> Some (u, p)
         | _ \<Rightarrow> None),
      cs_speculative =
        (if db_speculative_execution cfg then Some (db_speculative_delay_ms cfg, 2)
         else None)\<rparr>"

text \<open>\<open>connect()\<close>: the outcome, the object as \<open>connect\<close> leaves it (the handles it has
  stored when it throws) and the calls made.\<close>

definition conn_connect ::
  "'w driver \<Rightarrow> scylla_connection \<Rightarrow> 'w io \<Rightarrow> unit outcome \<times> scylla_connection \<times> 'w io" where
  "conn_connect d c s =
     (let cfg = conn_config c; (cl, w1) = cass_cluster_new d (io_world s);
          s1 = did_call (ClusterNew cl) w1 s
      in case cl of
        None \<Rightarrow> (Inl (DatabaseError ''Failed to allocate CassCluster''), c, s1)
      | Some cl \<Rightarrow>
        let c1 = c\<lparr>conn_cluster := Some cl\<rparr>;
            s2 = did_call (ClusterConfigure cl (settings_of cfg)) (io_world s1) s1;
            (se, w2) = cass_session_new d (io_world s2);
            s3 = did_call (SessionNew se) w2 s2
        in case se of
          None \<Rightarrow> (Inl (DatabaseError ''Failed to allocate CassSession''), c1, s3)
        | Some se \<Rightarrow>
          let c2 = c1\<lparr>conn_session := Some se\<rparr>;
              ks = (if db_keyspace cfg \<noteq> [] then Some (db_keyspace cfg) else None);
              (rc, w3) = cass_session_connect d se cl ks (io_world s3);
              s4 = did_call (SessionConnect se cl ks) w3 s3
          in case rc of
            Some msg \<Rightarrow>
              (Inl (DatabaseError
                 (''Failed to connect to '' @ db_driver cfg @ '' cluster: '' @ msg)), c2, s4)
          | None \<Rightarrow> (Inr (), c2\<lparr>conn_connected := True\<rparr>, s4))"

definition conn_close ::
  "'w driver \<Rightarrow> scylla_connection \<Rightarrow> 'w io \<Rightarrow> scylla_connection \<times> 'w io" where
  "conn_close d c s =
     (case conn_session c of
        None \<Rightarrow> (c, s)
      | Some se \<Rightarrow>
          if \<not> conn_connected c then (c, s)
          else (c\<lparr>conn_connected := False\<rparr>,
                did_call (SessionClose se) (cass_session_close d se (io_world s)) s))"

text \<open>The deleters of the two \<open>unique_ptr\<close> members: a null handle is not freed.\<close>

definition free_session :: "nat option \<Rightarrow> 'w io \<Rightarrow> 'w io" where
  "free_session h s = (case h of None \<Rightarrow> s | Some se \<Rightarrow> did_call (SessionFree se) (io_world s) s)"

definition free_cluster :: "nat option \<Rightarrow> 'w io \<Rightarrow> 'w io" where
  "free_cluster h s = (case h of None \<Rightarrow> s | Some cl \<Rightarrow> did_call (ClusterFree cl) (io_world s) s)"

text \<open>Members are destroyed in the reverse order of their declaration: the session first.\<close>

definition free_members :: "scylla_connection \<Rightarrow> 'w io \<Rightarrow> 'w io" where
  "free_members c s = free_cluster (conn_cluster c) (free_session (conn_session c) s)"

text \<open>The constructor. When \<open>connect()\<close> throws, the members already built are destroyed,
  and the destructor of the class does not run.\<close>

definition conn_new ::
  "'w driver \<Rightarrow> database_config \<Rightarrow> 'w io \<Rightarrow> scylla_connection outcome \<times> 'w io" where
  "conn_new d cfg s =
     (case conn_connect d \<lparr>conn_config = cfg, conn_cluster = None, conn_session = None,
                           conn_connected = False\<rparr> s of
        (Inl e, c, s') \<Rightarrow> (Inl e, free_members c s')
      | (Inr _, c, s') \<Rightarrow> (Inr c, s'))"

definition conn_destroy :: "'w driver \<Rightarrow> scylla_connection \<Rightarrow> 'w io \<Rightarrow> 'w io" where
  "conn_destroy d c s = (let (c', s') = conn_close d c s in free_members c' s')"

text \<open>The move constructor: the new object and what is left of the old one. The content of
  a moved-from configuration is unspecified in C++ and given as \<open>residue\<close>.\<close>

definition conn_move ::
  "database_config \<Rightarrow> scylla_connection \<Rightarrow> scylla_connection \<times> scylla_connection" where
  "conn_move residue c =
     (c, \<lparr>conn_config = residue, conn_cluster = None, conn_session = None, conn_connected = False\<rparr>)"

text \<open>Move assignment; \<open>same\<close> says that both sides are one object.\<close>

definition conn_move_assign ::
  "'w driver \<Rightarrow> bool \<Rightarrow> database_config \<Rightarrow> scylla_connection \<Rightarrow> scylla_connection \<Rightarrow> 'w io
   \<Rightarrow> scylla_connection \<times> scylla_connection \<times> 'w io" where
  "conn_move_assign d same residue this other s =
     (if same then (this, other, s)
      else
        let (this1, s1) = conn_close d this s;
            s2 = free_cluster (conn_cluster this1) s1;
            s3 = free_session (conn_session this1) s2;
            (this', other') = conn_move residue other
        in (this', other', s3))"

definition conn_execute ::
  "'w driver \<Rightarrow> scylla_connection \<Rightarrow> string \<Rightarrow> 'w io \<Rightarrow> unit outcome \<times> 'w io" where
  "conn_execute d c cql s =
     (case conn_session c of
        Some se \<Rightarrow>
          if \<not> conn_connected c
          then (Inl (DatabaseError (''Cannot execute query '' @
                  [CHR 0xE2, CHR 0x80, CHR 0x94] @ '' session not connected'')), s)
          else
            let (rc, w) = cass_session_execute d se cql (io_world s);
                s' = did_call (SessionExecute se cql) w s
            in (case rc of
                  Some msg \<Rightarrow>
                    (Inl (DatabaseError (''Query execution failed: '' @ msg)), s')
                | None \<Rightarrow> (Inr (), s'))
      | None \<Rightarrow>
          (Inl (DatabaseError (''Cannot execute query '' @
             [CHR 0xE2, CHR 0x80, CHR 0x94] @ '' session not connected'')), s))"

definition conn_ping :: "'w driver \<Rightarrow> scylla_connection \<Rightarrow> 'w io \<Rightarrow> bool \<times> 'w io" where
  "conn_ping d c s =
     (if \<not> conn_connected c \<or> conn_session c = None then (False, s)
      else case conn_execute d c ''SELECT now() FROM system.local'' s of
        (Inr _, s') \<Rightarrow> (True, s')
      | (Inl _, s') \<Rightarrow> (False, s'))"

subsection \<open>Invariant and observations\<close>

definition conn_inv :: "scylla_connection \<Rightarrow> bool" where
  "conn_inv c = (conn_connected c \<longrightarrow> conn_session c \<noteq> None \<and> conn_cluster c \<noteq> None)"

text \<open>A connection is usable when it is connected and holds a session.\<close>

definition live :: "scylla_connection \<Rightarrow> bool" where
  "live c = (conn_connected c \<and> conn_session c \<noteq> None)"

text \<open>The driver calls one \<open>execute\<close> makes.\<close>

definition exec_calls :: "scylla_connection \<Rightarrow> string \<Rightarrow> cass_call list" where
  "exec_calls c cql = (if live c then [SessionExecute (the (conn_session c)) cql] else [])"

text \<open>Handle accounting: the frees a call history owes, those it made, and those that a
  connection object still has to make.\<close>

fun owed_by :: "cass_call \<Rightarrow> cass_call list" where
  "owed_by (ClusterNew (Some cl)) = [ClusterFree cl]"
| "owed_by (SessionNew (Some se)) = [SessionFree se]"
| "owed_by _ = []"

fun is_free :: "cass_call \<Rightarrow> bool" where
  "is_free (SessionFree _) = True"
| "is_free (ClusterFree _) = True"
| "is_free _ = False"

definition owed :: "'w io \<Rightarrow> cass_call multiset" where
  "owed s = mset (concat (map owed_by (io_calls s)))"

definition freed :: "'w io \<Rightarrow> cass_call multiset" where
  "freed s = mset (filter is_free (io_calls s))"

definition owned :: "scylla_connection \<Rightarrow> cass_call multiset" where
  "owned c =
     (case conn_session c of None \<Rightarrow> {#} | Some x \<Rightarrow> {#SessionFree x#}) +
     (case conn_cluster c of None \<Rightarrow> {#} | Some x \<Rightarrow> {#ClusterFree x#})"

text \<open>The life of a program's connection objects: construction (which may throw),
  destruction, moves and queries, in any order.\<close>

inductive pool_step ::
  "'w driver \<Rightarrow> scylla_connection list \<times> 'w io \<Rightarrow> scylla_connection list \<times> 'w io \<Rightarrow> bool"
  for d where
  pool_new: "conn_new d cfg s = (Inr c, s') \<Longrightarrow> pool_step d (cs, s) (cs @ [c], s')"
| pool_new_throws: "conn_new d cfg s = (Inl e, s') \<Longrightarrow> pool_step d (cs, s) (cs, s')"
| pool_destroy:
    "pool_step d (cs @ c # cs', s) (cs @ cs', conn_destroy d c s)"
| pool_move: "conn_move residue c = (c', old) \<Longrightarrow>
    pool_step d (cs @ c # cs', s) (cs @ old # cs' @ [c'], s)"
| pool_move_assign: "conn_move_assign d False residue a b s = (a', b', s') \<Longrightarrow>
    mset cs = {#a, b#} + R \<Longrightarrow> mset cs' = {#a', b'#} + R \<Longrightarrow>
    pool_step d (cs, s) (cs', s')"
| pool_self_assign: "conn_move_assign d True residue a a s = (a', b', s') \<Longrightarrow>
    pool_step d (cs @ a # cs', s) (cs @ a' # cs', s')"
| pool_execute: "c \<in> set cs \<Longrightarrow> conn_execute d c q s = (r, s') \<Longrightarrow>
    pool_step d (cs, s) (cs, s')"
| pool_ping: "c \<in> set cs \<Longrightarrow> conn_ping d c s = (r, s') \<Longrightarrow>
    pool_step d (cs, s) (cs, s')"

section \<open>The interface of a connection\<close>

text \<open>
  What the services rely on when they hold a connection: a disconnected connection answers
  with an error and leaves the world alone, a connected one makes exactly one call.
\<close>

locale cql_driver =
  fixes execute :: "'c \<Rightarrow> string \<Rightarrow> 's \<Rightarrow> unit outcome \<times> 's"
    and connected :: "'c \<Rightarrow> bool"
    and invar :: "'c \<Rightarrow> bool"
    and history :: "'s \<Rightarrow> 'k list"
    and call_of :: "'c \<Rightarrow> string \<Rightarrow> 'k"
  assumes refuses: "\<not> connected c \<Longrightarrow> \<exists>e. execute c q s = (Inl e, s)"
    and calls_once: "invar c \<Longrightarrow> connected c \<Longrightarrow>
      history (snd (execute c q s)) = history s @ [call_of c q]"
begin

lemma history_execute:
  "invar c \<Longrightarrow>
   history (snd (execute c q s)) = history s @ (if connected c then [call_of c q] else [])"
proof (cases "connected c")
  case False
  then obtain e where "execute c q s = (Inl e, s)" using refuses by blast
  with False show ?thesis by simp
qed (simp add: calls_once)

lemma success_connected: "execute c q s = (Inr u, s') \<Longrightarrow> connected c"
  using refuses [of c q s] by auto

lemma history_run:
  assumes "invar c" "connected c"
  shows "history (fold (\<lambda>q s. snd (execute c q s)) qs s) = history s @ map (call_of c) qs"
  using assms by (induction qs arbitrary: s) (simp_all add: calls_once)

end

section \<open>Lemmas\<close>

lemma did_call_simps [simp]:
  "io_world (did_call c w s) = w"
  "io_calls (did_call c w s) = io_calls s @ [c]"
  by (simp_all add: did_call_def)

lemma conn_execute_live:
  "live c \<Longrightarrow>
   conn_execute d c q s =
     (let (rc, w) = cass_session_execute d (the (conn_session c)) q (io_world s)
      in (case rc of Some m \<Rightarrow> Inl (DatabaseError (''Query execution failed: '' @ m))
          | None \<Rightarrow> Inr (),
          did_call (SessionExecute (the (conn_session c)) q) w s))"
  by (auto simp: live_def conn_execute_def Let_def split: prod.splits option.splits)

lemma conn_execute_dead: "\<not> live c \<Longrightarrow> \<exists>e. conn_execute d c q s = (Inl e, s)"
  by (auto simp: live_def conn_execute_def split: option.splits)

lemma io_calls_execute [call_simps]:
  "io_calls (snd (conn_execute d c q s)) = io_calls s @ exec_calls c q"
proof (cases "live c")
  case True
  then show ?thesis
    by (simp add: conn_execute_live exec_calls_def Let_def split: prod.splits)
next
  case False
  then show ?thesis
    using conn_execute_dead [OF False, of d q s] by (auto simp: exec_calls_def)
qed

text \<open>An execution either fails without a driver call or is one.\<close>

lemma conn_execute_cases:
  assumes "conn_execute d c q s = (a, s')"
  obtains "isl a" "s' = s"
  | h answer w' where "conn_session c = Some h" "cass_session_execute d h q (io_world s) = (answer, w')"
      "isl a \<longleftrightarrow> answer \<noteq> None" "io_world s' = w'"
proof (cases "\<not> live c")
  case True
  then show ?thesis using assms that(1) by (auto simp: conn_execute_def live_def split: option.splits)
next
  case False
  then obtain h where h: "conn_session c = Some h" "conn_connected c" by (auto simp: live_def)
  obtain answer w' where "cass_session_execute d h q (io_world s) = (answer, w')" by force
  then show ?thesis
    using that(2) [OF h(1)] assms h by (auto simp: conn_execute_def did_call_def Let_def split: option.splits)
qed

lemma io_calls_executeD:
  "conn_execute d c q s = (r, s') \<Longrightarrow> io_calls s' = io_calls s @ exec_calls c q"
  using io_calls_execute [of d c q s] by simp

interpretation scylla: cql_driver "conn_execute d" is_connected conn_inv io_calls
    "\<lambda>c q. SessionExecute (the (conn_session c)) q"
  for d :: "'w driver"
proof unfold_locales
  fix c q and s :: "'w io"
  show "\<not> is_connected c \<Longrightarrow> \<exists>e. conn_execute d c q s = (Inl e, s)"
    by (rule conn_execute_dead) (simp add: is_connected_def live_def)
next
  fix c q and s :: "'w io"
  assume "conn_inv c" "is_connected c"
  then have "live c" by (simp add: conn_inv_def is_connected_def live_def)
  then show "io_calls (snd (conn_execute d c q s)) =
      io_calls s @ [SessionExecute (the (conn_session c)) q]"
    by (simp add: io_calls_execute exec_calls_def)
qed

lemma conn_ping_execute:
  "conn_ping d c s =
     (\<not> isl (fst (conn_execute d c ''SELECT now() FROM system.local'' s)),
      snd (conn_execute d c ''SELECT now() FROM system.local'' s))"
proof (cases "live c")
  case True
  then show ?thesis
    by (auto simp: conn_ping_def live_def split: prod.splits sum.splits)
next
  case False
  then show ?thesis
    using conn_execute_dead [OF False, of d "''SELECT now() FROM system.local''" s]
    by (auto simp: conn_ping_def live_def)
qed

lemma execute_ok_live: "\<not> isl (fst (conn_execute d c q s)) \<Longrightarrow> live c"
  using conn_execute_dead [of c d q s] by fastforce

subsection \<open>Lifecycle\<close>

lemma conn_connect_Inr:
  "conn_connect d c s = (Inr u, c', s') \<Longrightarrow>
   conn_config c' = conn_config c \<and> conn_connected c' \<and> conn_session c' \<noteq> None \<and> conn_cluster c' \<noteq> None"
  by (auto simp: conn_connect_def Let_def split: prod.splits option.splits)

lemma conn_close_inv: "conn_inv c \<Longrightarrow> conn_inv (fst (conn_close d c s))"
  by (auto simp: conn_close_def conn_inv_def split: option.splits)

lemma io_calls_free [simp]:
  "io_calls (free_session h s) = io_calls s @ (case h of None \<Rightarrow> [] | Some x \<Rightarrow> [SessionFree x])"
  "io_calls (free_cluster h s) = io_calls s @ (case h of None \<Rightarrow> [] | Some x \<Rightarrow> [ClusterFree x])"
  by (auto simp: free_session_def free_cluster_def split: option.splits)

lemma io_calls_close:
  "io_calls (snd (conn_close d c s)) =
     io_calls s @ (if live c then [SessionClose (the (conn_session c))] else [])"
  by (auto simp: conn_close_def live_def split: option.splits)

lemma conn_close_handles [simp]:
  "conn_session (fst (conn_close d c s)) = conn_session c"
  "conn_cluster (fst (conn_close d c s)) = conn_cluster c"
  by (auto simp: conn_close_def split: option.splits)

lemma io_calls_destroy:
  "io_calls (conn_destroy d c s) =
     io_calls s @ (if live c then [SessionClose (the (conn_session c))] else []) @
     (case conn_session c of None \<Rightarrow> [] | Some x \<Rightarrow> [SessionFree x]) @
     (case conn_cluster c of None \<Rightarrow> [] | Some x \<Rightarrow> [ClusterFree x])"
  by (simp add: conn_destroy_def free_members_def case_prod_beta io_calls_close)

subsection \<open>Handle accounting\<close>

text \<open>\<open>balanced s cs s' cs'\<close>: what an operation newly owes is paid or owned afterwards.\<close>

definition balanced ::
  "'w io \<Rightarrow> cass_call multiset \<Rightarrow> 'w io \<Rightarrow> cass_call multiset \<Rightarrow> bool" where
  "balanced s own s' own' \<longleftrightarrow> owed s' + freed s + own = owed s + freed s' + own'"

lemma balanced_refl [simp]: "balanced s own s own"
  by (simp add: balanced_def)

lemma balanced_calls:
  assumes "io_calls s' = io_calls s @ cs"
    and "mset (concat (map owed_by cs)) + own = mset (filter is_free cs) + own'"
  shows "balanced s own s' own'"
proof -
  have "owed s' = owed s + mset (concat (map owed_by cs))"
    and "freed s' = freed s + mset (filter is_free cs)"
    using assms(1) by (simp_all add: owed_def freed_def)
  then show ?thesis
    using assms(2) by (simp add: balanced_def add.assoc add.left_commute)
qed

lemma owned_no_handles [simp]:
  "conn_session c = None \<Longrightarrow> conn_cluster c = None \<Longrightarrow> owned c = {#}"
  by (simp add: owned_def)

lemma filter_exec_calls [simp]:
  "concat (map owed_by (exec_calls c q)) = []" "filter is_free (exec_calls c q) = []"
  by (simp_all add: exec_calls_def)

lemma balanced_execute: "conn_execute d c q s = (r, s') \<Longrightarrow> balanced s own s' own"
  by (rule balanced_calls [OF io_calls_executeD]) simp_all

lemma balanced_ping: "conn_ping d c s = (r, s') \<Longrightarrow> balanced s own s' own"
  by (auto simp: conn_ping_def balanced_execute split: if_splits prod.splits sum.splits)

lemma balanced_destroy: "balanced s (owned c + own) (conn_destroy d c s) own"
  by (rule balanced_calls [OF io_calls_destroy])
    (auto simp: owned_def split: option.splits)

lemma balanced_connect:
  "conn_connect d c s = (r, c', s') \<Longrightarrow> conn_session c = None \<Longrightarrow> conn_cluster c = None \<Longrightarrow>
   balanced s own s' (owned c' + own)"
  unfolding conn_connect_def Let_def
  by (auto simp: balanced_def owed_def freed_def owned_def split: prod.splits option.splits)

lemma balanced_free_members: "balanced s (owned c + own) (free_members c s) own"
  by (rule balanced_calls)
    (auto simp: free_members_def owned_def split: option.splits)

lemma balanced_trans:
  assumes "balanced s a s' b" "balanced s' b s'' c"
  shows "balanced s a s'' c"
  unfolding balanced_def
proof (rule multiset_eqI)
  fix x
  have "count (owed s') x + count (freed s) x + count a x =
      count (owed s) x + count (freed s') x + count b x"
    and "count (owed s'') x + count (freed s') x + count b x =
      count (owed s') x + count (freed s'') x + count c x"
    using assms [unfolded balanced_def, THEN arg_cong [where f = "\<lambda>M. count M x"]] by simp_all
  then show "count (owed s'' + freed s + a) x = count (owed s + freed s'' + c) x"
    by simp
qed

lemma balanced_new:
  "conn_new d cfg s = (r, s') \<Longrightarrow>
   balanced s own s' ((case r of Inl _ \<Rightarrow> {#} | Inr c \<Rightarrow> owned c) + own)"
  unfolding conn_new_def
  by (auto split: prod.splits sum.splits
      intro: balanced_connect balanced_trans [OF balanced_connect balanced_free_members])

lemma balanced_move_assign:
  "conn_move_assign d False residue a b s = (a', b', s') \<Longrightarrow>
   balanced s (owned a + owned b + own) s' (owned a' + owned b' + own)"
  by (rule balanced_calls [where cs = "(if live a then [SessionClose (the (conn_session a))] else []) @
       (case conn_cluster a of None \<Rightarrow> [] | Some x \<Rightarrow> [ClusterFree x]) @
       (case conn_session a of None \<Rightarrow> [] | Some x \<Rightarrow> [SessionFree x])"])
    (auto simp: conn_move_assign_def conn_move_def case_prod_beta io_calls_close owned_def
      split: option.splits)

definition pool_owned :: "scylla_connection list \<Rightarrow> cass_call multiset" where
  "pool_owned cs = sum_mset (image_mset owned (mset cs))"

lemma pool_step_balanced:
  "pool_step d (cs, s) (cs', s') \<Longrightarrow> balanced s (pool_owned cs) s' (pool_owned cs')"
proof (induction "(cs, s)" "(cs', s')" arbitrary: cs s cs' s' rule: pool_step.induct)
  case (pool_new cfg s c s' cs)
  then show ?case
    using balanced_new [of d cfg s "Inr c" s' "pool_owned cs"]
    by (simp add: pool_owned_def add.commute)
next
  case (pool_new_throws cfg s e s' cs)
  then show ?case using balanced_new [of d cfg s "Inl e" s' "pool_owned cs"] by simp
next
  case (pool_destroy cs c cs' s)
  then show ?case
    using balanced_destroy [of s c "pool_owned (cs @ cs')" d]
    by (simp add: pool_owned_def add.left_commute)
next
  case (pool_move residue c c' old cs cs' s)
  then show ?case by (auto simp: conn_move_def pool_owned_def)
next
  case (pool_move_assign residue a b s a' b' s' cs R cs')
  then show ?case
    using balanced_move_assign [of d residue a b s a' b' s' "sum_mset (image_mset owned R)"]
    by (simp add: pool_owned_def add.assoc)
next
  case (pool_self_assign residue a s a' b' s' cs cs')
  then show ?case by (simp add: conn_move_assign_def)
next
  case (pool_execute c cs q s r s')
  then show ?case by (blast intro: balanced_execute)
next
  case (pool_ping c cs s r s')
  then show ?case by (blast intro: balanced_ping)
qed

lemma pool_run_balanced:
  "(pool_step d)\<^sup>*\<^sup>* (cs, s) (cs', s') \<Longrightarrow> balanced s (pool_owned cs) s' (pool_owned cs')"
proof (induction "(cs, s)" "(cs', s')" arbitrary: cs' s' rule: rtranclp.induct)
  case (rtrancl_into_rtrancl b)
  then show ?case
    by (cases b) (blast intro: balanced_trans pool_step_balanced)
qed simp

text \<open>A concrete driver for the examples of the development: its state counts the calls
  answered so far, new handles are numbered from the counter, connecting succeeds, and the
  answer to a query is a function of the session, the counter and the query.\<close>

definition scripted_driver :: "(nat \<Rightarrow> nat \<Rightarrow> string \<Rightarrow> string option) \<Rightarrow> nat driver" where
  "scripted_driver answer =
     \<lparr>cass_cluster_new = (\<lambda>w. (Some w, Suc w)),
      cass_session_new = (\<lambda>w. (Some w, Suc w)),
      cass_session_connect = (\<lambda>se cl ks w. (None, Suc w)),
      cass_session_execute = (\<lambda>se q w. (answer se w q, Suc w)),
      cass_session_close = (\<lambda>se w. Suc w)\<rparr>"

definition example_connection :: "nat \<Rightarrow> scylla_connection" where
  "example_connection h =
     \<lparr>conn_config = default_database_config, conn_cluster = Some h, conn_session = Some h,
      conn_connected = True\<rparr>"

definition io_start :: "nat io" where
  "io_start = \<lparr>io_world = 0, io_calls = []\<rparr>"

section \<open>Properties\<close>

text \<open>C13. No driver handle leaks and none is freed twice: whatever a program does with its
  connections from the start (constructing them, with constructors that throw halfway,
  destroying, moving and move-assigning them, running queries), the clusters and sessions
  allocated so far are exactly those freed so far together with those that live connection
  objects still own. Once every connection is destroyed the two are equal.\<close>

theorem no_handle_leak:
  assumes "(pool_step d)\<^sup>*\<^sup>* ([], s) (cs, s')" "io_calls s = []"
  shows "owed s' = freed s' + pool_owned cs \<and> (cs = [] \<longrightarrow> owed s' = freed s')"
proof -
  have "owed s = {#}" "freed s = {#}"
    using assms(2) by (simp_all add: owed_def freed_def)
  then have "owed s' = freed s' + pool_owned cs"
    using pool_run_balanced [OF assms(1)] by (simp add: balanced_def pool_owned_def)
  then show ?thesis by (simp add: pool_owned_def)
qed

theorem no_handle_leak_witness:
  "let (c, s) = conn_new (scripted_driver (\<lambda>_ _ _. None)) default_database_config io_start
   in case c of Inr c \<Rightarrow>
        owed (conn_destroy (scripted_driver (\<lambda>_ _ _. None)) c s) = freed (conn_destroy (scripted_driver (\<lambda>_ _ _. None)) c s)
      | Inl _ \<Rightarrow> False"
proof -
  let ?d = "scripted_driver (\<lambda>_ _ _. None)"
  obtain c s where new: "conn_new ?d default_database_config io_start = (Inr c, s)"
    by (auto simp: conn_new_def conn_connect_def scripted_driver_def io_start_def Let_def)
  have "pool_step ?d ([], io_start) ([] @ [c], s)"
    using new by (rule pool_new)
  moreover have "pool_step ?d ([] @ c # [], s) ([] @ [], conn_destroy ?d c s)"
    by (rule pool_destroy)
  ultimately have "(pool_step ?d)\<^sup>*\<^sup>* ([], io_start) ([], conn_destroy ?d c s)"
    by (simp add: converse_rtranclp_into_rtranclp)
  then show ?thesis
    using no_handle_leak [of ?d io_start "[]" "conn_destroy ?d c s"] new
    by (simp add: io_start_def pool_owned_def)
qed

end
