(* ===== verification/Filter_Governor.thy ===== *)
theory Filter_Governor
  imports Svckit_Types
begin

text \<open>
  The interface \<open>FilterGovernorBase\<close> of \<open>svckit/include/svckit/filter_governor.hpp\<close>,
  which the governors of the three services implement, as a locale, and the table pattern
  language that the two blacklist governors share.

  A governor's methods are \<open>const\<close> up to atomic counters, so an operation returns its
  decision and the governor with its counters updated. Readers hold a shared lock and
  \<open>reload_config\<close> an exclusive one, so the operations of several threads take effect one
  after the other: a sequence of \<open>gov_op\<close> is one such order.
\<close>

section \<open>Definitions\<close>

text \<open>Sequences of operations on a governor, in the order in which they take effect.\<close>

datatype gov_op = AskTable string | AskTenant string | ReloadConfig

fun gov_run ::
  "(string \<Rightarrow> 'g \<Rightarrow> 'd \<times> 'g) \<Rightarrow> (string \<Rightarrow> 'g \<Rightarrow> 'd \<times> 'g) \<Rightarrow> ('g \<Rightarrow> 'g) \<Rightarrow> gov_op list \<Rightarrow> 'g \<Rightarrow> 'g"
  where
  "gov_run ask_table ask_tenant reload [] g = g"
| "gov_run ask_table ask_tenant reload (AskTable t # ops) g =
     gov_run ask_table ask_tenant reload ops (snd (ask_table t g))"
| "gov_run ask_table ask_tenant reload (AskTenant t # ops) g =
     gov_run ask_table ask_tenant reload ops (snd (ask_tenant t g))"
| "gov_run ask_table ask_tenant reload (ReloadConfig # ops) g =
     gov_run ask_table ask_tenant reload ops (reload g)"

text \<open>The wildcard test of the loop over the blacklist: \<open>"*.suffix"\<close> against what
  follows the last dot of the table name.\<close>

definition wildcard_matches :: "string \<Rightarrow> string \<Rightarrow> bool" where
  "wildcard_matches pattern table =
     (2 \<le> length pattern \<and> pattern ! 0 = CHR ''*'' \<and> pattern ! 1 = CHR ''.'' \<and>
      (case rfind_char CHR ''.'' table of
         None \<Rightarrow> False
       | Some dot_pos \<Rightarrow> drop (Suc dot_pos) table = drop 2 pattern))"

text \<open>What the patterns mean: a table is blacklisted by name, or by a pattern
  \<open>*.suffix\<close> where the name is some keyspace, a dot and that suffix.\<close>

definition table_blacklisted :: "string set \<Rightarrow> string \<Rightarrow> bool" where
  "table_blacklisted rules t \<longleftrightarrow>
     t \<in> rules \<or>
     (\<exists>keyspace suffix. ''*.'' @ suffix \<in> rules \<and> t = keyspace @ ''.'' @ suffix \<and>
        CHR ''.'' \<notin> set suffix)"

section \<open>The interface\<close>

locale filter_governor =
  fixes should_skip_table :: "string \<Rightarrow> 'g \<Rightarrow> filter_decision \<times> 'g"
    and check_tenant_id :: "string \<Rightarrow> 'g \<Rightarrow> filter_decision \<times> 'g"
    and is_enabled :: "'g \<Rightarrow> bool"
    and reload_config :: "'g \<Rightarrow> 'g"
    and rules :: "'g \<Rightarrow> 'r"
    and invar :: "'g \<Rightarrow> bool"
  assumes rules_table: "rules (snd (should_skip_table t g)) = rules g"
    and rules_tenant: "rules (snd (check_tenant_id t g)) = rules g"
    and rules_reload: "invar g \<Longrightarrow> rules (reload_config g) = rules g"
    and invar_table: "invar g \<Longrightarrow> invar (snd (should_skip_table t g))"
    and invar_tenant: "invar g \<Longrightarrow> invar (snd (check_tenant_id t g))"
    and invar_reload: "invar g \<Longrightarrow> invar (reload_config g)"
    and table_by_rules:
      "rules g = rules g' \<Longrightarrow> fst (should_skip_table t g) = fst (should_skip_table t g')"
    and tenant_by_rules:
      "rules g = rules g' \<Longrightarrow> fst (check_tenant_id t g) = fst (check_tenant_id t g')"
    and enabled_by_rules: "rules g = rules g' \<Longrightarrow> is_enabled g = is_enabled g'"
begin

text \<open>No sequence of operations changes a later decision.\<close>

lemma run_keeps:
  "invar g \<Longrightarrow>
   invar (gov_run should_skip_table check_tenant_id reload_config ops g) \<and>
   rules (gov_run should_skip_table check_tenant_id reload_config ops g) = rules g"
proof (induction ops arbitrary: g)
  case (Cons op ops)
  then show ?case
    by (cases op) (simp_all add: invar_table invar_tenant invar_reload
        rules_table rules_tenant rules_reload)
qed simp

lemma table_stable:
  "invar g \<Longrightarrow>
   fst (should_skip_table t (gov_run should_skip_table check_tenant_id reload_config ops g)) =
   fst (should_skip_table t g)"
  using run_keeps table_by_rules by blast

lemma tenant_stable:
  "invar g \<Longrightarrow>
   fst (check_tenant_id t (gov_run should_skip_table check_tenant_id reload_config ops g)) =
   fst (check_tenant_id t g)"
  using run_keeps tenant_by_rules by blast

lemma enabled_stable:
  "invar g \<Longrightarrow>
   is_enabled (gov_run should_skip_table check_tenant_id reload_config ops g) = is_enabled g"
  using run_keeps enabled_by_rules by blast

end

section \<open>Lemmas\<close>

lemma wildcard_matches_iff:
  "wildcard_matches p t \<longleftrightarrow>
     (\<exists>keyspace suffix. p = ''*.'' @ suffix \<and> t = keyspace @ ''.'' @ suffix \<and>
        CHR ''.'' \<notin> set suffix)"
proof
  assume m: "wildcard_matches p t"
  then obtain i where i: "rfind_char CHR ''.'' t = Some i" "drop (Suc i) t = drop 2 p"
    by (auto simp: wildcard_matches_def split: option.splits)
  have p: "p = ''*.'' @ drop 2 p"
    using m by (cases p; cases "tl p") (auto simp: wildcard_matches_def)
  have "t = take i t @ ''.'' @ drop 2 p" "CHR ''.'' \<notin> set (drop 2 p)"
    using rfind_char_SomeD [OF i(1)] i(2) by simp_all
  with p show "\<exists>keyspace suffix. p = ''*.'' @ suffix \<and> t = keyspace @ ''.'' @ suffix \<and>
      CHR ''.'' \<notin> set suffix"
    by blast
next
  assume "\<exists>keyspace suffix. p = ''*.'' @ suffix \<and> t = keyspace @ ''.'' @ suffix \<and>
      CHR ''.'' \<notin> set suffix"
  then show "wildcard_matches p t"
    by (auto simp: wildcard_matches_def)
qed

lemma table_blacklisted_code [code]:
  "table_blacklisted (set ps) t \<longleftrightarrow> t \<in> set ps \<or> (\<exists>p \<in> set ps. wildcard_matches p t)"
  by (auto simp: table_blacklisted_def wildcard_matches_iff)

section \<open>The blacklist governors\<close>

text \<open>
  The contract the dual writer's and the loader's governor share beyond the interface: how
  a table decision is computed from the blacklist. What the blacklist means is proved once.
\<close>

locale blacklist_governor =
  filter_governor should_skip_table check_tenant_id is_enabled reload_config rules invar
  for should_skip_table :: "string \<Rightarrow> 'g \<Rightarrow> filter_decision \<times> 'g"
    and check_tenant_id :: "string \<Rightarrow> 'g \<Rightarrow> filter_decision \<times> 'g"
    and is_enabled :: "'g \<Rightarrow> bool"
    and reload_config :: "'g \<Rightarrow> 'g"
    and rules :: "'g \<Rightarrow> 'r"
    and invar :: "'g \<Rightarrow> bool" +
  fixes tables :: "'g \<Rightarrow> string list"
    and tenants :: "'g \<Rightarrow> string list"
    and count_skip :: "'g \<Rightarrow> 'g"
  assumes skip_code: "should_skip_table t g =
      (if t \<in> set (tables g) then (SkipTable, count_skip g)
       else if list_ex (\<lambda>p. wildcard_matches p t) (tables g) then (SkipTable, count_skip g)
       else (Allow, g))"
    and enabled_code: "is_enabled g \<longleftrightarrow> tenants g \<noteq> [] \<or> tables g \<noteq> []"
    and tables_by_rules: "rules g = rules g' \<Longrightarrow> tables g = tables g'"
begin

lemma decides:
  "should_skip_table t g =
     (if table_blacklisted (set (tables g)) t then (SkipTable, count_skip g) else (Allow, g))"
  by (auto simp: skip_code table_blacklisted_code list_ex_iff)

lemma not_enabled: "\<not> is_enabled g \<Longrightarrow> should_skip_table t g = (Allow, g)"
  by (simp add: enabled_code skip_code)

lemma run_tables:
  "invar g \<Longrightarrow> tables (gov_run should_skip_table check_tenant_id reload_config ops g) = tables g"
  using run_keeps tables_by_rules by blast

end

end
