(* ===== verification/Dual_Writer_Filter.thy ===== *)
theory Dual_Writer_Filter
  imports Filter_Governor
begin

text \<open>
  \<open>BlacklistFilterGovernor\<close> of the dual writer
  (\<open>include/dual_writer/filter.hpp\<close>, \<open>src/filter.cpp\<close>): exact and wildcard table
  blacklist, tenant blacklist, atomic statistics, reload from the retained configuration.
\<close>

section \<open>Definitions\<close>

record dw_filter_config =
  dw_cfg_tenant_blacklist :: "string list"
  dw_cfg_table_blacklist :: "string list"
  dw_cfg_tenant_id_columns :: "string list"

record dw_filter_stats =
  dw_tables_skipped :: u64
  dw_tenants_skipped :: u64
  dw_rows_allowed :: u64

record dw_governor =
  dw_table_blacklist :: "string list"
  dw_tenant_blacklist :: "string list"
  dw_tenant_id_columns :: "string list"
  dw_gov_config :: dw_filter_config
  dw_gov_stats :: dw_filter_stats

definition dw_governor_new :: "dw_filter_config \<Rightarrow> dw_governor" where
  "dw_governor_new cfg =
     \<lparr>dw_table_blacklist = uset_of (dw_cfg_table_blacklist cfg),
      dw_tenant_blacklist = uset_of (dw_cfg_tenant_blacklist cfg),
      dw_tenant_id_columns = dw_cfg_tenant_id_columns cfg,
      dw_gov_config = cfg,
      dw_gov_stats = \<lparr>dw_tables_skipped = 0, dw_tenants_skipped = 0, dw_rows_allowed = 0\<rparr>\<rparr>"

definition dw_count_table_skip :: "dw_governor \<Rightarrow> dw_governor" where
  "dw_count_table_skip g =
     g\<lparr>dw_gov_stats := (dw_gov_stats g)\<lparr>dw_tables_skipped := dw_tables_skipped (dw_gov_stats g) + 1\<rparr>\<rparr>"

definition dw_should_skip_table :: "string \<Rightarrow> dw_governor \<Rightarrow> filter_decision \<times> dw_governor" where
  "dw_should_skip_table table g =
     (if table \<in> set (dw_table_blacklist g) then (SkipTable, dw_count_table_skip g)
      else if list_ex (\<lambda>pattern. wildcard_matches pattern table) (dw_table_blacklist g)
      then (SkipTable, dw_count_table_skip g)
      else (Allow, g))"

definition dw_check_tenant_id :: "string \<Rightarrow> dw_governor \<Rightarrow> filter_decision \<times> dw_governor" where
  "dw_check_tenant_id tenant g =
     (let st = dw_gov_stats g in
      if tenant \<in> set (dw_tenant_blacklist g)
      then (SkipTenant, g\<lparr>dw_gov_stats := st\<lparr>dw_tenants_skipped := dw_tenants_skipped st + 1\<rparr>\<rparr>)
      else (Allow, g\<lparr>dw_gov_stats := st\<lparr>dw_rows_allowed := dw_rows_allowed st + 1\<rparr>\<rparr>))"

definition dw_is_enabled :: "dw_governor \<Rightarrow> bool" where
  "dw_is_enabled g = (dw_tenant_blacklist g \<noteq> [] \<or> dw_table_blacklist g \<noteq> [])"

definition dw_reload_config :: "dw_governor \<Rightarrow> dw_governor" where
  "dw_reload_config g =
     g\<lparr>dw_table_blacklist := uset_of (dw_cfg_table_blacklist (dw_gov_config g)),
       dw_tenant_blacklist := uset_of (dw_cfg_tenant_blacklist (dw_gov_config g)),
       dw_tenant_id_columns := dw_cfg_tenant_id_columns (dw_gov_config g)\<rparr>"

subsection \<open>Rules and invariant\<close>

definition dw_rules :: "dw_governor \<Rightarrow> string list \<times> string list \<times> string list" where
  "dw_rules g = (dw_table_blacklist g, dw_tenant_blacklist g, dw_tenant_id_columns g)"

text \<open>The sets and columns are those of the retained configuration.\<close>

definition dw_governor_inv :: "dw_governor \<Rightarrow> bool" where
  "dw_governor_inv g \<longleftrightarrow>
     dw_rules g =
       (uset_of (dw_cfg_table_blacklist (dw_gov_config g)),
        uset_of (dw_cfg_tenant_blacklist (dw_gov_config g)),
        dw_cfg_tenant_id_columns (dw_gov_config g))"

text \<open>A governor after a sequence of operations.\<close>

definition dw_governor_run :: "gov_op list \<Rightarrow> dw_governor \<Rightarrow> dw_governor" where
  "dw_governor_run = gov_run dw_should_skip_table dw_check_tenant_id dw_reload_config"

section \<open>Lemmas\<close>

lemma dw_governor_inv_new: "dw_governor_inv (dw_governor_new cfg)"
  by (simp add: dw_governor_inv_def dw_rules_def dw_governor_new_def)

lemma dw_count_table_skip_simps [simp]:
  "dw_table_blacklist (dw_count_table_skip g) = dw_table_blacklist g"
  "dw_tenant_blacklist (dw_count_table_skip g) = dw_tenant_blacklist g"
  "dw_tenant_id_columns (dw_count_table_skip g) = dw_tenant_id_columns g"
  "dw_gov_config (dw_count_table_skip g) = dw_gov_config g"
  by (simp_all add: dw_count_table_skip_def)

lemma dw_should_skip_table_frame [frame_simps]:
  "dw_table_blacklist (snd (dw_should_skip_table t g)) = dw_table_blacklist g"
  "dw_tenant_blacklist (snd (dw_should_skip_table t g)) = dw_tenant_blacklist g"
  "dw_tenant_id_columns (snd (dw_should_skip_table t g)) = dw_tenant_id_columns g"
  "dw_gov_config (snd (dw_should_skip_table t g)) = dw_gov_config g"
  by (simp_all add: dw_should_skip_table_def)

lemma dw_check_tenant_id_frame [frame_simps]:
  "dw_table_blacklist (snd (dw_check_tenant_id t g)) = dw_table_blacklist g"
  "dw_tenant_blacklist (snd (dw_check_tenant_id t g)) = dw_tenant_blacklist g"
  "dw_tenant_id_columns (snd (dw_check_tenant_id t g)) = dw_tenant_id_columns g"
  "dw_gov_config (snd (dw_check_tenant_id t g)) = dw_gov_config g"
  by (simp_all add: dw_check_tenant_id_def Let_def)

lemma dw_reload_config_id: "dw_governor_inv g \<Longrightarrow> dw_reload_config g = g"
  by (simp add: dw_reload_config_def dw_governor_inv_def dw_rules_def)

interpretation dw_gov: blacklist_governor dw_should_skip_table dw_check_tenant_id dw_is_enabled
    dw_reload_config dw_rules dw_governor_inv dw_table_blacklist dw_tenant_blacklist
    dw_count_table_skip
proof unfold_locales
  fix t g
  show "dw_rules (snd (dw_should_skip_table t g)) = dw_rules g"
    and "dw_rules (snd (dw_check_tenant_id t g)) = dw_rules g"
    by (simp_all add: dw_rules_def frame_simps)
  show "dw_governor_inv g \<Longrightarrow> dw_rules (dw_reload_config g) = dw_rules g"
    and "dw_governor_inv g \<Longrightarrow> dw_governor_inv (dw_reload_config g)"
    by (simp_all add: dw_reload_config_id)
  show "dw_governor_inv g \<Longrightarrow> dw_governor_inv (snd (dw_should_skip_table t g))"
    and "dw_governor_inv g \<Longrightarrow> dw_governor_inv (snd (dw_check_tenant_id t g))"
    by (simp_all add: dw_governor_inv_def dw_rules_def frame_simps)
next
  fix g g' t
  assume "dw_rules g = dw_rules g'"
  then show "fst (dw_should_skip_table t g) = fst (dw_should_skip_table t g')"
    and "fst (dw_check_tenant_id t g) = fst (dw_check_tenant_id t g')"
    and "dw_is_enabled g = dw_is_enabled g'"
    by (simp_all add: dw_rules_def dw_should_skip_table_def dw_check_tenant_id_def
        dw_is_enabled_def Let_def)
  show "dw_table_blacklist g = dw_table_blacklist g'"
    using \<open>dw_rules g = dw_rules g'\<close> by (simp add: dw_rules_def)
qed (simp_all add: dw_should_skip_table_def dw_is_enabled_def)

lemma dw_governor_run_table_blacklist [simp]:
  "dw_table_blacklist (dw_governor_run ops (dw_governor_new cfg)) =
     uset_of (dw_cfg_table_blacklist cfg)"
  unfolding dw_governor_run_def dw_gov.run_tables [OF dw_governor_inv_new]
  by (simp add: dw_governor_new_def)

section \<open>Decisions\<close>

text \<open>However many decisions and reloads came before, the governor built from a
  configuration skips a table exactly when the configured blacklist names it or has a
  pattern \<open>*.suffix\<close> for it, and counts every skip and nothing else.\<close>

lemma dw_should_skip_table_spec:
  "dw_should_skip_table t (dw_governor_run ops (dw_governor_new cfg)) =
     (let g = dw_governor_run ops (dw_governor_new cfg) in
      if table_blacklisted (set (dw_cfg_table_blacklist cfg)) t
      then (SkipTable, g\<lparr>dw_gov_stats := (dw_gov_stats g)\<lparr>dw_tables_skipped :=
              dw_tables_skipped (dw_gov_stats g) + 1\<rparr>\<rparr>)
      else (Allow, g))"
  by (simp add: dw_gov.decides Let_def dw_count_table_skip_def)

text \<open>The periodic \<open>reload_config\<close> is a no-op: it rebuilds the rules from the copy
  of the configuration taken at construction, so no later edit of the rules file can change
  a decision.\<close>

lemma dw_reload_config_noop:
  "dw_reload_config (dw_governor_run ops (dw_governor_new cfg)) =
   dw_governor_run ops (dw_governor_new cfg)"
proof (rule dw_reload_config_id)
  show "dw_governor_inv (dw_governor_run ops (dw_governor_new cfg))"
    unfolding dw_governor_run_def using dw_gov.run_keeps [OF dw_governor_inv_new] by blast
qed

end
