(* ===== verification/Dual_Writer_Config.thy ===== *)
theory Dual_Writer_Config
  imports Svckit_Config Dual_Writer_Filter
begin

text \<open>
  \<open>DualWriterConfig\<close> of the dual writer (\<open>include/dual_writer/config.hpp\<close>,
  \<open>src/config.cpp\<close>): the sections of the YAML file, their defaults, and the credentials
  that the environment overrides.
\<close>

section \<open>Definitions\<close>

record writer_config =
  max_concurrent_writes :: u32
  write_timeout_ms :: u32
  max_retries :: u32
  retry_delay_ms :: u64
  skip_on_error :: bool
  failed_rows_file :: string

definition default_writer_config :: writer_config where
  "default_writer_config =
     \<lparr>max_concurrent_writes = 32, write_timeout_ms = 10000, max_retries = 3,
      retry_delay_ms = 500, skip_on_error = False, failed_rows_file = ''failed_rows.jsonl''\<rparr>"

text \<open>\<open>retry_interval_secs\<close> is multiplied in 64 bits. The \<open>mode\<close> key is read and dropped.\<close>

definition parse_writer_config :: "'n yaml_api \<Rightarrow> 'n \<Rightarrow> writer_config" where
  "parse_writer_config y n =
     (let c = default_writer_config in
      if \<not> y_defined y n \<or> \<not> y_is_map y n then c
      else
        \<lparr>max_concurrent_writes =
           y_field y (y_u32 y) n ''batch_size'' 100 (max_concurrent_writes c),
         write_timeout_ms =
           y_field y (y_u32 y) n ''shadow_timeout_ms'' 10000 (write_timeout_ms c),
         max_retries = y_field y (y_u32 y) n ''max_retry_attempts'' 3 (max_retries c),
         retry_delay_ms =
           (if y_defined y (y_child y n ''retry_interval_secs'')
            then (case y_u64 y (y_child y n ''retry_interval_secs'') of
                    Some v \<Rightarrow> v | None \<Rightarrow> 60) * 1000
            else retry_delay_ms c),
         skip_on_error = y_field y (y_bool y) n ''skip_on_error'' False (skip_on_error c),
         failed_rows_file =
           y_field y (y_string y) n ''failed_rows_file'' ''failed_rows.jsonl''
             (failed_rows_file c)\<rparr>)"

definition default_dw_filter_config :: dw_filter_config where
  "default_dw_filter_config =
     \<lparr>dw_cfg_tenant_blacklist = [], dw_cfg_table_blacklist = [], dw_cfg_tenant_id_columns = []\<rparr>"

definition dw_parse_filter_config :: "'n yaml_api \<Rightarrow> 'n \<Rightarrow> dw_filter_config option" where
  "dw_parse_filter_config y n =
     (if \<not> y_defined y n \<or> \<not> y_is_map y n then Some default_dw_filter_config
      else
        case y_string_list y n ''tenant_blacklist'' of None \<Rightarrow> None | Some tenants \<Rightarrow>
        case y_string_list y n ''table_blacklist'' of None \<Rightarrow> None | Some tables \<Rightarrow>
        case y_string_list y n ''tenant_id_columns'' of None \<Rightarrow> None | Some cols \<Rightarrow>
        Some \<lparr>dw_cfg_tenant_blacklist = tenants, dw_cfg_table_blacklist = tables,
              dw_cfg_tenant_id_columns = cols\<rparr>)"

record dual_writer_config =
  dwc_source :: database_config
  dwc_target :: database_config
  dwc_writer :: writer_config
  dwc_filter :: dw_filter_config
  dwc_observability :: observability_config

text \<open>\<open>DualWriterConfig::from_yaml\<close>. \<^term>\<open>LoadYaml\<close> is a \<open>YAML::Exception\<close> that
  escapes: the handler of \<open>load_yaml_root\<close> covers the reading of the file only.\<close>

definition dual_writer_from_yaml ::
  "'n host_env \<Rightarrow> 'n yaml_api \<Rightarrow> string \<Rightarrow> load_error + dual_writer_config" where
  "dual_writer_from_yaml h y path =
     (case load_yaml_root h y path of
        Inl e \<Rightarrow> Inl (LoadSync e)
      | Inr doc \<Rightarrow>
          if y_is_scalar y doc then Inl LoadYaml
          else
            case parse_database_config y (y_child y doc ''source'') of
              None \<Rightarrow> Inl LoadYaml | Some source \<Rightarrow>
            case parse_database_config y (y_child y doc ''target'') of
              None \<Rightarrow> Inl LoadYaml | Some target \<Rightarrow>
            let wr = parse_writer_config y (y_child y doc ''writer'') in
            case parse_observability_config y (y_child y doc ''observability'') of
              None \<Rightarrow> Inl LoadYaml | Some obs \<Rightarrow>
            case (if y_defined y (y_child y doc ''filters'')
                  then dw_parse_filter_config y (y_child y doc ''filters'')
                  else Some default_dw_filter_config) of
              None \<Rightarrow> Inl LoadYaml | Some flt \<Rightarrow>
            Inr \<lparr>dwc_source = env_credentials h ''DUAL_WRITER_SOURCE'' source,
                 dwc_target = env_credentials h ''DUAL_WRITER_TARGET'' target,
                 dwc_writer = wr, dwc_filter = flt, dwc_observability = obs\<rparr>)"

text \<open>\<open>load_filter_config\<close>, the loader of a separate rules file.\<close>

definition dw_load_filter_config ::
  "'n host_env \<Rightarrow> 'n yaml_api \<Rightarrow> string \<Rightarrow> load_error + dw_filter_config" where
  "dw_load_filter_config h y path =
     (case load_yaml_root h y path of
        Inl e \<Rightarrow> Inl (LoadSync e)
      | Inr doc \<Rightarrow>
          if y_is_scalar y doc then Inl LoadYaml
          else if y_defined y (y_child y doc ''filters'')
          then (case dw_parse_filter_config y (y_child y doc ''filters'') of
                  None \<Rightarrow> Inl LoadYaml | Some c \<Rightarrow> Inr c)
          else Inr default_dw_filter_config)"

section \<open>Lemmas\<close>

lemma parse_writer_config_missing:
  "\<not> y_defined y n \<Longrightarrow> parse_writer_config y n = default_writer_config"
  by (simp add: parse_writer_config_def Let_def)

lemma env_credentials_user:
  "getenv h (prefix @ ''_USERNAME'') = Some u \<Longrightarrow> db_username (env_credentials h prefix c) = Some u"
  "getenv h (prefix @ ''_PASSWORD'') = Some p \<Longrightarrow> db_password (env_credentials h prefix c) = Some p"
  by (simp_all add: env_credentials_def env_override_def)

end
