(* ===== verification/Dual_Writer.thy ===== *)
theory Dual_Writer
  imports Svckit_Database Dual_Writer_Config
begin

text \<open>
  \<open>DualWriter\<close> (\<open>services/dual-writer/include/dual_writer/writer.hpp\<close>, \<open>src/writer.cpp\<close>):
  the write path, the queue of failed shadow writes, the counters and the health check. The
  background retry loop is in \<open>Dual_Writer_Retry\<close>.

  The random numbers, the clock readings and the floating-point rounding that one call uses
  are its \<open>call_env\<close> argument. The constructor dereferences both connections, so they are
  plain records here; the filter and the metrics may be null. Logging is left out.
\<close>

section \<open>Definitions\<close>

subsection \<open>Data\<close>

datatype write_mode = WM_SourceOnly | WM_DualAsync | WM_DualSync | WM_TargetOnly

fun write_mode_to_string :: "write_mode \<Rightarrow> string" where
  "write_mode_to_string WM_SourceOnly = ''source_only''"
| "write_mode_to_string WM_DualAsync = ''dual_async''"
| "write_mode_to_string WM_DualSync = ''dual_sync''"
| "write_mode_to_string WM_TargetOnly = ''target_only''"

record write_result =
  source_ok :: bool
  target_ok :: bool
  error_message :: string
  latency_ms :: real

definition new_write_result :: write_result where
  "new_write_result =
     \<lparr>source_ok = False, target_ok = False, error_message = [], latency_ms = 0\<rparr>"

definition fully_successful :: "write_result \<Rightarrow> bool" where
  "fully_successful r = (source_ok r \<and> target_ok r)"

record failed_write =
  fw_id :: string
  fw_cql :: string
  fw_keyspace :: string
  fw_error :: string
  fw_attempts :: u32
  fw_first_attempt :: nat

record writer_stats =
  total_writes :: u64
  successful_writes :: u64
  failed_writes :: u64
  retried_writes :: u64
  filtered_writes :: u64
  abandoned_writes :: u64

record writer_stats_snapshot = writer_stats +
  pending_retries :: u64

record dual_writer =
  dw_config :: dual_writer_config
  dw_source :: scylla_connection
  dw_target :: scylla_connection
  dw_filter :: "dw_governor option"
  dw_metrics :: "metrics_registry option"
  dw_failed :: "(string \<times> failed_write) list"
  dw_stats :: writer_stats

record call_env =
  env_hi :: u64
  env_lo :: u64
  env_now :: nat
  env_elapsed_us :: int
  env_round :: "real \<Rightarrow> real"

subsection \<open>Identifiers\<close>

definition generate_id :: "u64 \<Rightarrow> u64 \<Rightarrow> string" where
  "generate_id hi lo =
     hex_digits 8 (unat (ucast (drop_bit 32 hi) :: u32)) @ ''-'' @
     hex_digits 4 (unat (ucast (drop_bit 16 hi) :: u16)) @ ''-'' @
     hex_digits 4 (unat (ucast ((hi AND 0xFFFF) OR 0x4000) :: u16)) @ ''-'' @
     hex_digits 4 (unat (ucast (drop_bit 48 lo OR 0x8000) :: u16)) @ ''-'' @
     hex_digits 12 (unat (lo AND 0xFFFFFFFFFFFF))"

subsection \<open>Construction\<close>

definition new_writer_stats :: writer_stats where
  "new_writer_stats =
     \<lparr>total_writes = 0, successful_writes = 0, failed_writes = 0, retried_writes = 0,
      filtered_writes = 0, abandoned_writes = 0\<rparr>"

definition dual_writer_new ::
  "dual_writer_config \<Rightarrow> scylla_connection \<Rightarrow> scylla_connection \<Rightarrow> dw_governor option
   \<Rightarrow> metrics_registry option \<Rightarrow> dual_writer" where
  "dual_writer_new cfg src tgt flt mtr =
     \<lparr>dw_config = cfg, dw_source = src, dw_target = tgt, dw_filter = flt, dw_metrics = mtr,
      dw_failed = [], dw_stats = new_writer_stats\<rparr>"

subsection \<open>The filter gate and the counters\<close>

text \<open>\<open>filter_ && filter_->is_enabled() && filter_->should_skip_table(keyspace) == SkipTable\<close>,
  the test that \<open>write\<close>, \<open>write_dual_sync\<close> and the retry loop make.\<close>

definition filter_gate :: "string \<Rightarrow> dual_writer \<Rightarrow> bool \<times> dual_writer" where
  "filter_gate keyspace w =
     (case dw_filter w of
        None \<Rightarrow> (False, w)
      | Some g \<Rightarrow>
          if \<not> dw_is_enabled g then (False, w)
          else
            let (decision, g') = dw_should_skip_table keyspace g
            in (decision = SkipTable, w\<lparr>dw_filter := Some g'\<rparr>))"

text \<open>The \<open>fetch_add(1)\<close> of the atomic counters.\<close>

definition count_total :: "dual_writer \<Rightarrow> dual_writer" where
  "count_total w = w\<lparr>dw_stats := (dw_stats w)\<lparr>total_writes := total_writes (dw_stats w) + 1\<rparr>\<rparr>"

definition count_filtered :: "dual_writer \<Rightarrow> dual_writer" where
  "count_filtered w =
     w\<lparr>dw_stats := (dw_stats w)\<lparr>filtered_writes := filtered_writes (dw_stats w) + 1\<rparr>\<rparr>"

definition count_result :: "bool \<Rightarrow> dual_writer \<Rightarrow> dual_writer" where
  "count_result ok w =
     (if ok
      then w\<lparr>dw_stats := (dw_stats w)\<lparr>successful_writes := successful_writes (dw_stats w) + 1\<rparr>\<rparr>
      else w\<lparr>dw_stats := (dw_stats w)\<lparr>failed_writes := failed_writes (dw_stats w) + 1\<rparr>\<rparr>)"

definition count_metrics :: "string \<Rightarrow> bool \<Rightarrow> real \<Rightarrow> dual_writer \<Rightarrow> dual_writer" where
  "count_metrics keyspace ok secs w =
     w\<lparr>dw_metrics := map_option (record_operation ''write'' keyspace ok secs) (dw_metrics w)\<rparr>"

subsection \<open>The write modes\<close>

definition write_source_only ::
  "'w driver \<Rightarrow> string \<Rightarrow> dual_writer \<Rightarrow> 'w io \<Rightarrow> write_result \<times> 'w io" where
  "write_source_only d cql w s =
     (case conn_execute d (dw_source w) cql s of
        (Inr _, s') \<Rightarrow> (new_write_result\<lparr>source_ok := True\<rparr>, s')
      | (Inl e, s') \<Rightarrow>
          (new_write_result\<lparr>error_message := ''Source write failed: '' @ what e\<rparr>, s'))"

definition write_target_only ::
  "'w driver \<Rightarrow> string \<Rightarrow> dual_writer \<Rightarrow> 'w io \<Rightarrow> write_result \<times> 'w io" where
  "write_target_only d cql w s =
     (case conn_execute d (dw_target w) cql s of
        (Inr _, s') \<Rightarrow> (new_write_result\<lparr>target_ok := True\<rparr>, s')
      | (Inl e, s') \<Rightarrow>
          (new_write_result\<lparr>error_message := ''Target write failed: '' @ what e\<rparr>, s'))"

definition write_dual_sync ::
  "'w driver \<Rightarrow> string \<Rightarrow> string \<Rightarrow> dual_writer \<Rightarrow> 'w io
   \<Rightarrow> write_result \<times> dual_writer \<times> 'w io" where
  "write_dual_sync d cql keyspace w s =
     (let (skip, w1) = filter_gate keyspace w in
      if skip
      then (let w2 = count_filtered w1; (r, s1) = write_source_only d cql w2 s in (r, w2, s1))
      else
        case conn_execute d (dw_source w1) cql s of
          (Inl e, s1) \<Rightarrow>
            (new_write_result\<lparr>error_message := ''Source write failed: '' @ what e\<rparr>, w1, s1)
        | (Inr _, s1) \<Rightarrow>
            (case conn_execute d (dw_target w1) cql s1 of
               (Inr _, s2) \<Rightarrow> (new_write_result\<lparr>source_ok := True, target_ok := True\<rparr>, w1, s2)
             | (Inl e, s2) \<Rightarrow>
                 (new_write_result\<lparr>source_ok := True,
                    error_message := ''Target write failed: '' @ what e\<rparr>, w1, s2)))"

definition enqueue_failed_write ::
  "call_env \<Rightarrow> string \<Rightarrow> string \<Rightarrow> string \<Rightarrow> dual_writer \<Rightarrow> dual_writer" where
  "enqueue_failed_write env cql keyspace err w =
     (let i = generate_id (env_hi env) (env_lo env);
          fw = \<lparr>fw_id = i, fw_cql = cql, fw_keyspace = keyspace, fw_error = err,
                fw_attempts = 1, fw_first_attempt = env_now env\<rparr>
      in w\<lparr>dw_failed := umap_emplace i fw (dw_failed w)\<rparr>)"

definition write_dual_async ::
  "call_env \<Rightarrow> 'w driver \<Rightarrow> string \<Rightarrow> string \<Rightarrow> dual_writer \<Rightarrow> 'w io
   \<Rightarrow> write_result \<times> dual_writer \<times> 'w io" where
  "write_dual_async env d cql keyspace w s =
     (case conn_execute d (dw_source w) cql s of
        (Inl e, s1) \<Rightarrow>
          (new_write_result\<lparr>error_message := ''Source write failed: '' @ what e\<rparr>, w, s1)
      | (Inr _, s1) \<Rightarrow>
          (case conn_execute d (dw_target w) cql s1 of
             (Inr _, s2) \<Rightarrow> (new_write_result\<lparr>source_ok := True, target_ok := True\<rparr>, w, s2)
           | (Inl e, s2) \<Rightarrow>
               (new_write_result\<lparr>source_ok := True,
                  error_message := ''Target shadow write failed: '' @ what e\<rparr>,
                enqueue_failed_write env cql keyspace (what e) w, s2)))"

subsection \<open>The entry point\<close>

definition elapsed_ms :: "call_env \<Rightarrow> real" where
  "elapsed_ms env = env_round env (env_round env (of_int (env_elapsed_us env)) / 1000)"

definition dual_write ::
  "call_env \<Rightarrow> 'w driver \<Rightarrow> string \<Rightarrow> string \<Rightarrow> dual_writer \<Rightarrow> 'w io
   \<Rightarrow> write_result \<times> dual_writer \<times> 'w io" where
  "dual_write env d cql keyspace w s =
     (let w0 = count_total w; (skip, w1) = filter_gate keyspace w0 in
      if skip
      then
        let w2 = count_filtered w1;
            (r, s1) = write_source_only d cql w2 s;
            w3 = count_result (source_ok r) w2;
            w4 = count_metrics keyspace (source_ok r) 0 w3
        in (r, w4, s1)
      else
        let (r, w2, s1) = write_dual_async env d cql keyspace w1 s;
            r' = r\<lparr>latency_ms := elapsed_ms env\<rparr>;
            w3 = count_result (source_ok r') w2;
            w4 = count_metrics keyspace (fully_successful r')
                   (env_round env (latency_ms r' / 1000)) w3
        in (r', w4, s1))"

subsection \<open>Queries\<close>

definition pending_retry_count :: "dual_writer \<Rightarrow> u64" where
  "pending_retry_count w = of_nat (length (dw_failed w))"

definition get_stats :: "dual_writer \<Rightarrow> writer_stats_snapshot" where
  "get_stats w =
     (let st = dw_stats w in
      \<lparr>total_writes = total_writes st, successful_writes = successful_writes st,
       failed_writes = failed_writes st, retried_writes = retried_writes st,
       filtered_writes = filtered_writes st, abandoned_writes = abandoned_writes st,
       pending_retries = pending_retry_count w\<rparr>)"

definition health_check ::
  "'w driver \<Rightarrow> dual_writer \<Rightarrow> 'w io \<Rightarrow> bool \<times> 'w io" where
  "health_check d w s =
     (let (source_up, s1) = conn_ping d (dw_source w) s;
          (target_up, s2) = conn_ping d (dw_target w) s1
      in (source_up \<and> target_up, s2))"

section \<open>Observations\<close>

text \<open>Whether the writer's rules blacklist a table, by the meaning of the patterns.\<close>

definition blacklists :: "dual_writer \<Rightarrow> string \<Rightarrow> bool" where
  "blacklists w t \<longleftrightarrow>
     (case dw_filter w of None \<Rightarrow> False | Some g \<Rightarrow> table_blacklisted (set (dw_table_blacklist g)) t)"

text \<open>A sequence of client writes, in the order in which they take effect.\<close>

fun write_all ::
  "'w driver \<Rightarrow> (call_env \<times> string \<times> string) list \<Rightarrow> dual_writer \<Rightarrow> 'w io
   \<Rightarrow> dual_writer \<times> 'w io" where
  "write_all d [] w s = (w, s)"
| "write_all d ((env, cql, keyspace) # reqs) w s =
     (let (_, w', s') = dual_write env d cql keyspace w s in write_all d reqs w' s')"

text \<open>The queue entry of a failed shadow write.\<close>

definition queued_write :: "call_env \<Rightarrow> string \<Rightarrow> string \<Rightarrow> string \<Rightarrow> failed_write" where
  "queued_write env cql keyspace err =
     \<lparr>fw_id = generate_id (env_hi env) (env_lo env), fw_cql = cql, fw_keyspace = keyspace,
      fw_error = err, fw_attempts = 1, fw_first_attempt = env_now env\<rparr>"

section \<open>Lemmas\<close>

subsection \<open>The filter gate and the counters\<close>

lemma filter_gate_decides: "fst (filter_gate t w) = blacklists w t"
proof (cases "dw_filter w")
  case (Some g)
  show ?thesis
  proof (cases "dw_is_enabled g")
    case True
    with Some show ?thesis
      by (simp add: filter_gate_def blacklists_def dw_gov.decides)
  next
    case False
    have "\<not> table_blacklisted (set (dw_table_blacklist g)) t"
      using dw_gov.not_enabled [OF False, of t] by (auto simp: dw_gov.decides split: if_splits)
    with Some False show ?thesis by (simp add: filter_gate_def blacklists_def)
  qed
qed (simp add: filter_gate_def blacklists_def)

lemma filter_gate_frame [frame_simps]:
  "dw_config (snd (filter_gate t w)) = dw_config w"
  "dw_source (snd (filter_gate t w)) = dw_source w"
  "dw_target (snd (filter_gate t w)) = dw_target w"
  "dw_metrics (snd (filter_gate t w)) = dw_metrics w"
  "dw_failed (snd (filter_gate t w)) = dw_failed w"
  "dw_stats (snd (filter_gate t w)) = dw_stats w"
  by (simp_all add: filter_gate_def Let_def split: option.splits prod.splits)

lemma blacklists_filter_gate [frame_simps]: "blacklists (snd (filter_gate t w)) u = blacklists w u"
proof (cases "dw_filter w")
  case (Some g)
  then show ?thesis
    by (auto simp: filter_gate_def blacklists_def case_prod_beta dw_should_skip_table_frame)
qed (simp add: filter_gate_def blacklists_def)

lemma count_total_frame [frame_simps]:
  "dw_config (count_total w) = dw_config w" "dw_source (count_total w) = dw_source w"
  "dw_target (count_total w) = dw_target w" "dw_filter (count_total w) = dw_filter w"
  "dw_failed (count_total w) = dw_failed w" "blacklists (count_total w) t = blacklists w t"
  by (simp_all add: count_total_def blacklists_def)

lemma count_filtered_frame [frame_simps]:
  "dw_config (count_filtered w) = dw_config w" "dw_source (count_filtered w) = dw_source w"
  "dw_target (count_filtered w) = dw_target w" "dw_filter (count_filtered w) = dw_filter w"
  "dw_failed (count_filtered w) = dw_failed w" "blacklists (count_filtered w) t = blacklists w t"
  by (simp_all add: count_filtered_def blacklists_def)

lemma count_result_frame [frame_simps]:
  "dw_config (count_result ok w) = dw_config w" "dw_source (count_result ok w) = dw_source w"
  "dw_target (count_result ok w) = dw_target w" "dw_filter (count_result ok w) = dw_filter w"
  "dw_failed (count_result ok w) = dw_failed w" "blacklists (count_result ok w) t = blacklists w t"
  by (simp_all add: count_result_def blacklists_def)

lemma count_metrics_frame [frame_simps]:
  "dw_config (count_metrics k ok x w) = dw_config w" "dw_source (count_metrics k ok x w) = dw_source w"
  "dw_target (count_metrics k ok x w) = dw_target w" "dw_filter (count_metrics k ok x w) = dw_filter w"
  "dw_failed (count_metrics k ok x w) = dw_failed w" "dw_stats (count_metrics k ok x w) = dw_stats w"
  "blacklists (count_metrics k ok x w) t = blacklists w t"
  by (simp_all add: count_metrics_def blacklists_def)

lemma enqueue_frame [frame_simps]:
  "dw_config (enqueue_failed_write env q k e w) = dw_config w"
  "dw_source (enqueue_failed_write env q k e w) = dw_source w"
  "dw_target (enqueue_failed_write env q k e w) = dw_target w"
  "dw_filter (enqueue_failed_write env q k e w) = dw_filter w"
  "dw_stats (enqueue_failed_write env q k e w) = dw_stats w"
  "blacklists (enqueue_failed_write env q k e w) t = blacklists w t"
  by (simp_all add: enqueue_failed_write_def blacklists_def Let_def)

lemma enqueue_failed:
  "dw_failed (enqueue_failed_write env q k e w) =
     umap_emplace (generate_id (env_hi env) (env_lo env)) (queued_write env q k e) (dw_failed w)"
  by (simp add: enqueue_failed_write_def queued_write_def Let_def)

lemma count_stats [simp]:
  "total_writes (dw_stats (count_total w)) = total_writes (dw_stats w) + 1"
  "successful_writes (dw_stats (count_total w)) = successful_writes (dw_stats w)"
  "failed_writes (dw_stats (count_total w)) = failed_writes (dw_stats w)"
  "filtered_writes (dw_stats (count_total w)) = filtered_writes (dw_stats w)"
  "total_writes (dw_stats (count_filtered w)) = total_writes (dw_stats w)"
  "successful_writes (dw_stats (count_filtered w)) = successful_writes (dw_stats w)"
  "failed_writes (dw_stats (count_filtered w)) = failed_writes (dw_stats w)"
  "filtered_writes (dw_stats (count_filtered w)) = filtered_writes (dw_stats w) + 1"
  "total_writes (dw_stats (count_result ok w)) = total_writes (dw_stats w)"
  "filtered_writes (dw_stats (count_result ok w)) = filtered_writes (dw_stats w)"
  "successful_writes (dw_stats (count_result ok w)) =
     successful_writes (dw_stats w) + (if ok then 1 else 0)"
  "failed_writes (dw_stats (count_result ok w)) = failed_writes (dw_stats w) + (if ok then 0 else 1)"
  by (simp_all add: count_total_def count_filtered_def count_result_def)

subsection \<open>The write modes\<close>

lemma write_source_only_simps:
  "source_ok (fst (write_source_only d q w s)) = (\<not> isl (fst (conn_execute d (dw_source w) q s)))"
  "target_ok (fst (write_source_only d q w s)) = False"
  "snd (write_source_only d q w s) = snd (conn_execute d (dw_source w) q s)"
  by (auto simp: write_source_only_def new_write_result_def split: prod.splits sum.splits)

lemma write_dual_async_result:
  assumes "conn_execute d (dw_source w) q s = (a, s1)" "conn_execute d (dw_target w) q s1 = (b, s2)"
  shows "source_ok (fst (write_dual_async env d q k w s)) = (\<not> isl a)"
    and "target_ok (fst (write_dual_async env d q k w s)) = (\<not> isl a \<and> \<not> isl b)"
    and "fst (snd (write_dual_async env d q k w s)) =
      (if \<not> isl a \<and> isl b then enqueue_failed_write env q k (what (projl b)) w else w)"
    and "snd (snd (write_dual_async env d q k w s)) = (if isl a then s1 else s2)"
  using assms by (cases a; cases b; simp add: write_dual_async_def new_write_result_def)+

lemma dual_write_frame [frame_simps]:
  "dw_config (fst (snd (dual_write env d q k w s))) = dw_config w"
  "dw_source (fst (snd (dual_write env d q k w s))) = dw_source w"
  "dw_target (fst (snd (dual_write env d q k w s))) = dw_target w"
  "blacklists (fst (snd (dual_write env d q k w s))) t = blacklists w t"
  by (simp_all add: dual_write_def Let_def case_prod_beta frame_simps write_dual_async_def
      split: sum.splits)

lemma dual_write_history:
  "io_calls (snd (snd (dual_write env d q k w s))) = io_calls s @ exec_calls (dw_source w) q @
     (if source_ok (fst (dual_write env d q k w s)) \<and> \<not> blacklists w k
      then exec_calls (dw_target w) q else [])"
proof -
  obtain a s1 where src: "conn_execute d (dw_source w) q s = (a, s1)" by force
  obtain b s2 where tgt: "conn_execute d (dw_target w) q s1 = (b, s2)" by force
  show ?thesis
    using io_calls_executeD [OF src] io_calls_executeD [OF tgt] src tgt
    by (simp add: dual_write_def Let_def case_prod_beta filter_gate_decides frame_simps
        write_source_only_simps write_dual_async_result)
qed

lemma dual_write_stats:
  "total_writes (dw_stats (fst (snd (dual_write env d q k w s)))) = total_writes (dw_stats w) + 1"
  "successful_writes (dw_stats (fst (snd (dual_write env d q k w s)))) =
     successful_writes (dw_stats w) + (if source_ok (fst (dual_write env d q k w s)) then 1 else 0)"
  "failed_writes (dw_stats (fst (snd (dual_write env d q k w s)))) =
     failed_writes (dw_stats w) + (if source_ok (fst (dual_write env d q k w s)) then 0 else 1)"
  "filtered_writes (dw_stats (fst (snd (dual_write env d q k w s)))) =
     filtered_writes (dw_stats w) + (if blacklists w k then 1 else 0)"
  by (simp_all add: dual_write_def Let_def case_prod_beta frame_simps write_dual_async_def
      filter_gate_decides split: sum.splits)

lemma write_all_stats:
  "write_all d reqs w s = (w', s') \<Longrightarrow>
     total_writes (dw_stats w') = total_writes (dw_stats w) + of_nat (length reqs) \<and>
     successful_writes (dw_stats w') + failed_writes (dw_stats w') =
       successful_writes (dw_stats w) + failed_writes (dw_stats w) + of_nat (length reqs) \<and>
     filtered_writes (dw_stats w') =
       filtered_writes (dw_stats w) + of_nat (length (filter (\<lambda>(_, _, k). blacklists w k) reqs))"
proof (induction d reqs w s arbitrary: w' s' rule: write_all.induct)
  case (2 d env q k reqs w s)
  obtain r w1 s1 where step: "dual_write env d q k w s = (r, w1, s1)"
    by (metis prod_cases3)
  have "blacklists w1 = blacklists w"
    using dual_write_frame(4) [of env d q k w s] step by (simp add: fun_eq_iff)
  then show ?case
    using 2 step dual_write_stats [of env d q k w s] by (auto simp: algebra_simps)
qed simp

subsection \<open>Example\<close>

text \<open>A writer on sessions 1 and 2, without filter and metrics; session 2 is down.\<close>

definition example_env :: call_env where
  "example_env = \<lparr>env_hi = 1, env_lo = 2, env_now = 0, env_elapsed_us = 1500, env_round = id\<rparr>"

definition example_writer_config :: dual_writer_config where
  "example_writer_config =
     \<lparr>dwc_source = default_database_config, dwc_target = default_database_config,
      dwc_writer = default_writer_config, dwc_filter = default_dw_filter_config,
      dwc_observability = default_observability_config\<rparr>"

definition example_writer :: dual_writer where
  "example_writer = dual_writer_new example_writer_config (example_connection 1)
     (example_connection 2) None None"

definition example_down :: "nat driver" where
  "example_down = scripted_driver (\<lambda>se _ _. if se = 2 then Some ''down'' else None)"

lemmas example_simps =
  example_env_def example_writer_def example_down_def example_connection_def scripted_driver_def
  dual_writer_new_def io_start_def did_call_def

section \<open>Properties\<close>

text \<open>C1. What one write does to the clusters: the statement goes to the source first and at
  most once, it then goes to the target at most once, and it never reaches the target when
  the source failed or when the rules blacklist the table. The calls made before are kept.\<close>

theorem dual_write_calls:
  "let (r, w', s') = dual_write env d cql keyspace w s in
   io_calls s' = io_calls s @ exec_calls (dw_source w) cql @
     (if source_ok r \<and> \<not> blacklists w keyspace then exec_calls (dw_target w) cql else [])"
  using dual_write_history [of env d cql keyspace w s] by (simp add: case_prod_beta Let_def)

text \<open>C8. The answer to the client and the retry queue: \<open>source_ok\<close> says whether the source
  executed the statement, \<open>target_ok\<close> whether the target did as well; a target failure
  after a source success is never an error for the client but adds one entry with the
  statement, its table, the error and one attempt to the retry queue, under an id that is
  new there, and no other outcome changes the queue.\<close>

theorem dual_write_outcome:
  assumes "conn_execute d (dw_source w) cql s = (src, s1)"
    and "conn_execute d (dw_target w) cql s1 = (tgt, s2)"
    and "generate_id (env_hi env) (env_lo env) \<notin> set (umap_keys (dw_failed w))"
  shows "let (r, w', s') = dual_write env d cql keyspace w s in
     source_ok r = (\<not> isl src) \<and>
     target_ok r = (\<not> blacklists w keyspace \<and> \<not> isl src \<and> \<not> isl tgt) \<and>
     dw_failed w' = dw_failed w @
       (if \<not> blacklists w keyspace \<and> \<not> isl src \<and> isl tgt
        then [(generate_id (env_hi env) (env_lo env),
               \<lparr>fw_id = generate_id (env_hi env) (env_lo env), fw_cql = cql,
                fw_keyspace = keyspace, fw_error = what (projl tgt), fw_attempts = 1,
                fw_first_attempt = env_now env\<rparr>)]
        else [])"
  using assms
  by (simp add: dual_write_def Let_def case_prod_beta filter_gate_decides frame_simps
      write_source_only_simps write_dual_async_result enqueue_failed queued_write_def)

theorem dual_write_outcome_witness:
  "let (r, w', s') = dual_write example_env example_down ''UPDATE ks.t SET a = 1'' ''ks.t''
         example_writer io_start
   in source_ok r \<and> \<not> target_ok r \<and> map (fw_cql \<circ> snd) (dw_failed w') = [''UPDATE ks.t SET a = 1'']"
proof -
  obtain s1 where s1: "conn_execute example_down (dw_source example_writer)
      ''UPDATE ks.t SET a = 1'' io_start = (Inr (), s1)"
    by (simp add: example_simps conn_execute_def)
  moreover obtain e s2 where s2: "conn_execute example_down (dw_target example_writer)
      ''UPDATE ks.t SET a = 1'' s1 = (Inl e, s2)"
    by (simp add: example_simps conn_execute_def)
  ultimately show ?thesis
    using dual_write_outcome [OF s1 s2, of example_env "''ks.t''"]
    by (simp add: example_simps blacklists_def case_prod_beta Let_def)
qed

text \<open>C24. The counters of the writer account for every request: after any sequence of writes
  on a new writer, \<open>total_writes\<close> is the number of requests, it is the sum of
  \<open>successful_writes\<close> and \<open>failed_writes\<close>, and \<open>filtered_writes\<close> is the number of requests
  whose table is blacklisted (all modulo the 64 bits of the counters).\<close>

theorem writer_stats_account:
  "write_all d reqs (dual_writer_new cfg src tgt flt mtr) s = (w', s') \<Longrightarrow>
     total_writes (get_stats w') = of_nat (length reqs) \<and>
     successful_writes (get_stats w') + failed_writes (get_stats w') = total_writes (get_stats w') \<and>
     filtered_writes (get_stats w') =
       of_nat (length (filter (\<lambda>(_, _, k). blacklists (dual_writer_new cfg src tgt flt mtr) k) reqs))"
  using write_all_stats [of d reqs "dual_writer_new cfg src tgt flt mtr" s w' s']
  by (simp add: get_stats_def Let_def dual_writer_new_def new_writer_stats_def)

theorem writer_stats_account_witness:
  "total_writes (get_stats (fst (write_all example_down
     [(example_env, ''UPDATE ks.t SET a = 1'', ''ks.t''),
      (example_env, ''UPDATE ks.u SET a = 1'', ''ks.u'')] example_writer io_start))) = 2"
  using writer_stats_account [where s = io_start and d = example_down and
      reqs = "[(example_env, ''UPDATE ks.t SET a = 1'', ''ks.t''),
        (example_env, ''UPDATE ks.u SET a = 1'', ''ks.u'')]", OF prod.collapse [symmetric]]
  by (simp add: example_writer_def)

text \<open>\<open>health_check\<close> is true exactly when both connections are live and both clusters
  answer the probe, and it probes both even when the first is down.\<close>

lemma health_check_iff:
  "let (up, s') = health_check d w s; probe = ''SELECT now() FROM system.local'' in
   up = (live (dw_source w) \<and> live (dw_target w) \<and>
         \<not> isl (fst (conn_execute d (dw_source w) probe s)) \<and>
         \<not> isl (fst (conn_execute d (dw_target w) probe
              (snd (conn_execute d (dw_source w) probe s))))) \<and>
   io_calls s' = io_calls s @ exec_calls (dw_source w) probe @ exec_calls (dw_target w) probe"
  using execute_ok_live
  by (auto simp: health_check_def Let_def case_prod_beta conn_ping_execute io_calls_execute)

end
