(* ===== verification/Cql_Server.thy ===== *)
theory Cql_Server
  imports Cql_Protocol Dual_Writer
begin

text \<open>
  The CQL proxy of the dual writer (\<open>services/dual-writer/src/cql_server.cpp\<close>):
  \<open>read_full_frame\<close>, \<open>forward_and_proxy\<close> and \<open>handle_connection\<close>, whole frames in and
  whole frames out.

  The socket to the source cluster is a parameter, \<open>source_socket\<close>: a write and an exact
  read that may fail. \<open>net_sent\<close> and \<open>net_received\<close> record the bytes that crossed it. The
  client is the list of the bytes it sends before it closes the connection. An exception
  ends the connection's coroutine; \<open>conn_end\<close> says why a connection ended.
  \<open>async_accept\<close>, name resolution and the connect itself are left out.
\<close>

section \<open>Definitions\<close>

subsection \<open>Sockets\<close>

record 'n source_socket =
  sock_write :: "bytes \<Rightarrow> 'n \<Rightarrow> 'n option"
  sock_read :: "nat \<Rightarrow> 'n \<Rightarrow> (bytes \<times> 'n) option"

record 'n net =
  net_world :: 'n
  net_sent :: bytes
  net_received :: bytes

datatype conn_end = ClientClosed | LengthError | SocketError

definition net_write :: "'n source_socket \<Rightarrow> bytes \<Rightarrow> 'n net \<Rightarrow> (conn_end + unit) \<times> 'n net" where
  "net_write k b s =
     (case sock_write k b (net_world s) of
        None \<Rightarrow> (Inl SocketError, s)
      | Some n' \<Rightarrow> (Inr (), s\<lparr>net_world := n', net_sent := net_sent s @ b\<rparr>))"

definition net_read :: "'n source_socket \<Rightarrow> nat \<Rightarrow> 'n net \<Rightarrow> (conn_end + bytes) \<times> 'n net" where
  "net_read k n s =
     (case sock_read k n (net_world s) of
        None \<Rightarrow> (Inl SocketError, s)
      | Some (b, n') \<Rightarrow> (Inr b, s\<lparr>net_world := n', net_received := net_received s @ b\<rparr>))"

text \<open>The lengths are \<open>int32_t\<close> cast to \<open>size_t\<close>: a negative one exceeds \<open>max_size\<close> and the
  vector constructor (or the \<open>reserve\<close> before it) throws.\<close>

definition read_full_frame :: "'n source_socket \<Rightarrow> 'n net \<Rightarrow> (conn_end + bytes) \<times> 'n net" where
  "read_full_frame k s =
     (case net_read k 9 s of
        (Inl e, s1) \<Rightarrow> (Inl e, s1)
      | (Inr hdr, s1) \<Rightarrow>
          let body_len = (scast (read_i32_be hdr 5) :: u64) in
          if max_size < body_len then (Inl LengthError, s1)
          else if 0 < body_len
          then (case net_read k (unat body_len) s1 of
                  (Inl e, s2) \<Rightarrow> (Inl e, s2)
                | (Inr body, s2) \<Rightarrow> (Inr (hdr @ body), s2))
          else (Inr hdr, s1))"

definition forward_and_proxy ::
  "'n source_socket \<Rightarrow> frame_header \<Rightarrow> bytes \<Rightarrow> 'n net \<Rightarrow> (conn_end + bytes) \<times> 'n net" where
  "forward_and_proxy k header body s =
     (case net_write k (to_bytes header) s of
        (Inl e, s1) \<Rightarrow> (Inl e, s1)
      | (Inr _, s1) \<Rightarrow>
          if body \<noteq> []
          then (case net_write k body s1 of
                  (Inl e, s2) \<Rightarrow> (Inl e, s2)
                | (Inr _, s2) \<Rightarrow> read_full_frame k s2)
          else read_full_frame k s1)"

subsection \<open>A connection\<close>

record prepared_stmt =
  ps_query :: string
  ps_is_write :: bool

record ('w, 'n) proxy =
  px_writer :: dual_writer
  px_io :: "'w io"
  px_net :: "'n net"
  px_prepared :: "(string \<times> prepared_stmt) list"

definition proxy_forward ::
  "'n source_socket \<Rightarrow> frame_header \<Rightarrow> bytes \<Rightarrow> ('w, 'n) proxy
   \<Rightarrow> (conn_end + bytes) \<times> ('w, 'n) proxy" where
  "proxy_forward k header body p =
     (let (r, s) = forward_and_proxy k header body (px_net p) in (r, p\<lparr>px_net := s\<rparr>))"

text \<open>The intercepted write of the \<open>OP_QUERY\<close> and \<open>OP_EXECUTE\<close> branches: write through the
  \<open>DualWriter\<close>, answer VOID, or fall back to forwarding the frame.\<close>

definition intercept_write ::
  "call_env \<Rightarrow> 'w driver \<Rightarrow> 'n source_socket \<Rightarrow> frame_header \<Rightarrow> bytes \<Rightarrow> string \<Rightarrow> ('w, 'n) proxy
   \<Rightarrow> (conn_end + bytes) \<times> ('w, 'n) proxy" where
  "intercept_write env d k header body query p =
     (let table = extract_table_target query;
          (r, w, s) = dual_write env d query table (px_writer p) (px_io p);
          p' = p\<lparr>px_writer := w, px_io := s\<rparr>
      in if source_ok r then (Inr (build_void_result (fh_stream_id header)), p')
         else proxy_forward k header body p')"

text \<open>The id of \<open>id_len\<close> bytes at an offset; \<open>Some None\<close> when the buffer is too short,
  \<^term>\<open>None\<close> for the exception a wrapped length raises.\<close>

definition slice_id :: "bytes \<Rightarrow> nat \<Rightarrow> u16 \<Rightarrow> string option option" where
  "slice_id b off len =
     (let id_len = (scast len :: u64) in
      if (of_nat (length b) :: u64) < of_nat off + id_len then Some None
      else if max_size < id_len then None
      else Some (Some (bytes_to_string (take (unat id_len) (drop off b)))))"

text \<open>The id of a successful \<open>PREPARED\<close> response.\<close>

definition prepared_id :: "bytes \<Rightarrow> string option option" where
  "prepared_id response =
     (if length response > 15 \<and> response ! 4 = OP_RESULT \<and>
         read_i32_be response 9 = RESULT_PREPARED
      then slice_id response 15 (read_i16_be response 13)
      else Some None)"

definition execute_id :: "bytes \<Rightarrow> string option" where
  "execute_id body =
     (if length body \<ge> 2
      then map_option (\<lambda>i. case i of Some i \<Rightarrow> i | None \<Rightarrow> []) (slice_id body 2 (read_i16_be body 0))
      else Some [])"

definition handle_query ::
  "call_env \<Rightarrow> 'w driver \<Rightarrow> 'n source_socket \<Rightarrow> frame_header \<Rightarrow> bytes \<Rightarrow> ('w, 'n) proxy
   \<Rightarrow> (conn_end + bytes) \<times> ('w, 'n) proxy" where
  "handle_query env d k header body p =
     (case parse_long_string body 0 of
        None \<Rightarrow> (Inl LengthError, p)
      | Some query \<Rightarrow>
          if is_write_query query then intercept_write env d k header body query p
          else proxy_forward k header body p)"

definition handle_prepare ::
  "'n source_socket \<Rightarrow> frame_header \<Rightarrow> bytes \<Rightarrow> ('w, 'n) proxy
   \<Rightarrow> (conn_end + bytes) \<times> ('w, 'n) proxy" where
  "handle_prepare k header body p =
     (case parse_long_string body 0 of
        None \<Rightarrow> (Inl LengthError, p)
      | Some query \<Rightarrow>
          (case proxy_forward k header body p of
             (Inl e, p1) \<Rightarrow> (Inl e, p1)
           | (Inr response, p1) \<Rightarrow>
               (case prepared_id response of
                  None \<Rightarrow> (Inl LengthError, p1)
                | Some None \<Rightarrow> (Inr response, p1)
                | Some (Some i) \<Rightarrow>
                    (Inr response,
                     p1\<lparr>px_prepared := umap_assign i
                          \<lparr>ps_query = query, ps_is_write = is_write_query query\<rparr>
                          (px_prepared p1)\<rparr>))))"

definition handle_execute ::
  "call_env \<Rightarrow> 'w driver \<Rightarrow> 'n source_socket \<Rightarrow> frame_header \<Rightarrow> bytes \<Rightarrow> ('w, 'n) proxy
   \<Rightarrow> (conn_end + bytes) \<times> ('w, 'n) proxy" where
  "handle_execute env d k header body p =
     (case execute_id body of
        None \<Rightarrow> (Inl LengthError, p)
      | Some stmt_id \<Rightarrow>
          (case map_of (px_prepared p) stmt_id of
             Some st \<Rightarrow>
               if ps_is_write st then intercept_write env d k header body (ps_query st) p
               else proxy_forward k header body p
           | None \<Rightarrow> proxy_forward k header body p))"

text \<open>The \<open>switch\<close> on the opcode: the response to one frame.\<close>

definition handle_frame ::
  "call_env \<Rightarrow> 'w driver \<Rightarrow> 'n source_socket \<Rightarrow> frame_header \<Rightarrow> bytes \<Rightarrow> ('w, 'n) proxy
   \<Rightarrow> (conn_end + bytes) \<times> ('w, 'n) proxy" where
  "handle_frame env d k header body p =
     (if fh_opcode header = OP_QUERY then handle_query env d k header body p
      else if fh_opcode header = OP_PREPARE then handle_prepare k header body p
      else if fh_opcode header = OP_EXECUTE then handle_execute env d k header body p
      else if fh_opcode header = OP_BATCH then proxy_forward k header body p
      else proxy_forward k header body p)"

text \<open>The next frame of the client's bytes: its header, its body and the bytes after it.\<close>

definition read_client_frame :: "bytes \<Rightarrow> conn_end + frame_header \<times> bytes \<times> bytes" where
  "read_client_frame input =
     (if length input < 9 then Inl ClientClosed
      else
        let header = parse_header (take 9 input); rest = drop 9 input;
            n = (scast (fh_body_length header) :: u64)
        in if max_size < n then Inl LengthError
           else if length rest < unat n then Inl SocketError
           else Inr (header, take (unat n) rest, drop (unat n) rest))"

text \<open>The loop of \<open>handle_connection\<close>. \<open>envs\<close> supplies the environment of the \<open>i\<close>-th frame;
  the result is why the connection ended, the responses sent to the client in order, and
  the state left behind.\<close>

function handle_connection ::
  "(nat \<Rightarrow> call_env) \<Rightarrow> 'w driver \<Rightarrow> 'n source_socket \<Rightarrow> nat \<Rightarrow> bytes \<Rightarrow> ('w, 'n) proxy
   \<Rightarrow> conn_end \<times> bytes list \<times> ('w, 'n) proxy" where
  "handle_connection envs d k i input p =
     (case read_client_frame input of
        Inl e \<Rightarrow> (e, [], p)
      | Inr (header, body, rest) \<Rightarrow>
          (case handle_frame (envs i) d k header body p of
             (Inl e, p') \<Rightarrow> (e, [], p')
           | (Inr response, p') \<Rightarrow>
               (case handle_connection envs d k (Suc i) rest p' of
                  (e, out, p'') \<Rightarrow> (e, response # out, p''))))"
  by pat_completeness auto
termination
proof (relation "measure (\<lambda>(envs, d, k, i, input, p). length input)")
qed (auto simp: read_client_frame_def Let_def split: if_splits)

declare handle_connection.simps [simp del]

subsection \<open>Observations\<close>

text \<open>The statement a frame makes the proxy write, if it is intercepted.\<close>

definition intercepted :: "('w, 'n) proxy \<Rightarrow> frame_header \<Rightarrow> bytes \<Rightarrow> string option" where
  "intercepted p header body =
     (if fh_opcode header = OP_QUERY
      then (case parse_long_string body 0 of
              Some q \<Rightarrow> if is_write_query q then Some q else None
            | None \<Rightarrow> None)
      else if fh_opcode header = OP_EXECUTE
      then (case execute_id body of
              Some i \<Rightarrow>
                (case map_of (px_prepared p) i of
                   Some st \<Rightarrow> if ps_is_write st then Some (ps_query st) else None
                 | None \<Rightarrow> None)
            | None \<Rightarrow> None)
      else None)"

text \<open>The tracked statements are classified as their text is.\<close>

definition prepared_inv :: "(string \<times> prepared_stmt) list \<Rightarrow> bool" where
  "prepared_inv m \<longleftrightarrow> (\<forall>i st. map_of m i = Some st \<longrightarrow> ps_is_write st = is_write_query (ps_query st))"

text \<open>A call that only an intercepted write may make: an execution of a write statement whose
  table is not blacklisted, or a call on another session than the target's.\<close>

definition target_call_ok :: "dual_writer \<Rightarrow> cass_call \<Rightarrow> bool" where
  "target_call_ok w c \<longleftrightarrow>
     (\<forall>t q. conn_session (dw_target w) = Some t \<and> c = SessionExecute t q \<longrightarrow>
        is_write_query q \<and> \<not> blacklists w (extract_table_target q))"

section \<open>Lemmas\<close>

lemma net_write_Inr:
  "net_write k b s = (Inr u, s') \<Longrightarrow> net_sent s' = net_sent s @ b \<and> net_received s' = net_received s"
  by (auto simp: net_write_def split: option.splits)

lemma net_read_Inr:
  "net_read k n s = (Inr b, s') \<Longrightarrow> net_sent s' = net_sent s \<and> net_received s' = net_received s @ b"
  by (auto simp: net_read_def split: option.splits)

lemma read_full_frame_Inr:
  "read_full_frame k s = (Inr f, s') \<Longrightarrow>
   net_sent s' = net_sent s \<and> net_received s' = net_received s @ f"
  by (auto simp: read_full_frame_def Let_def dest!: net_read_Inr
      split: prod.splits sum.splits if_splits)

lemma forward_and_proxy_Inr:
  "forward_and_proxy k h b s = (Inr f, s') \<Longrightarrow>
   net_sent s' = net_sent s @ to_bytes h @ b \<and> net_received s' = net_received s @ f"
  by (auto simp: forward_and_proxy_def dest!: net_write_Inr read_full_frame_Inr
      split: prod.splits sum.splits if_splits)

lemma proxy_forward_frame [frame_simps]:
  "px_writer (snd (proxy_forward k h b p)) = px_writer p"
  "px_io (snd (proxy_forward k h b p)) = px_io p"
  "px_prepared (snd (proxy_forward k h b p)) = px_prepared p"
  by (simp_all add: proxy_forward_def case_prod_beta)

lemma proxy_forward_Inr:
  assumes "proxy_forward k h b p = (Inr f, p')"
  shows "net_sent (px_net p') = net_sent (px_net p) @ to_bytes h @ b"
    and "net_received (px_net p') = net_received (px_net p) @ f"
    and "px_writer p' = px_writer p" "px_io p' = px_io p"
proof -
  obtain r s where f: "forward_and_proxy k h b (px_net p) = (r, s)" by force
  with assms have "r = Inr f" "p' = p\<lparr>px_net := s\<rparr>" by (simp_all add: proxy_forward_def)
  with forward_and_proxy_Inr [of k h b "px_net p" f s] f
  show "net_sent (px_net p') = net_sent (px_net p) @ to_bytes h @ b"
    and "net_received (px_net p') = net_received (px_net p) @ f"
    and "px_writer p' = px_writer p" "px_io p' = px_io p" by simp_all
qed

lemma opcodes_distinct [simp]:
  "OP_PREPARE \<noteq> OP_QUERY" "OP_EXECUTE \<noteq> OP_QUERY" "OP_EXECUTE \<noteq> OP_PREPARE"
  "OP_PREPARE \<noteq> OP_EXECUTE" "OP_QUERY \<noteq> OP_EXECUTE" "OP_QUERY \<noteq> OP_PREPARE"
  by (simp_all add: cql_constants)

lemma handle_frame_intercepted:
  "intercepted p h b = Some q \<Longrightarrow> handle_frame env d k h b p = intercept_write env d k h b q p"
  by (auto simp: intercepted_def handle_frame_def handle_query_def handle_execute_def
      split: if_splits option.splits)

lemma handle_prepare_Inr:
  "handle_prepare k h b p = (Inr f, p') \<Longrightarrow>
   \<exists>p1. proxy_forward k h b p = (Inr f, p1) \<and> px_net p' = px_net p1 \<and>
     px_writer p' = px_writer p1 \<and> px_io p' = px_io p1"
  by (auto simp: handle_prepare_def split: option.splits prod.splits sum.splits)

lemma handle_frame_forwarded:
  "intercepted p h b = None \<Longrightarrow> handle_frame env d k h b p = (Inr f, p') \<Longrightarrow>
   \<exists>p1. proxy_forward k h b p = (Inr f, p1) \<and> px_net p' = px_net p1 \<and>
     px_writer p' = px_writer p1 \<and> px_io p' = px_io p1"
  by (auto simp: intercepted_def handle_frame_def handle_query_def handle_execute_def
      dest: handle_prepare_Inr split: if_splits option.splits)

subsection \<open>The calls of a connection\<close>

definition same_setup :: "dual_writer \<Rightarrow> dual_writer \<Rightarrow> bool" where
  "same_setup w w' \<longleftrightarrow>
     dw_source w' = dw_source w \<and> dw_target w' = dw_target w \<and> blacklists w' = blacklists w"

lemma target_call_ok_same: "same_setup w w' \<Longrightarrow> target_call_ok w' = target_call_ok w"
  by (simp add: same_setup_def target_call_ok_def fun_eq_iff)

text \<open>What a step of the proxy keeps: the set-up, the classification of the tracked
  statements, and that only allowed calls are added to the history.\<close>

definition proxy_keeps :: "('w, 'n) proxy \<Rightarrow> ('w, 'n) proxy \<Rightarrow> bool" where
  "proxy_keeps p p' \<longleftrightarrow>
     same_setup (px_writer p) (px_writer p') \<and> prepared_inv (px_prepared p') \<and>
     (\<exists>new. io_calls (px_io p') = io_calls (px_io p) @ new \<and>
        (\<forall>c \<in> set new. target_call_ok (px_writer p) c))"

lemma proxy_keeps_trans: "proxy_keeps p p' \<Longrightarrow> proxy_keeps p' p'' \<Longrightarrow> proxy_keeps p p''"
  by (auto simp: proxy_keeps_def target_call_ok_same) (auto simp: same_setup_def)

lemma proxy_keeps_forward:
  "prepared_inv (px_prepared p) \<Longrightarrow> proxy_keeps p (snd (proxy_forward k h b p))"
  by (simp add: proxy_keeps_def same_setup_def frame_simps)

lemma proxy_keeps_refl: "prepared_inv (px_prepared p) \<Longrightarrow> proxy_keeps p p"
  by (simp add: proxy_keeps_def same_setup_def)

lemma exec_calls_ok:
  assumes "is_write_query q" "conn_session (dw_source w) \<noteq> conn_session (dw_target w)"
  shows "\<forall>c \<in> set (exec_calls (dw_source w) q). target_call_ok w c"
    and "\<not> blacklists w (extract_table_target q) \<Longrightarrow>
      \<forall>c \<in> set (exec_calls (dw_target w) q). target_call_ok w c"
  using assms by (auto simp: exec_calls_def target_call_ok_def live_def)

lemma proxy_keeps_intercept:
  assumes "is_write_query q" "prepared_inv (px_prepared p)"
    and "conn_session (dw_source (px_writer p)) \<noteq> conn_session (dw_target (px_writer p))"
  shows "proxy_keeps p (snd (intercept_write env d k h b q p))"
proof -
  let ?t = "extract_table_target q"
  obtain r w s where wr: "dual_write env d q ?t (px_writer p) (px_io p) = (r, w, s)"
    by (metis prod_cases3)
  let ?p = "p\<lparr>px_writer := w, px_io := s\<rparr>"
  have "same_setup (px_writer p) w"
    using dual_write_frame [of env d q ?t "px_writer p" "px_io p"] wr
    by (simp add: same_setup_def fun_eq_iff)
  then have "proxy_keeps p ?p"
    using dual_write_history [of env d q ?t "px_writer p" "px_io p"] wr assms(2)
      exec_calls_ok [OF assms(1,3)] by (auto simp: proxy_keeps_def)
  moreover have "proxy_keeps ?p (snd (proxy_forward k h b ?p))"
    using assms(2) by (intro proxy_keeps_forward) simp
  ultimately show ?thesis
    using wr proxy_keeps_trans by (auto simp: intercept_write_def Let_def)
qed

lemma prepared_inv_assign:
  "prepared_inv m \<Longrightarrow>
   prepared_inv (umap_assign i \<lparr>ps_query = q, ps_is_write = is_write_query q\<rparr> m)"
  by (auto simp: prepared_inv_def)

lemma proxy_keeps_prepare:
  assumes "prepared_inv (px_prepared p)"
  shows "proxy_keeps p (snd (handle_prepare k h b p))"
  using assms proxy_keeps_forward [OF assms, of k h b] prepared_inv_assign
    proxy_forward_frame(3) [of k h b p]
  by (auto simp: handle_prepare_def proxy_keeps_refl proxy_keeps_def same_setup_def
      split: option.splits prod.splits sum.splits)

lemma intercepted_write_query:
  "prepared_inv (px_prepared p) \<Longrightarrow> intercepted p h b = Some q \<Longrightarrow> is_write_query q"
  by (auto simp: intercepted_def prepared_inv_def split: if_splits option.splits)

lemma proxy_keeps_frame:
  assumes "prepared_inv (px_prepared p)"
    and "conn_session (dw_source (px_writer p)) \<noteq> conn_session (dw_target (px_writer p))"
  shows "proxy_keeps p (snd (handle_frame env d k h b p))"
proof (cases "intercepted p h b")
  case (Some q)
  then show ?thesis
    using proxy_keeps_intercept [OF intercepted_write_query [OF assms(1) Some] assms]
    by (simp add: handle_frame_intercepted)
next
  case None
  then show ?thesis
    using assms(1)
    by (auto simp: intercepted_def handle_frame_def handle_query_def handle_execute_def
        proxy_keeps_refl proxy_keeps_forward proxy_keeps_prepare split: if_splits option.splits)
qed

lemma proxy_keeps_connection:
  "handle_connection envs d k i input p = (e, out, p') \<Longrightarrow> prepared_inv (px_prepared p) \<Longrightarrow>
   conn_session (dw_source (px_writer p)) \<noteq> conn_session (dw_target (px_writer p)) \<Longrightarrow>
   proxy_keeps p p'"
proof (induction envs d k i input p arbitrary: e out p' rule: handle_connection.induct)
  case (1 envs d k i input p)
  show ?case
  proof (cases "read_client_frame input")
    case (Inl e')
    with 1 show ?thesis by (simp add: handle_connection.simps [of envs d k i input] proxy_keeps_refl)
  next
    case (Inr f)
    obtain h b rest where f: "f = (h, b, rest)" by (metis prod_cases3)
    obtain r p1 where fr: "handle_frame (envs i) d k h b p = (r, p1)" by force
    have keep: "proxy_keeps p p1"
      using proxy_keeps_frame [OF 1(3,4), of "envs i" d k h b] fr by simp
    then have kept: "prepared_inv (px_prepared p1)"
      "conn_session (dw_source (px_writer p1)) \<noteq> conn_session (dw_target (px_writer p1))"
      using 1(4) by (auto simp: proxy_keeps_def same_setup_def)
    show ?thesis
    proof (cases r)
      case (Inl e')
      with 1(2) Inr f fr keep show ?thesis
        by (simp add: handle_connection.simps [of envs d k i input])
    next
      case (Inr resp)
      obtain e2 out2 p2 where rec: "handle_connection envs d k (Suc i) rest p1 = (e2, out2, p2)"
        by (metis prod_cases3)
      have "proxy_keeps p1 p2"
        using 1(1) [OF \<open>read_client_frame input = Inr f\<close> f [symmetric] refl fr [symmetric] Inr rec kept] .
      then show ?thesis
        using 1(2) \<open>read_client_frame input = Inr f\<close> f fr Inr rec keep proxy_keeps_trans
        by (auto simp: handle_connection.simps [of envs d k i input])
    qed
  qed
qed

subsection \<open>Example\<close>

text \<open>A source that answers from a fixed byte stream, and a proxy of the example writer.\<close>

definition stream_socket :: "bytes source_socket" where
  "stream_socket =
     \<lparr>sock_write = (\<lambda>_ n. Some n),
      sock_read = (\<lambda>k n. if length n < k then None else Some (take k n, drop k n))\<rparr>"

definition example_proxy :: "bytes \<Rightarrow> (nat, bytes) proxy" where
  "example_proxy answer =
     \<lparr>px_writer = example_writer, px_io = io_start,
      px_net = \<lparr>net_world = answer, net_sent = [], net_received = []\<rparr>, px_prepared = []\<rparr>"

text \<open>The client frame of an \<open>OPTIONS\<close> request, and the query frame of a short write.\<close>

definition options_frame :: bytes where
  "options_frame = [0x04, 0, 0, 7, 0x05, 0, 0, 0, 0]"

definition write_body :: bytes where
  "write_body = [0, 0, 0, 19, 68, 69, 76, 69, 84, 69, 32, 70, 82, 79, 77, 32, 107, 46, 116, 32, 87, 32, 49]"

lemma write_body_text: "parse_long_string write_body 0 = Some ''DELETE FROM k.t W 1''"
  by code_simp

section \<open>Properties\<close>

text \<open>C14. The proxy is transparent for everything it does not intercept: when a frame is not
  a write and is answered, the source receives exactly the bytes the client sent, header
  included, the client receives exactly the bytes the source answered, and neither cluster
  is contacted through the writer.\<close>

theorem proxy_transparent:
  assumes "length hdr = 9" "intercepted p (parse_header hdr) body = None"
    and "handle_frame env d k (parse_header hdr) body p = (Inr response, p')"
  shows "net_sent (px_net p') = net_sent (px_net p) @ hdr @ body \<and>
    net_received (px_net p') = net_received (px_net p) @ response \<and>
    px_writer p' = px_writer p \<and> px_io p' = px_io p"
proof -
  obtain p1 where "proxy_forward k (parse_header hdr) body p = (Inr response, p1)"
    and "px_net p' = px_net p1" "px_writer p' = px_writer p1" "px_io p' = px_io p1"
    using handle_frame_forwarded [OF assms(2,3)] by blast
  then show ?thesis
    using proxy_forward_Inr [of k "parse_header hdr" body p response p1]
    by (simp add: to_bytes_parse_header [OF assms(1)])
qed

theorem proxy_transparent_witness:
  "let (r, p') = handle_frame example_env example_down stream_socket (parse_header options_frame) []
         (example_proxy [0x84, 0, 0, 7, 0x06, 0, 0, 0, 2, 0, 0])
   in r = Inr [0x84, 0, 0, 7, 0x06, 0, 0, 0, 2, 0, 0] \<and> net_sent (px_net p') = options_frame"
proof -
  let ?a = "[0x84, 0, 0, 7, 0x06, 0, 0, 0, 2, 0, 0] :: bytes"
  let ?h = "parse_header options_frame"
  have i: "intercepted (example_proxy ?a) ?h [] = None"
    by (simp add: intercepted_def parse_header_def options_frame_def cql_constants)
  have len: "read_i32_be (take 9 ?a) 5 = 2" by code_simp
  obtain p' where h: "handle_frame example_env example_down stream_socket ?h [] (example_proxy ?a) =
      (Inr ?a, p')"
    using len
    by (simp add: handle_frame_def parse_header_def options_frame_def cql_constants
        proxy_forward_def forward_and_proxy_def net_write_def read_full_frame_def net_read_def
        stream_socket_def example_proxy_def max_size_def Let_def)
  have "length options_frame = 9" by (simp add: options_frame_def)
  from proxy_transparent [OF this i h] h show ?thesis
    by (simp add: example_proxy_def)
qed

text \<open>C21. An intercepted write (a \<open>QUERY\<close> that is an \<open>INSERT\<close>, \<open>UPDATE\<close> or \<open>DELETE\<close>, or an
  \<open>EXECUTE\<close> of a tracked one) goes through the dual writer with the table of its text. When the
  source accepts it, nothing crosses the proxy socket and the client gets a \<open>VOID\<close> result frame
  with the stream id of its request; when the source refuses it, the original frame is
  forwarded to the source as if it were a read, and the target has not been contacted.\<close>

theorem intercepted_write_served:
  assumes "intercepted p header body = Some query"
    and "dual_write env d query (extract_table_target query) (px_writer p) (px_io p) = (r, w, s)"
  shows "let (resp, p') = handle_frame env d k header body p in
    px_writer p' = w \<and> px_io p' = s \<and>
    (if source_ok r
     then px_net p' = px_net p \<and>
       (\<exists>frame. resp = Inr frame \<and> length frame = 13 \<and> drop 9 frame = [0, 0, 0, 1] \<and>
          parse_header (take 9 frame) =
            \<lparr>fh_version = 0x84, fh_flags = 0, fh_stream_id = fh_stream_id header,
             fh_opcode = OP_RESULT, fh_body_length = 4\<rparr>)
     else io_calls s = io_calls (px_io p) @ exec_calls (dw_source (px_writer p)) query \<and>
       (resp, px_net p') = forward_and_proxy k header body (px_net p))"
proof (cases "source_ok r")
  case True
  have "parse_header (to_bytes (response_header OP_RESULT (fh_stream_id header) 4)) =
      response_header OP_RESULT (fh_stream_id header) 4"
    by (rule parse_header_to_bytes)
  with True show ?thesis
    using assms by (simp add: handle_frame_intercepted intercept_write_def Let_def
        build_void_result_def response_header_def CQL_VERSION_RESPONSE_def)
next
  case False
  then show ?thesis
    using assms dual_write_history [of env d query "extract_table_target query" "px_writer p" "px_io p"]
    by (simp add: handle_frame_intercepted intercept_write_def proxy_forward_def Let_def
        case_prod_beta)
qed

theorem intercepted_write_served_witness:
  "let (resp, p') = handle_frame example_env example_down stream_socket
         (parse_header [0x04, 0, 0, 9, 0x07, 0, 0, 0, 23]) write_body (example_proxy [])
   in px_net p' = px_net (example_proxy []) \<and>
     (case resp of Inr frame \<Rightarrow> fh_stream_id (parse_header (take 9 frame)) = 9 | Inl _ \<Rightarrow> False)"
proof -
  let ?h = "parse_header [0x04, 0, 0, 9, 0x07, 0, 0, 0, 23]"
  let ?q = "''DELETE FROM k.t W 1''"
  have "is_write_query ?q" by code_simp
  then have i: "intercepted (example_proxy []) ?h write_body = Some ?q"
    by (simp add: intercepted_def parse_header_def OP_QUERY_def write_body_text)
  obtain r w s where wr: "dual_write example_env example_down ?q (extract_table_target ?q)
      (px_writer (example_proxy [])) (px_io (example_proxy [])) = (r, w, s)"
    by (metis prod_cases3)
  have "source_ok r"
    using arg_cong [OF wr, of "\<lambda>x. source_ok (fst x)"]
    by (simp add: dual_write_def Let_def filter_gate_def write_dual_async_def conn_execute_def
        new_write_result_def frame_simps example_simps example_proxy_def)
  moreover have "fh_stream_id ?h = 9" by code_simp
  ultimately show ?thesis
    using intercepted_write_served [OF i wr, of stream_socket] by (auto simp: Let_def)
qed

text \<open>The blacklist holds through the proxy: whatever bytes a client sends on a connection,
  every statement that is executed on the target session is a write statement whose table, as
  the proxy reads it, is not blacklisted. Earlier calls stay in the history.\<close>

lemma proxy_target_calls_allowed:
  assumes "handle_connection envs d k i input p = (e, out, p')" "px_prepared p = []"
    and "conn_session (dw_source (px_writer p)) \<noteq> conn_session (dw_target (px_writer p))"
  shows "\<exists>new. io_calls (px_io p') = io_calls (px_io p) @ new \<and>
    (\<forall>t q. conn_session (dw_target (px_writer p)) = Some t \<and> SessionExecute t q \<in> set new \<longrightarrow>
       is_write_query q \<and> \<not> blacklists (px_writer p) (extract_table_target q))"
  using proxy_keeps_connection [OF assms(1) _ assms(3)] assms(2)
  by (fastforce simp: prepared_inv_def proxy_keeps_def target_call_ok_def)

text \<open>An \<open>EXECUTE\<close> of a tracked write drops its bound values: two request bodies with the
  same statement id have the same effect on both clusters and on the writer, whatever values
  follow the id.\<close>

lemma execute_ignores_values:
  assumes "fh_opcode header = OP_EXECUTE" "execute_id body = execute_id body'"
    and "intercepted p header body = Some query"
  shows "px_io (snd (handle_frame env d k header body p)) = px_io (snd (handle_frame env d k header body' p)) \<and>
    px_writer (snd (handle_frame env d k header body p)) =
      px_writer (snd (handle_frame env d k header body' p))"
proof -
  have "intercepted p header body' = Some query"
    using assms by (simp add: intercepted_def)
  with assms(3) show ?thesis
    by (simp add: handle_frame_intercepted intercept_write_def Let_def case_prod_beta frame_simps)
qed

end
