(* ===== verification/Dual_Writer_Retry.thy ===== *)
theory Dual_Writer_Retry
  imports Dual_Writer
begin

text \<open>
  \<open>DualWriter::retry_failed_writes_loop\<close> (\<open>services/dual-writer/src/writer.cpp\<close>), the
  background thread that retries failed shadow writes, on its own (\<open>retry_cycle\<close>) and
  interleaved with client writes (\<open>writer_step\<close>).

  The loop takes a snapshot of the queue under the lock, works through the snapshot
  without the lock, and applies its removals and updates under the lock, so client writes
  can enqueue between any two of its steps. The counters and the filter are thread-safe,
  and a client write touches the queue in one atomic \<open>emplace\<close>, so it is one step.
\<close>

section \<open>Definitions\<close>

subsection \<open>One cycle\<close>

datatype retry_outcome = Abandoned | NowBlacklisted | Succeeded | FailedAgain failed_write

definition count_abandoned :: "dual_writer \<Rightarrow> dual_writer" where
  "count_abandoned w =
     w\<lparr>dw_stats := (dw_stats w)\<lparr>abandoned_writes := abandoned_writes (dw_stats w) + 1\<rparr>\<rparr>"

definition count_retried :: "dual_writer \<Rightarrow> dual_writer" where
  "count_retried w =
     w\<lparr>dw_stats := (dw_stats w)\<lparr>retried_writes := retried_writes (dw_stats w) + 1\<rparr>\<rparr>"

text \<open>The body of the loop over the snapshot.\<close>

definition retry_one ::
  "'w driver \<Rightarrow> failed_write \<Rightarrow> dual_writer \<Rightarrow> 'w io \<Rightarrow> retry_outcome \<times> dual_writer \<times> 'w io" where
  "retry_one d fw w s =
     (if max_retries (dwc_writer (dw_config w)) \<le> fw_attempts fw
      then (Abandoned, count_abandoned w, s)
      else
        let (skip, w1) = filter_gate (fw_keyspace fw) w in
        if skip then (NowBlacklisted, w1, s)
        else
          case conn_execute d (dw_target w1) (fw_cql fw) s of
            (Inr _, s1) \<Rightarrow> (Succeeded, count_retried w1, s1)
          | (Inl e, s1) \<Rightarrow>
              (FailedAgain (fw\<lparr>fw_attempts := fw_attempts fw + 1, fw_error := what e\<rparr>), w1, s1))"

text \<open>\<open>to_remove\<close> and \<open>to_update\<close>, and their entry for one outcome.\<close>

type_synonym mutations = "string list \<times> (string \<times> failed_write) list"

fun note_outcome :: "string \<Rightarrow> retry_outcome \<Rightarrow> mutations \<Rightarrow> mutations" where
  "note_outcome i (FailedAgain fw) (to_remove, to_update) = (to_remove, to_update @ [(i, fw)])"
| "note_outcome i _ (to_remove, to_update) = (to_remove @ [i], to_update)"

fun retry_entries ::
  "'w driver \<Rightarrow> (string \<times> failed_write) list \<Rightarrow> mutations \<Rightarrow> dual_writer \<Rightarrow> 'w io
   \<Rightarrow> mutations \<times> dual_writer \<times> 'w io" where
  "retry_entries d [] muts w s = (muts, w, s)"
| "retry_entries d ((i, fw) # rest) muts w s =
     (let (out, w', s') = retry_one d fw w s
      in retry_entries d rest (note_outcome i out muts) w' s')"

definition retry_apply ::
  "mutations \<Rightarrow> (string \<times> failed_write) list \<Rightarrow> (string \<times> failed_write) list" where
  "retry_apply muts m =
     fold (\<lambda>(i, fw) m. umap_assign i fw m) (snd muts) (fold umap_erase (fst muts) m)"

definition retry_cycle :: "'w driver \<Rightarrow> dual_writer \<Rightarrow> 'w io \<Rightarrow> dual_writer \<times> 'w io" where
  "retry_cycle d w s =
     (let snapshot = dw_failed w in
      if snapshot = [] then (w, s)
      else
        let (muts, w1, s1) = retry_entries d snapshot ([], []) w s
        in (w1\<lparr>dw_failed := retry_apply muts (dw_failed w1)\<rparr>, s1))"

fun retry_cycles :: "nat \<Rightarrow> 'w driver \<Rightarrow> dual_writer \<Rightarrow> 'w io \<Rightarrow> dual_writer \<times> 'w io" where
  "retry_cycles 0 d w s = (w, s)"
| "retry_cycles (Suc n) d w s = (let (w', s') = retry_cycle d w s in retry_cycles n d w' s')"

subsection \<open>The retry thread beside client writes\<close>

text \<open>\<open>Sleeping\<close> carries the \<open>elapsed\<close> counter of the interruptible sleep, \<open>Working\<close> the
  rest of the snapshot and the mutations noted so far.\<close>

datatype retry_phase =
    Sleeping u64
  | Working "(string \<times> failed_write) list" mutations
  | Stopped

text \<open>A record of what happens to queue entries, for the statements below only.\<close>

datatype queue_event = ShadowFailed string | Collided string | Tried string retry_outcome

record 'w writer_system =
  sys_writer :: dual_writer
  sys_io :: "'w io"
  sys_phase :: retry_phase
  sys_stop :: bool
  sys_events :: "queue_event list"

definition write_events :: "call_env \<Rightarrow> string \<Rightarrow> write_result \<Rightarrow> dual_writer \<Rightarrow> queue_event list" where
  "write_events env keyspace r w =
     (if source_ok r \<and> \<not> target_ok r \<and> \<not> blacklists w keyspace
      then (let i = generate_id (env_hi env) (env_lo env) in
            ShadowFailed i # (if i \<in> set (umap_keys (dw_failed w)) then [Collided i] else []))
      else [])"

inductive writer_step :: "'w driver \<Rightarrow> 'w writer_system \<Rightarrow> 'w writer_system \<Rightarrow> bool" for d where
  client_write:
    "dual_write env d q k (sys_writer y) (sys_io y) = (r, w', s') \<Longrightarrow>
     writer_step d y (y\<lparr>sys_writer := w', sys_io := s',
       sys_events := sys_events y @ write_events env k r (sys_writer y)\<rparr>)"
| sleep_slice:
    "sys_phase y = Sleeping e \<Longrightarrow> \<not> sys_stop y \<Longrightarrow>
     e < retry_delay_ms (dwc_writer (dw_config (sys_writer y))) \<Longrightarrow>
     writer_step d y (y\<lparr>sys_phase := Sleeping (e + 100)\<rparr>)"
| take_snapshot:
    "sys_phase y = Sleeping e \<Longrightarrow> \<not> sys_stop y \<Longrightarrow>
     \<not> e < retry_delay_ms (dwc_writer (dw_config (sys_writer y))) \<Longrightarrow>
     writer_step d y (y\<lparr>sys_phase :=
       (if dw_failed (sys_writer y) = [] then Sleeping 0
        else Working (dw_failed (sys_writer y)) ([], []))\<rparr>)"
| retry_entry:
    "sys_phase y = Working ((i, fw) # rest) muts \<Longrightarrow>
     retry_one d fw (sys_writer y) (sys_io y) = (out, w', s') \<Longrightarrow>
     writer_step d y (y\<lparr>sys_writer := w', sys_io := s',
       sys_phase := Working rest (note_outcome i out muts),
       sys_events := sys_events y @ [Tried i out]\<rparr>)"
| apply_mutations:
    "sys_phase y = Working [] muts \<Longrightarrow>
     writer_step d y (y\<lparr>
       sys_writer := (sys_writer y)\<lparr>dw_failed := retry_apply muts (dw_failed (sys_writer y))\<rparr>,
       sys_phase := Sleeping 0\<rparr>)"
| request_stop: "writer_step d y (y\<lparr>sys_stop := True\<rparr>)"
| leave_loop: "sys_phase y = Sleeping e \<Longrightarrow> sys_stop y \<Longrightarrow> writer_step d y (y\<lparr>sys_phase := Stopped\<rparr>)"

definition system_start :: "dual_writer \<Rightarrow> 'w io \<Rightarrow> 'w writer_system" where
  "system_start w s =
     \<lparr>sys_writer = w, sys_io = s, sys_phase = Sleeping 0, sys_stop = False, sys_events = []\<rparr>"

text \<open>The destructor asks the thread to stop and waits for it; the queue is discarded with the object.\<close>

definition writer_destroy :: "'w writer_system \<Rightarrow> 'w writer_system" where
  "writer_destroy y = y\<lparr>sys_stop := True\<rparr>"

subsection \<open>Observations\<close>

fun shadow_failed_ids :: "queue_event list \<Rightarrow> string list" where
  "shadow_failed_ids [] = []"
| "shadow_failed_ids (ShadowFailed i # es) = i # shadow_failed_ids es"
| "shadow_failed_ids (_ # es) = shadow_failed_ids es"

fun collided_ids :: "queue_event list \<Rightarrow> string list" where
  "collided_ids [] = []"
| "collided_ids (Collided i # es) = i # collided_ids es"
| "collided_ids (_ # es) = collided_ids es"

fun settled :: "retry_outcome \<Rightarrow> bool" where
  "settled (FailedAgain _) = False"
| "settled _ = True"

text \<open>Entries the retry loop has finished with: retried, abandoned or dropped by the filter.\<close>

fun settled_ids :: "queue_event list \<Rightarrow> string list" where
  "settled_ids [] = []"
| "settled_ids (Tried i out # es) = (if settled out then i # settled_ids es else settled_ids es)"
| "settled_ids (_ # es) = settled_ids es"

fun phase_mutations :: "retry_phase \<Rightarrow> mutations" where
  "phase_mutations (Working _ muts) = muts"
| "phase_mutations _ = ([], [])"

fun phase_todo :: "retry_phase \<Rightarrow> (string \<times> failed_write) list" where
  "phase_todo (Working todo _) = todo"
| "phase_todo _ = []"

text \<open>The entries still owed to the target: in the queue and not yet settled in this cycle.\<close>

definition pending_ids :: "'w writer_system \<Rightarrow> string list" where
  "pending_ids y =
     filter (\<lambda>i. i \<notin> set (fst (phase_mutations (sys_phase y)))) (umap_keys (dw_failed (sys_writer y)))"

section \<open>Lemmas\<close>

subsection \<open>Shutdown\<close>

text \<open>After a stop request every move of the thread brings it closer to its end, and until then it
  can move: it finishes the entries of its snapshot, but takes no other.\<close>

fun thread_left :: "retry_phase \<Rightarrow> nat" where
  "thread_left (Working todo _) = length todo + 2"
| "thread_left (Sleeping _) = 1"
| "thread_left Stopped = 0"

lemma stopped_thread_decreases:
  assumes "writer_step d y y'" "sys_stop y"
  shows "sys_stop y' \<and> (sys_phase y' = sys_phase y \<or> thread_left (sys_phase y') < thread_left (sys_phase y))"
  using assms by (cases rule: writer_step.cases) auto

lemma stopped_thread_moves:
  assumes "sys_stop y" "sys_phase y \<noteq> Stopped"
  shows "\<exists>y'. writer_step d y y' \<and> sys_stop y' \<and> thread_left (sys_phase y') < thread_left (sys_phase y)"
proof (cases "sys_phase y")
  case (Sleeping e)
  then show ?thesis using leave_loop [OF Sleeping assms(1), of d] assms(1) by fastforce
next
  case (Working todo muts)
  show ?thesis
  proof (cases todo)
    case Nil
    then show ?thesis using apply_mutations [of y muts d] Working assms(1) by fastforce
  next
    case (Cons e rest)
    obtain i fw where e: "e = (i, fw)" by (cases e)
    obtain out w' s' where "retry_one d fw (sys_writer y) (sys_io y) = (out, w', s')" by (metis prod_cases3)
    then have "writer_step d y (y\<lparr>sys_writer := w', sys_io := s', sys_phase := Working rest (note_outcome i out muts),
        sys_events := sys_events y @ [Tried i out]\<rparr>)"
      using retry_entry Working Cons e by blast
    then show ?thesis using Working Cons assms(1) by fastforce
  qed
qed (use assms(2) in simp)

lemma destroy_ends_thread: "\<exists>y'. (writer_step d)\<^sup>*\<^sup>* (writer_destroy y) y' \<and> sys_phase y' = Stopped"
proof -
  have "\<exists>y'. (writer_step d)\<^sup>*\<^sup>* y y' \<and> sys_phase y' = Stopped" if "sys_stop y" for y :: "'a writer_system"
    using that
  proof (induction "thread_left (sys_phase y)" arbitrary: y rule: less_induct)
    case less
    show ?case
    proof (cases "sys_phase y = Stopped")
      case False
      then obtain y1 where "writer_step d y y1" "sys_stop y1" "thread_left (sys_phase y1) < thread_left (sys_phase y)"
        using stopped_thread_moves [OF less.prems] by blast
      then show ?thesis using less.hyps [of y1] by (meson converse_rtranclp_into_rtranclp)
    qed blast
  qed
  then show ?thesis by (simp add: writer_destroy_def)
qed

subsection \<open>Applying the mutations\<close>

lemma umap_keys_assign: "k \<in> set (umap_keys m) \<Longrightarrow> umap_keys (umap_assign k v m) = umap_keys m"
  by (induction k v m rule: umap_assign.induct) auto

lemma umap_keys_fold_erase:
  "umap_keys (fold umap_erase rem m) = filter (\<lambda>i. i \<notin> set rem) (umap_keys m)"
  by (induction rem arbitrary: m) (auto simp: umap_keys_erase intro: filter_cong)

lemma umap_keys_fold_assign:
  "set (umap_keys upd) \<subseteq> set (umap_keys m) \<Longrightarrow>
   umap_keys (fold (\<lambda>(i, fw) m. umap_assign i fw m) upd m) = umap_keys m"
  by (induction upd arbitrary: m) (auto simp: umap_keys_assign)

lemma umap_keys_retry_apply:
  "set (umap_keys (snd muts)) \<subseteq> set (umap_keys m) - set (fst muts) \<Longrightarrow>
   umap_keys (retry_apply muts m) = filter (\<lambda>i. i \<notin> set (fst muts)) (umap_keys m)"
  unfolding retry_apply_def by (subst umap_keys_fold_assign) (auto simp: umap_keys_fold_erase)

lemma map_of_fold_erase:
  "map_of (fold umap_erase rem m) i = (if i \<in> set rem then None else map_of m i)"
  by (induction rem arbitrary: m) auto

lemma map_of_fold_assign:
  "distinct (umap_keys upd) \<Longrightarrow>
   map_of (fold (\<lambda>(i, fw) m. umap_assign i fw m) upd m) i =
     (case map_of upd i of Some fw \<Rightarrow> Some fw | None \<Rightarrow> map_of m i)"
proof (induction upd arbitrary: m)
  case (Cons a upd)
  have "fst a \<notin> set (umap_keys upd)" using Cons.prems by (cases a) auto
  then have "map_of upd (fst a) = None" by (simp add: umap_keys_def map_of_eq_None_iff)
  with Cons show ?case by (cases a) (auto split: option.splits)
qed simp

lemma map_of_retry_apply:
  "distinct (umap_keys (snd muts)) \<Longrightarrow>
   map_of (retry_apply muts m) i =
     (case map_of (snd muts) i of
        Some fw \<Rightarrow> Some fw
      | None \<Rightarrow> if i \<in> set (fst muts) then None else map_of m i)"
  by (simp add: retry_apply_def map_of_fold_assign map_of_fold_erase split: option.split)

subsection \<open>One retry\<close>

lemma count_retry_frame [frame_simps]:
  "dw_config (count_abandoned w) = dw_config w" "dw_config (count_retried w) = dw_config w"
  "dw_target (count_abandoned w) = dw_target w" "dw_target (count_retried w) = dw_target w"
  "dw_filter (count_abandoned w) = dw_filter w" "dw_filter (count_retried w) = dw_filter w"
  "dw_failed (count_abandoned w) = dw_failed w" "dw_failed (count_retried w) = dw_failed w"
  "blacklists (count_abandoned w) t = blacklists w t" "blacklists (count_retried w) t = blacklists w t"
  by (simp_all add: count_abandoned_def count_retried_def blacklists_def)

lemma retry_one_frame [frame_simps]:
  "dw_config (fst (snd (retry_one d fw w s))) = dw_config w"
  "dw_target (fst (snd (retry_one d fw w s))) = dw_target w"
  "dw_failed (fst (snd (retry_one d fw w s))) = dw_failed w"
  "blacklists (fst (snd (retry_one d fw w s))) t = blacklists w t"
  by (simp_all add: retry_one_def Let_def case_prod_beta frame_simps split: sum.splits)

lemma retry_one_frameD:
  assumes "retry_one d fw w s = (out, w', s')"
  shows "dw_config w' = dw_config w" "dw_target w' = dw_target w" "dw_failed w' = dw_failed w"
    "blacklists w' t = blacklists w t"
  using retry_one_frame [of d fw w s] assms by simp_all

lemma retry_one_calls:
  "io_calls (snd (snd (retry_one d fw w s))) = io_calls s @
     (if max_retries (dwc_writer (dw_config w)) \<le> fw_attempts fw \<or> blacklists w (fw_keyspace fw)
      then [] else exec_calls (dw_target w) (fw_cql fw))"
  using io_calls_execute [of d "dw_target w" "fw_cql fw" s]
  by (auto simp: retry_one_def Let_def case_prod_beta frame_simps filter_gate_decides
      split: sum.splits prod.splits)

lemma attempts_next:
  "fw_attempts fw < (m :: u32) \<Longrightarrow> unat (fw_attempts fw + 1) = Suc (unat (fw_attempts fw))"
  using unsigned_less [of m, where 'a = nat] by (simp add: word_less_nat_alt unat_word_ariths)

lemma retry_one_again:
  assumes "retry_one d fw w s = (FailedAgain fw', w', s')"
  shows "unat (fw_attempts fw') = Suc (unat (fw_attempts fw))"
    and "fw_attempts fw < max_retries (dwc_writer (dw_config w))"
    and "fw_cql fw' = fw_cql fw" "fw_keyspace fw' = fw_keyspace fw" "fw_id fw' = fw_id fw"
  using assms
  by (auto simp: retry_one_def Let_def case_prod_beta not_le attempts_next
      split: if_splits sum.splits prod.splits)

subsection \<open>The invariant of the system\<close>

text \<open>The ids the retry thread is busy with are distinct and all still in the queue.\<close>

definition busy_ids :: "retry_phase \<Rightarrow> string list" where
  "busy_ids p = umap_keys (phase_todo p) @ fst (phase_mutations p) @ umap_keys (snd (phase_mutations p))"

definition system_inv :: "'w writer_system \<Rightarrow> bool" where
  "system_inv y \<longleftrightarrow>
     distinct (umap_keys (dw_failed (sys_writer y))) \<and>
     distinct (busy_ids (sys_phase y)) \<and>
     set (busy_ids (sys_phase y)) \<subseteq> set (umap_keys (dw_failed (sys_writer y)))"

lemma event_ids_append [simp]:
  "shadow_failed_ids (es @ es') = shadow_failed_ids es @ shadow_failed_ids es'"
  "collided_ids (es @ es') = collided_ids es @ collided_ids es'"
  "settled_ids (es @ es') = settled_ids es @ settled_ids es'"
proof -
  show "shadow_failed_ids (es @ es') = shadow_failed_ids es @ shadow_failed_ids es'"
    by (induction es rule: shadow_failed_ids.induct) auto
  show "collided_ids (es @ es') = collided_ids es @ collided_ids es'"
    by (induction es rule: collided_ids.induct) auto
  show "settled_ids (es @ es') = settled_ids es @ settled_ids es'"
    by (induction es rule: settled_ids.induct) auto
qed

lemma dual_write_failed:
  assumes "dual_write env d q k w s = (r, w', s')"
  obtains fw where "fw_attempts fw = 1" and "dw_failed w' =
    (if source_ok r \<and> \<not> target_ok r \<and> \<not> blacklists w k
     then umap_emplace (generate_id (env_hi env) (env_lo env)) fw (dw_failed w) else dw_failed w)"
    and "fw_cql fw = q" "fw_keyspace fw = k"
proof -
  obtain a s1 where src: "conn_execute d (dw_source w) q s = (a, s1)" by force
  obtain b s2 where tgt: "conn_execute d (dw_target w) q s1 = (b, s2)" by force
  have "dw_failed w' =
    (if source_ok r \<and> \<not> target_ok r \<and> \<not> blacklists w k
     then umap_emplace (generate_id (env_hi env) (env_lo env)) (queued_write env q k (what (projl b)))
       (dw_failed w) else dw_failed w)"
    using assms src tgt
    by (auto simp: dual_write_def Let_def case_prod_beta filter_gate_decides frame_simps
        write_source_only_simps write_dual_async_result enqueue_failed split: if_splits)
  moreover have "fw_attempts (queued_write env q k (what (projl b))) = 1"
    "fw_cql (queued_write env q k (what (projl b))) = q"
    "fw_keyspace (queued_write env q k (what (projl b))) = k"
    by (simp_all add: queued_write_def)
  ultimately show ?thesis using that by blast
qed

lemma note_outcome_cases:
  "note_outcome i out muts =
     (if settled out then (fst muts @ [i], snd muts)
      else (fst muts, snd muts @ [(i, case out of FailedAgain fw \<Rightarrow> fw)]))"
  by (cases muts; cases out) auto

lemma busy_ids_note:
  "mset (busy_ids (Working rest (note_outcome i out muts))) = mset (busy_ids (Working ((i, fw) # rest) muts))"
  by (simp add: busy_ids_def note_outcome_cases)

lemma busy_ids_note_simps:
  "distinct (busy_ids (Working rest (note_outcome i out muts))) =
     distinct (busy_ids (Working ((i, fw) # rest) muts))"
  "set (busy_ids (Working rest (note_outcome i out muts))) = set (busy_ids (Working ((i, fw) # rest) muts))"
  using busy_ids_note [of rest i out muts fw] by (blast dest: mset_eq_imp_distinct_iff mset_eq_setD)+

lemma mset_filter_split_off:
  "distinct xs \<Longrightarrow> i \<in> set xs \<Longrightarrow> i \<notin> set rem \<Longrightarrow>
   mset (filter (\<lambda>x. x \<notin> set rem) xs) = add_mset i (mset (filter (\<lambda>x. x \<notin> set (rem @ [i])) xs))"
proof (induction xs)
  case (Cons x xs)
  show ?case
  proof (cases "x = i")
    case True
    then have "filter (\<lambda>x. x \<notin> set (rem @ [i])) xs = filter (\<lambda>x. x \<notin> set rem) xs"
      using Cons.prems by (intro filter_cong) auto
    with True Cons.prems show ?thesis by simp
  next
    case False
    with Cons show ?thesis by simp
  qed
qed simp

definition conserved :: "'w writer_system \<Rightarrow> bool" where
  "conserved y \<longleftrightarrow>
     mset (shadow_failed_ids (sys_events y)) =
       mset (collided_ids (sys_events y)) + mset (settled_ids (sys_events y)) + mset (pending_ids y)"

lemma system_inv_apply:
  assumes "system_inv y" "sys_phase y = Working [] muts"
  shows "umap_keys (retry_apply muts (dw_failed (sys_writer y))) = pending_ids y"
proof -
  have "set (umap_keys (snd muts)) \<subseteq> set (umap_keys (dw_failed (sys_writer y))) - set (fst muts)"
    using assms by (auto simp: system_inv_def busy_ids_def)
  then show ?thesis
    using assms(2) by (simp add: umap_keys_retry_apply pending_ids_def)
qed

lemma write_step_keeps:
  assumes "dual_write env d q k (sys_writer y) (sys_io y) = (r, w', s')" "system_inv y" "conserved y"
    and "y' = y\<lparr>sys_writer := w', sys_io := s',
       sys_events := sys_events y @ write_events env k r (sys_writer y)\<rparr>"
  shows "system_inv y' \<and> conserved y'"
proof -
  let ?w = "sys_writer y" and ?i = "generate_id (env_hi env) (env_lo env)"
  obtain fw where fw: "dw_failed w' =
    (if source_ok r \<and> \<not> target_ok r \<and> \<not> blacklists ?w k
     then umap_emplace ?i fw (dw_failed ?w) else dw_failed ?w)"
    using dual_write_failed [OF assms(1)] by blast
  have "fst (phase_mutations (sys_phase y)) = [] \<or> ?i \<in> set (umap_keys (dw_failed ?w)) \<or>
      ?i \<notin> set (fst (phase_mutations (sys_phase y)))"
    using assms(2) by (auto simp: system_inv_def busy_ids_def)
  then show ?thesis
    using assms(2,3) fw unfolding assms(4)
    by (cases "?i \<in> set (umap_keys (dw_failed ?w))")
      (auto simp: system_inv_def conserved_def pending_ids_def write_events_def Let_def)
qed

lemma retry_step_keeps:
  assumes "sys_phase y = Working ((i, fw) # rest) muts"
    and "retry_one d fw (sys_writer y) (sys_io y) = (out, w', s')" "system_inv y" "conserved y"
    and "y' = y\<lparr>sys_writer := w', sys_io := s', sys_phase := Working rest (note_outcome i out muts),
       sys_events := sys_events y @ [Tried i out]\<rparr>"
  shows "system_inv y' \<and> conserved y'"
proof -
  have failed: "dw_failed w' = dw_failed (sys_writer y)"
    by (rule retry_one_frameD(3) [OF assms(2)])
  have inv: "system_inv y'"
    using assms(1,3) failed busy_ids_note_simps [of rest i out muts fw]
    unfolding assms(5) by (simp add: system_inv_def)
  have i: "i \<in> set (umap_keys (dw_failed (sys_writer y)))" "i \<notin> set (fst muts)"
    "distinct (umap_keys (dw_failed (sys_writer y)))"
    using assms(1,3) by (auto simp: system_inv_def busy_ids_def)
  have "conserved y'"
    using assms(1,4) failed mset_filter_split_off [OF i(3,1,2)]
    unfolding assms(5) by (simp add: conserved_def pending_ids_def note_outcome_cases)
  with inv show ?thesis by simp
qed

lemma writer_step_keeps:
  "writer_step d y y' \<Longrightarrow> system_inv y \<Longrightarrow> conserved y \<Longrightarrow> system_inv y' \<and> conserved y'"
proof (induction rule: writer_step.induct)
  case (client_write env q k y r w' s')
  then show ?case by (rule write_step_keeps) (rule refl)
next
  case (retry_entry y i fw rest muts out w' s')
  then show ?case by (intro retry_step_keeps [OF retry_entry(1,2)]) (assumption | rule refl)+
next
  case (apply_mutations y muts)
  then show ?case
    using system_inv_apply [of y muts]
    by (simp add: system_inv_def conserved_def busy_ids_def pending_ids_def)
qed (simp_all add: system_inv_def conserved_def busy_ids_def pending_ids_def)

lemma system_inv_reachable:
  assumes "(writer_step d)\<^sup>*\<^sup>* (system_start w s) y" "dw_failed w = []"
  shows "system_inv y \<and> conserved y"
  using assms
proof (induction rule: rtranclp_induct)
  case base
  then show ?case
    by (simp add: system_start_def system_inv_def conserved_def busy_ids_def pending_ids_def)
qed (use writer_step_keeps in blast)

subsection \<open>Attempts\<close>

text \<open>Entries carry between one and \<open>max_retries\<close> attempts (one, when that is zero).\<close>

definition attempts_ok :: "u32 \<Rightarrow> failed_write \<Rightarrow> bool" where
  "attempts_ok limit fw \<longleftrightarrow> 1 \<le> unat (fw_attempts fw) \<and> unat (fw_attempts fw) \<le> max 1 (unat limit)"

definition retry_limit :: "dual_writer \<Rightarrow> u32" where
  "retry_limit w = max_retries (dwc_writer (dw_config w))"

definition attempts_inv :: "u32 \<Rightarrow> 'w writer_system \<Rightarrow> bool" where
  "attempts_inv limit y \<longleftrightarrow>
     retry_limit (sys_writer y) = limit \<and>
     (\<forall>fw \<in> snd ` (set (dw_failed (sys_writer y)) \<union> set (phase_todo (sys_phase y)) \<union>
        set (snd (phase_mutations (sys_phase y)))). attempts_ok limit fw)"

lemma set_umap_assign: "set (umap_assign k v m) \<subseteq> insert (k, v) (set m)"
  by (induction k v m rule: umap_assign.induct) auto

lemma set_fold_erase: "set (fold umap_erase rem m) \<subseteq> set m"
proof (induction rem arbitrary: m)
  case (Cons a rem)
  have "set (umap_erase a m) \<subseteq> set m" by (auto simp: set_umap_erase)
  then show ?case using Cons [of "umap_erase a m"] by simp
qed simp

lemma set_fold_assign: "set (fold (\<lambda>(i, fw) m. umap_assign i fw m) upd m) \<subseteq> set upd \<union> set m"
proof (induction upd arbitrary: m)
  case (Cons a upd)
  have "set (umap_assign (fst a) (snd a) m) \<subseteq> insert a (set m)"
    using set_umap_assign [of "fst a" "snd a" m] by simp
  then show ?case
    using Cons [of "umap_assign (fst a) (snd a) m"] by (auto simp: case_prod_beta)
qed simp

lemma set_retry_apply: "set (retry_apply muts m) \<subseteq> set (snd muts) \<union> set m"
  unfolding retry_apply_def using set_fold_assign set_fold_erase by blast

lemma attempts_again:
  assumes "retry_one d fw w s = (FailedAgain fw', w', s')" "attempts_ok (retry_limit w) fw"
  shows "attempts_ok (retry_limit w) fw'"
proof -
  have "unat (fw_attempts fw) < unat (retry_limit w)"
    using retry_one_again(2) [OF assms(1)] by (simp add: retry_limit_def word_less_nat_alt)
  then show ?thesis
    using retry_one_again(1) [OF assms(1)] by (simp add: attempts_ok_def)
qed

lemma attempts_step:
  "writer_step d y y' \<Longrightarrow> attempts_inv limit y \<Longrightarrow> attempts_inv limit y'"
proof (induction rule: writer_step.induct)
  case (client_write env q k y r w' s')
  obtain fw where fw: "fw_attempts fw = 1" "dw_failed w' =
    (if source_ok r \<and> \<not> target_ok r \<and> \<not> blacklists (sys_writer y) k
     then umap_emplace (generate_id (env_hi env) (env_lo env)) fw (dw_failed (sys_writer y))
     else dw_failed (sys_writer y))"
    using dual_write_failed [OF client_write(1)] by blast
  then have "set (dw_failed w') \<subseteq> set (dw_failed (sys_writer y)) \<union> {(generate_id (env_hi env) (env_lo env), fw)}"
    by (auto simp: umap_emplace_def)
  moreover have "attempts_ok limit fw" using fw(1) by (simp add: attempts_ok_def)
  moreover have "retry_limit w' = retry_limit (sys_writer y)"
    using dual_write_frame(1) [of env d q k "sys_writer y" "sys_io y"] client_write(1)
    by (simp add: retry_limit_def)
  ultimately show ?case
    using client_write(2) by (fastforce simp: attempts_inv_def)
next
  case (retry_entry y i fw rest muts out w' s')
  have "attempts_ok limit fw" "retry_limit (sys_writer y) = limit"
    using retry_entry(1,3) by (auto simp: attempts_inv_def)
  then show ?case
    using retry_entry retry_one_frameD [OF retry_entry(2)] attempts_again
    by (cases out) (auto simp: attempts_inv_def note_outcome_cases retry_limit_def)
next
  case (apply_mutations y muts)
  then show ?case
    using set_retry_apply [of muts "dw_failed (sys_writer y)"]
    by (fastforce simp: attempts_inv_def retry_limit_def)
qed (auto simp: attempts_inv_def)

subsection \<open>Cycles without client writes\<close>

lemma retry_entries_frame:
  "retry_entries d todo muts w s = (muts', w', s') \<Longrightarrow>
   dw_config w' = dw_config w \<and> dw_target w' = dw_target w \<and> dw_failed w' = dw_failed w \<and>
   blacklists w' = blacklists w"
proof (induction d todo muts w s rule: retry_entries.induct)
  case (2 d i fw rest muts w s)
  obtain out w1 s1 where one: "retry_one d fw w s = (out, w1, s1)" by (metis prod_cases3)
  then show ?case
    using 2 retry_one_frameD [OF one] by (simp add: fun_eq_iff)
qed simp

text \<open>The driver calls one retry makes.\<close>

definition retry_calls :: "dual_writer \<Rightarrow> failed_write \<Rightarrow> cass_call list" where
  "retry_calls w fw =
     (if retry_limit w \<le> fw_attempts fw \<or> blacklists w (fw_keyspace fw) then []
      else exec_calls (dw_target w) (fw_cql fw))"

lemma retry_entries_calls:
  "retry_entries d todo muts w s = (muts', w', s') \<Longrightarrow>
   io_calls s' = io_calls s @ concat (map (\<lambda>(_, fw). retry_calls w fw) todo)"
proof (induction d todo muts w s rule: retry_entries.induct)
  case (2 d i fw rest muts w s)
  obtain out w1 s1 where one: "retry_one d fw w s = (out, w1, s1)" by (metis prod_cases3)
  have "retry_calls w1 = retry_calls w"
    using retry_one_frameD [OF one] by (simp add: fun_eq_iff retry_calls_def retry_limit_def)
  then show ?case
    using 2 one retry_one_calls [of d fw w s] by (simp add: retry_calls_def retry_limit_def)
qed simp

lemma retry_entries_busy:
  "retry_entries d todo muts w s = (muts', w', s') \<Longrightarrow>
   mset (busy_ids (Working [] muts')) = mset (busy_ids (Working todo muts))"
proof (induction d todo muts w s rule: retry_entries.induct)
  case (2 d i fw rest muts w s)
  obtain out w1 s1 where one: "retry_one d fw w s = (out, w1, s1)" by (metis prod_cases3)
  then show ?case using 2 busy_ids_note [of rest i out muts fw] by simp
qed simp

text \<open>Entries that a cycle keeps have been tried once more.\<close>

definition tried_again :: "u32 \<Rightarrow> failed_write set \<Rightarrow> failed_write \<Rightarrow> bool" where
  "tried_again limit fws fw' \<longleftrightarrow>
     (\<exists>fw \<in> fws. unat (fw_attempts fw') = Suc (unat (fw_attempts fw)) \<and>
        unat (fw_attempts fw) < unat limit)"

lemma retry_entries_kept:
  "retry_entries d todo muts w s = (muts', w', s') \<Longrightarrow> p \<in> set (snd muts') \<Longrightarrow>
   p \<in> set (snd muts) \<or> tried_again (retry_limit w) (snd ` set todo) (snd p)"
proof (induction d todo muts w s rule: retry_entries.induct)
  case (2 d i fw rest muts w s)
  obtain out w1 s1 where one: "retry_one d fw w s = (out, w1, s1)" by (metis prod_cases3)
  have lim: "retry_limit w1 = retry_limit w"
    using retry_one_frameD(1) [OF one] by (simp add: retry_limit_def)
  have "p \<in> set (snd (note_outcome i out muts)) \<or> tried_again (retry_limit w) (snd ` set rest) (snd p)"
    using 2 one lim by simp
  moreover have "tried_again (retry_limit w) {fw} fw'" if "out = FailedAgain fw'" for fw'
    using retry_one_again [of d fw w s fw' w1 s1] one that
    by (simp add: tried_again_def retry_limit_def word_less_nat_alt)
  ultimately show ?case
    by (cases out) (auto simp: note_outcome_cases tried_again_def)
qed simp

lemma retry_cycle_kept:
  assumes "retry_cycle d w s = (w', s')" "distinct (umap_keys (dw_failed w))"
  shows "distinct (umap_keys (dw_failed w')) \<and> retry_limit w' = retry_limit w \<and>
    (\<forall>fw' \<in> snd ` set (dw_failed w'). tried_again (retry_limit w) (snd ` set (dw_failed w)) fw')"
proof (cases "dw_failed w = []")
  case True
  with assms show ?thesis by (simp add: retry_cycle_def)
next
  case False
  obtain muts w1 s1 where run: "retry_entries d (dw_failed w) ([], []) w s = (muts, w1, s1)"
    by (metis prod_cases3)
  have w': "dw_failed w' = retry_apply muts (dw_failed w)" "retry_limit w' = retry_limit w"
    using assms(1) False run retry_entries_frame [OF run]
    by (auto simp: retry_cycle_def retry_limit_def)
  have busy: "mset (fst muts @ umap_keys (snd muts)) = mset (umap_keys (dw_failed w))"
    using retry_entries_busy [OF run] by (simp add: busy_ids_def)
  have distinct: "distinct (fst muts @ umap_keys (snd muts))"
    using assms(2) mset_eq_imp_distinct_iff [OF busy] by simp
  have keys: "set (fst muts) \<union> set (umap_keys (snd muts)) = set (umap_keys (dw_failed w))"
    using mset_eq_setD [OF busy] by simp
  have d': "distinct (umap_keys (dw_failed w'))"
    using distinct keys assms(2) w'(1) by (subst w'(1), subst umap_keys_retry_apply) auto
  have kept: "p \<in> set (snd muts)" if "p \<in> set (dw_failed w')" for p
  proof -
    have p: "map_of (retry_apply muts (dw_failed w)) (fst p) = Some (snd p)"
      using that d' w'(1) by (simp add: umap_keys_def)
    have "fst p \<in> set (fst muts) \<union> set (umap_keys (snd muts)) \<or> map_of (dw_failed w) (fst p) = None"
      unfolding keys by (simp add: umap_keys_def map_of_eq_None_iff)
    then have "map_of (snd muts) (fst p) = Some (snd p)"
      using p distinct map_of_retry_apply [of muts "dw_failed w" "fst p"]
      by (auto simp: umap_keys_def split: option.splits if_splits)
    then show ?thesis by (metis map_of_SomeD prod.collapse)
  qed
  then show ?thesis
    using retry_entries_kept [OF run] d' w'(2) by fastforce
qed

lemma retry_cycles_attempts:
  assumes "retry_cycles n d w s = (w', s')" "distinct (umap_keys (dw_failed w))"
    and "\<forall>fw \<in> snd ` set (dw_failed w). m \<le> unat (fw_attempts fw) \<and> attempts_ok (retry_limit w) fw"
  shows "\<forall>fw \<in> snd ` set (dw_failed w'). m + n \<le> unat (fw_attempts fw) \<and> attempts_ok (retry_limit w) fw"
  using assms
proof (induction n arbitrary: w s m)
  case (Suc n)
  obtain w1 s1 where one: "retry_cycle d w s = (w1, s1)" by force
  note kept = retry_cycle_kept [OF one Suc.prems(2)]
  have "\<forall>fw \<in> snd ` set (dw_failed w1). Suc m \<le> unat (fw_attempts fw) \<and> attempts_ok (retry_limit w1) fw"
    using kept Suc.prems(3) unfolding tried_again_def attempts_ok_def by fastforce
  then show ?case
    using Suc.IH [of w1 s1 "Suc m"] Suc.prems(1) one kept by simp
qed simp

section \<open>Properties\<close>

subsection \<open>Example\<close>

text \<open>The system of the example writer after one write whose shadow write fails.\<close>

definition example_queued :: "nat writer_system" where
  "example_queued =
     (let w = example_writer; q = ''UPDATE ks.t SET a = 1''; y = system_start w io_start;
          (r, w', s') = dual_write example_env example_down q ''ks.t'' w io_start
      in y\<lparr>sys_writer := w', sys_io := s',
           sys_events := sys_events y @ write_events example_env ''ks.t'' r w\<rparr>)"

lemma example_queued_reachable:
  "(writer_step example_down)\<^sup>*\<^sup>* (system_start example_writer io_start) example_queued"
proof -
  obtain r w' s' where "dual_write example_env example_down ''UPDATE ks.t SET a = 1'' ''ks.t''
      example_writer io_start = (r, w', s')" by (metis prod_cases3)
  then have "writer_step example_down (system_start example_writer io_start) example_queued"
    using client_write [of example_env example_down "''UPDATE ks.t SET a = 1''" "''ks.t''"
        "system_start example_writer io_start" r w' s']
    by (simp add: example_queued_def system_start_def Let_def)
  then show ?thesis by simp
qed

lemma example_queued_failed:
  "dw_failed (sys_writer example_queued) =
     [(generate_id 1 2, queued_write example_env ''UPDATE ks.t SET a = 1'' ''ks.t''
        (what (DatabaseError ''Query execution failed: down'')))]"
  by (simp add: example_queued_def dual_write_def Let_def filter_gate_def write_dual_async_def
      conn_execute_def enqueue_failed frame_simps example_simps)

lemma example_queued_phase:
  "sys_phase example_queued = Sleeping 0"
  "dw_config (sys_writer example_queued) = example_writer_config"
  by (simp_all add: example_queued_def system_start_def Let_def case_prod_beta frame_simps
      example_simps)

lemma example_queued_ids: "length (pending_ids example_queued) = 1"
  by (simp add: pending_ids_def example_queued_failed example_queued_phase)

text \<open>No shadow write is lost, whatever the interleaving of client writes with the retry
  thread: in every reachable state, the writes whose shadow write failed are exactly those
  that the retry loop has settled (executed on the target, abandoned after the last attempt,
  or dropped because the table is blacklisted), those still pending in the queue, and those
  refused at once because their random id was already in the queue. In particular an
  \<open>emplace\<close> between the snapshot and the mutations of a cycle survives them.\<close>

lemma shadow_writes_conserved:
  assumes "(writer_step d)\<^sup>*\<^sup>* (system_start (dual_writer_new cfg src tgt flt mtr) s) y"
  shows "mset (shadow_failed_ids (sys_events y)) =
    mset (settled_ids (sys_events y)) + mset (pending_ids y) + mset (collided_ids (sys_events y))"
  using system_inv_reachable [OF assms]
  by (simp add: conserved_def dual_writer_new_def)

text \<open>C22. Attempts stay within the limit in every reachable state: an entry of the queue has
  made at least one attempt and at most \<open>max_retries\<close> (at most one when that is zero), so the
  32-bit counter never wraps.\<close>

theorem attempts_bounded:
  assumes "(writer_step d)\<^sup>*\<^sup>* (system_start (dual_writer_new cfg src tgt flt mtr) s) y"
    and "(i, fw) \<in> set (dw_failed (sys_writer y))"
  shows "1 \<le> unat (fw_attempts fw) \<and> unat (fw_attempts fw) \<le> max 1 (unat (max_retries (dwc_writer cfg)))"
proof -
  have "attempts_inv (max_retries (dwc_writer cfg)) y"
    using assms(1)
  proof (induction rule: rtranclp_induct)
    case base
    then show ?case
      by (simp add: attempts_inv_def system_start_def dual_writer_new_def retry_limit_def)
  qed (rule attempts_step)
  then show ?thesis
    using assms(2) by (force simp: attempts_inv_def attempts_ok_def)
qed

theorem attempts_bounded_witness:
  "\<exists>i fw. (i, fw) \<in> set (dw_failed (sys_writer example_queued)) \<and> unat (fw_attempts fw) \<le> 3"
proof -
  obtain i fw where fw: "(i, fw) \<in> set (dw_failed (sys_writer example_queued))"
    using example_queued_failed by simp
  have "unat (max_retries (dwc_writer example_writer_config)) = 3"
    by (simp add: example_writer_config_def default_writer_config_def)
  then show ?thesis
    using attempts_bounded [OF example_queued_reachable [unfolded example_writer_def] fw] fw by auto
qed

text \<open>C9. The queue drains: without further client writes, and however the target answers,
  \<open>max_retries\<close> cycles (one when that is zero) leave the queue empty. Every entry is
  retried successfully, dropped or abandoned by then.\<close>

theorem retry_queue_drains:
  assumes "distinct (umap_keys (dw_failed w))"
    and "\<forall>(i, fw) \<in> set (dw_failed w). 1 \<le> unat (fw_attempts fw) \<and>
      unat (fw_attempts fw) \<le> max 1 (unat (max_retries (dwc_writer (dw_config w))))"
    and "max 1 (unat (max_retries (dwc_writer (dw_config w)))) \<le> n"
  shows "dw_failed (fst (retry_cycles n d w s)) = []"
proof (rule ccontr)
  assume left: "dw_failed (fst (retry_cycles n d w s)) \<noteq> []"
  have "\<forall>fw \<in> snd ` set (dw_failed w). 1 \<le> unat (fw_attempts fw) \<and> attempts_ok (retry_limit w) fw"
    using assms(2) by (auto simp: attempts_ok_def retry_limit_def)
  then have "\<forall>fw \<in> snd ` set (dw_failed (fst (retry_cycles n d w s))).
      1 + n \<le> unat (fw_attempts fw) \<and> attempts_ok (retry_limit w) fw"
    by (intro retry_cycles_attempts [OF prod.collapse [symmetric] assms(1)])
  then obtain fw where "1 + n \<le> unat (fw_attempts fw)" "attempts_ok (retry_limit w) fw"
    using left by (cases "dw_failed (fst (retry_cycles n d w s))") auto
  then show False
    using assms(3) by (simp add: attempts_ok_def retry_limit_def max_def split: if_splits)
qed

theorem retry_queue_drains_witness:
  "dw_failed (fst (retry_cycles 3 example_down (sys_writer example_queued) io_start)) = []"
  by (rule retry_queue_drains)
    (simp_all add: example_queued_failed example_queued_phase queued_write_def
      example_writer_config_def default_writer_config_def)

text \<open>C25. What one retry cycle sends: one execution on the target's session per entry of the
  queue, in the order of the snapshot, except for entries whose attempts are used up and
  entries whose table is blacklisted, for which nothing is sent; there is no other driver call,
  whatever the target answers.\<close>

theorem retry_cycle_target_calls:
  "io_calls (snd (retry_cycle d w s)) = io_calls s @
     concat (map (\<lambda>(i, fw).
       if max_retries (dwc_writer (dw_config w)) \<le> fw_attempts fw \<or> blacklists w (fw_keyspace fw)
       then [] else exec_calls (dw_target w) (fw_cql fw)) (dw_failed w))"
proof (cases "dw_failed w = []")
  case False
  obtain muts w1 s1 where run: "retry_entries d (dw_failed w) ([], []) w s = (muts, w1, s1)"
    by (metis prod_cases3)
  with False show ?thesis
    using retry_entries_calls [OF run] by (simp add: retry_cycle_def retry_calls_def retry_limit_def)
qed (simp add: retry_cycle_def)

end
