(* ===== verification/Shadow_Spec.thy ===== *)
theory Shadow_Spec
  imports Dual_Writer_Retry
begin

text \<open>
  What the dual writer promises about failed shadow writes, as an abstract machine, and the
  proof that the writer with its retry thread (\<open>writer_step\<close>) implements it.

  The machine keeps the statements still owed to the target, by id. It knows nothing of
  snapshots, deferred removals, attempts and rules: a statement falls due when the target
  misses it, and is settled by a delivery or given up.
\<close>

section \<open>The specification\<close>

record shadow_state =
  sp_owed :: "string \<rightharpoonup> string \<times> string"
  sp_used :: "string set"
  sp_calls :: "cass_call list"
  sp_events :: "queue_event list"

inductive shadow_step ::
  "scylla_connection \<Rightarrow> scylla_connection \<Rightarrow> shadow_state \<Rightarrow> shadow_state \<Rightarrow> bool" for src tgt where
  source_only:
    "shadow_step src tgt a (a\<lparr>sp_calls := sp_calls a @ exec_calls src q\<rparr>)"
| mirrored:
    "live src \<Longrightarrow> shadow_step src tgt a (a\<lparr>sp_calls := sp_calls a @ exec_calls src q @ exec_calls tgt q\<rparr>)"
| falls_due:
    "live src \<Longrightarrow> sp_owed a i = None \<Longrightarrow>
     shadow_step src tgt a (a\<lparr>sp_owed := (sp_owed a)(i \<mapsto> (q, k)), sp_used := insert i (sp_used a),
       sp_calls := sp_calls a @ exec_calls src q @ exec_calls tgt q,
       sp_events := sp_events a @ [ShadowFailed i]\<rparr>)"
| collides:
    "live src \<Longrightarrow> i \<in> sp_used a \<Longrightarrow>
     shadow_step src tgt a (a\<lparr>sp_calls := sp_calls a @ exec_calls src q @ exec_calls tgt q,
       sp_events := sp_events a @ [ShadowFailed i, Collided i]\<rparr>)"
| delivered:
    "sp_owed a i = Some (q, k) \<Longrightarrow>
     shadow_step src tgt a (a\<lparr>sp_owed := (sp_owed a)(i := None),
       sp_calls := sp_calls a @ exec_calls tgt q, sp_events := sp_events a @ [Tried i Succeeded]\<rparr>)"
| still_owed:
    "sp_owed a i = Some (q, k) \<Longrightarrow> fw_cql fw = q \<Longrightarrow>
     shadow_step src tgt a (a\<lparr>sp_calls := sp_calls a @ exec_calls tgt q,
       sp_events := sp_events a @ [Tried i (FailedAgain fw)]\<rparr>)"
| given_up:
    "sp_owed a i = Some (q, k) \<Longrightarrow> out \<in> {Abandoned, NowBlacklisted} \<Longrightarrow>
     shadow_step src tgt a (a\<lparr>sp_owed := (sp_owed a)(i := None),
       sp_events := sp_events a @ [Tried i out]\<rparr>)"

definition shadow_start :: "cass_call list \<Rightarrow> shadow_state" where
  "shadow_start calls = \<lparr>sp_owed = Map.empty, sp_used = {}, sp_calls = calls, sp_events = []\<rparr>"

text \<open>The statements the writer owes: those in the queue whose removal is not yet decided.\<close>

definition fw_statement :: "failed_write \<Rightarrow> string \<times> string" where
  "fw_statement fw = (fw_cql fw, fw_keyspace fw)"

definition owed_by_writer :: "'w writer_system \<Rightarrow> string \<rightharpoonup> string \<times> string" where
  "owed_by_writer y =
     (\<lambda>i. if i \<in> set (fst (phase_mutations (sys_phase y))) then None
          else map_option fw_statement (map_of (dw_failed (sys_writer y)) i))"

definition shadow_of :: "'w writer_system \<Rightarrow> shadow_state" where
  "shadow_of y =
     \<lparr>sp_owed = owed_by_writer y, sp_used = set (shadow_failed_ids (sys_events y)),
      sp_calls = io_calls (sys_io y), sp_events = sys_events y\<rparr>"

lemma dom_owed: "dom (owed_by_writer y) = set (pending_ids y)"
  by (auto simp: owed_by_writer_def pending_ids_def umap_keys_def dom_map_of_conv_image_fst [symmetric]
      split: if_splits)

section \<open>The invariant of the writer\<close>

text \<open>Beside the invariant of the retry thread: a snapshot entry and a noted update carry the
  statement of the queue entry with their id, and queued ids have been used.\<close>

definition statements_agree :: "'w writer_system \<Rightarrow> bool" where
  "statements_agree y \<longleftrightarrow>
     (\<forall>(i, fw) \<in> set (phase_todo (sys_phase y)) \<union> set (snd (phase_mutations (sys_phase y))).
        map_option fw_statement (map_of (dw_failed (sys_writer y)) i) = Some (fw_statement fw))"

definition refine_inv :: "scylla_connection \<Rightarrow> scylla_connection \<Rightarrow> 'w writer_system \<Rightarrow> bool" where
  "refine_inv src tgt y \<longleftrightarrow>
     system_inv y \<and> conserved y \<and> statements_agree y \<and> dw_source (sys_writer y) = src \<and>
     dw_target (sys_writer y) = tgt \<and>
     set (umap_keys (dw_failed (sys_writer y))) \<subseteq> set (shadow_failed_ids (sys_events y))"

lemma map_of_emplace_keeps: "map_of m i = Some v \<Longrightarrow> map_of (umap_emplace k x m) i = Some v"
  by (simp add: umap_emplace_def map_add_def)

lemmas refine_defs = refine_inv_def statements_agree_def

lemma retry_one_sourceD:
  "retry_one d fw w s = (out, w', s') \<Longrightarrow> dw_source w' = dw_source w"
  by (auto simp: retry_one_def Let_def case_prod_beta frame_simps count_abandoned_def count_retried_def
      split: if_splits sum.splits prod.splits)

lemma dual_write_frameD:
  assumes "dual_write env d q k w s = (r, w', s')"
  shows "dw_source w' = dw_source w" "dw_target w' = dw_target w"
  using dual_write_frame [of env d q k w s] assms by simp_all


subsection \<open>Client writes\<close>

text \<open>What a write does to the queue: nothing, or one \<open>emplace\<close>.\<close>

lemma quiet_keeps:
  assumes inv: "refine_inv src tgt y" and y': "y' = y\<lparr>sys_writer := w', sys_io := s'\<rparr>"
    and "dw_failed w' = dw_failed (sys_writer y)" "dw_source w' = dw_source (sys_writer y)"
      "dw_target w' = dw_target (sys_writer y)"
  shows "refine_inv src tgt y' \<and> owed_by_writer y' = owed_by_writer y"
  using assms
  by (auto simp: refine_defs system_inv_def conserved_def pending_ids_def owed_by_writer_def cong: if_cong)

lemma queue_keeps:
  assumes inv: "refine_inv src tgt y"
    and y': "y' = y\<lparr>sys_writer := w', sys_io := s', sys_events := sys_events y @ ShadowFailed i #
      (if i \<in> set (umap_keys (dw_failed (sys_writer y))) then [Collided i] else [])\<rparr>"
    and w': "dw_failed w' = umap_emplace i fw (dw_failed (sys_writer y))"
      "dw_source w' = dw_source (sys_writer y)" "dw_target w' = dw_target (sys_writer y)"
  shows "refine_inv src tgt y'"
    and "owed_by_writer y' =
      (if i \<in> set (umap_keys (dw_failed (sys_writer y))) then owed_by_writer y
       else (owed_by_writer y)(i \<mapsto> fw_statement fw))"
proof -
  let ?m = "dw_failed (sys_writer y)"
  have removed: "i \<notin> set (fst (phase_mutations (sys_phase y)))" if "i \<notin> set (umap_keys ?m)"
    using that inv by (auto simp: refine_inv_def system_inv_def busy_ids_def)
  then show "owed_by_writer y' =
      (if i \<in> set (umap_keys ?m) then owed_by_writer y else (owed_by_writer y)(i \<mapsto> fw_statement fw))"
    using map_of_umap_emplace [of i fw ?m] by (auto simp: owed_by_writer_def y' w' fun_eq_iff)
  have "system_inv y' \<and> conserved y'"
    using inv removed w'(1) unfolding y'
    by (cases "i \<in> set (umap_keys ?m)") (auto simp: refine_inv_def system_inv_def conserved_def pending_ids_def)
  moreover have "map_of (dw_failed w') j = Some v" if "map_of ?m j = Some v" for j v
    using that w'(1) by (simp add: map_of_emplace_keeps)
  then have "statements_agree y'"
    using inv unfolding y' by (fastforce simp: refine_defs)
  ultimately show "refine_inv src tgt y'"
    using inv w' unfolding y' by (auto simp: refine_inv_def umap_emplace_def umap_keys_def)
qed

text \<open>A whole write is one or the other.\<close>

lemma write_queues:
  assumes step: "dual_write env d q k (sys_writer y) (sys_io y) = (r, w', s')" and inv: "refine_inv src tgt y"
    and y': "y' = y\<lparr>sys_writer := w', sys_io := s',
       sys_events := sys_events y @ write_events env k r (sys_writer y)\<rparr>"
    and i: "i = generate_id (env_hi env) (env_lo env)"
  shows "refine_inv src tgt y'" (is ?inv)
    and "owed_by_writer y' =
    (if source_ok r \<and> \<not> target_ok r \<and> \<not> blacklists (sys_writer y) k \<and>
        i \<notin> set (umap_keys (dw_failed (sys_writer y)))
     then (owed_by_writer y)(i \<mapsto> (q, k)) else owed_by_writer y)" (is ?owed)
proof -
  let ?w = "sys_writer y"
  obtain fw where fw: "dw_failed w' =
    (if source_ok r \<and> \<not> target_ok r \<and> \<not> blacklists ?w k then umap_emplace i fw (dw_failed ?w)
     else dw_failed ?w)" "fw_statement fw = (q, k)"
    using dual_write_failed [OF step] i by (metis fw_statement_def)
  note frame = dual_write_frameD [OF step]
  have "?inv \<and> ?owed"
  proof (cases "source_ok r \<and> \<not> target_ok r \<and> \<not> blacklists ?w k")
    case False
    then show ?thesis using quiet_keeps [OF inv _ _ frame, of y' s'] fw(1) by (auto simp: y' write_events_def)
  next
    case True
    have y'': "y' = y\<lparr>sys_writer := w', sys_io := s', sys_events := sys_events y @ ShadowFailed i #
        (if i \<in> set (umap_keys (dw_failed ?w)) then [Collided i] else [])\<rparr>"
      using True by (simp add: y' write_events_def i Let_def)
    show ?thesis using queue_keeps [OF inv y'' _ frame, of fw] fw True by simp
  qed
  then show ?inv ?owed by blast+
qed

lemma source_ok_live:
  assumes "dual_write env d q k w s = (r, w', s')" "source_ok r"
  shows "live (dw_source w)"
proof -
  obtain a s1 where src: "conn_execute d (dw_source w) q s = (a, s1)" by force
  obtain b s2 where tgt: "conn_execute d (dw_target w) q s1 = (b, s2)" by force
  have "\<not> isl a"
    using assms src tgt
    by (auto simp: dual_write_def Let_def case_prod_beta filter_gate_decides frame_simps
        write_source_only_simps write_dual_async_result split: if_splits)
  then show ?thesis
    using src execute_ok_live [of d "dw_source w" q s] by simp
qed

lemma write_simulates:
  assumes step: "dual_write env d q k (sys_writer y) (sys_io y) = (r, w', s')" and inv: "refine_inv src tgt y"
    and y': "y' = y\<lparr>sys_writer := w', sys_io := s',
       sys_events := sys_events y @ write_events env k r (sys_writer y)\<rparr>"
  shows "shadow_step src tgt (shadow_of y) (shadow_of y')"
proof -
  let ?w = "sys_writer y" and ?i = "generate_id (env_hi env) (env_lo env)" and ?a = "shadow_of y"
  obtain fw where fw: "dw_failed w' =
    (if source_ok r \<and> \<not> target_ok r \<and> \<not> blacklists ?w k
     then umap_emplace ?i fw (dw_failed ?w) else dw_failed ?w)"
    using dual_write_failed [OF step] by blast
  have conns: "dw_source ?w = src" "dw_target ?w = tgt"
    "set (umap_keys (dw_failed ?w)) \<subseteq> set (shadow_failed_ids (sys_events y))"
    using inv by (simp_all add: refine_inv_def)
  have calls: "io_calls s' = io_calls (sys_io y) @ exec_calls src q @
      (if source_ok r \<and> \<not> blacklists ?w k then exec_calls tgt q else [])"
    using dual_write_history [of env d q k ?w "sys_io y"] step conns by simp
  note simps = shadow_of_def owed_by_writer_def write_events_def y' calls fw
  consider (src) "\<not> (source_ok r \<and> \<not> blacklists ?w k)"
    | (both) "source_ok r" "target_ok r" "\<not> blacklists ?w k"
    | (collision) "source_ok r" "\<not> target_ok r" "\<not> blacklists ?w k" "?i \<in> set (umap_keys (dw_failed ?w))"
    | (due) "source_ok r" "\<not> target_ok r" "\<not> blacklists ?w k" "?i \<notin> set (umap_keys (dw_failed ?w))"
    by blast
  then show ?thesis
  proof cases
    case src
    then have "shadow_of y' = ?a\<lparr>sp_calls := sp_calls ?a @ exec_calls src q\<rparr>" by (auto simp: simps)
    then show ?thesis by (metis source_only)
  next
    case both
    then have "shadow_of y' = ?a\<lparr>sp_calls := sp_calls ?a @ exec_calls src q @ exec_calls tgt q\<rparr>"
      by (auto simp: simps)
    then show ?thesis using source_ok_live [OF step both(1)] conns by (metis mirrored)
  next
    case collision
    then have "shadow_of y' = ?a\<lparr>sp_calls := sp_calls ?a @ exec_calls src q @ exec_calls tgt q,
        sp_events := sp_events ?a @ [ShadowFailed ?i, Collided ?i]\<rparr>"
      using conns(3) by (auto simp: simps Let_def map_of_umap_emplace)
    moreover have "?i \<in> sp_used ?a" using collision conns(3) by (auto simp: shadow_of_def)
    ultimately show ?thesis using source_ok_live [OF step collision(1)] conns by (metis collides)
  next
    case due
    then have none: "map_of (dw_failed ?w) ?i = None" by (simp add: umap_keys_def map_of_eq_None_iff)
    have "shadow_of y' = ?a\<lparr>sp_owed := (sp_owed ?a)(?i \<mapsto> (q, k)), sp_used := insert ?i (sp_used ?a),
        sp_calls := sp_calls ?a @ exec_calls src q @ exec_calls tgt q,
        sp_events := sp_events ?a @ [ShadowFailed ?i]\<rparr>"
      using due write_queues(2) [OF step inv y' refl] by (simp add: shadow_of_def write_events_def y' calls Let_def)
    moreover have "sp_owed ?a ?i = None" using none by (simp add: shadow_of_def owed_by_writer_def)
    ultimately show ?thesis using source_ok_live [OF step due(1)] conns by (metis falls_due)
  qed
qed

subsection \<open>Steps of the retry thread\<close>

lemma retry_keeps:
  assumes phase: "sys_phase y = Working ((i, fw) # rest) muts"
    and step: "retry_one d fw (sys_writer y) (sys_io y) = (out, w', s')" and inv: "refine_inv src tgt y"
    and y': "y' = y\<lparr>sys_writer := w', sys_io := s', sys_phase := Working rest (note_outcome i out muts),
       sys_events := sys_events y @ [Tried i out]\<rparr>"
  shows "refine_inv src tgt y'"
proof -
  have "system_inv y' \<and> conserved y'"
    using inv by (intro retry_step_keeps [OF phase step _ _ y']) (simp_all add: refine_inv_def)
  moreover have "statements_agree y'"
    using inv phase retry_one_frameD(3) [OF step] retry_one_again(3,4) [of d fw _ _ _ w' s']
      step unfolding y'
    by (cases out) (auto simp: refine_defs note_outcome_cases fw_statement_def)
  ultimately show ?thesis
    using inv retry_one_frameD [OF step] retry_one_sourceD [OF step] unfolding y'
    by (cases "settled out") (auto simp: refine_inv_def)
qed

lemma retry_one_result:
  assumes "retry_one d fw w s = (out, w', s')"
  shows "io_calls s' = io_calls s @ (if out \<in> {Abandoned, NowBlacklisted} then [] else exec_calls (dw_target w) (fw_cql fw))"
  using assms io_calls_execute [of d "dw_target w" "fw_cql fw" s]
  by (auto simp: retry_one_def Let_def case_prod_beta frame_simps split: if_splits sum.splits prod.splits)

lemma retry_owed:
  assumes phase: "sys_phase y = Working ((i, fw) # rest) muts"
    and step: "retry_one d fw (sys_writer y) (sys_io y) = (out, w', s')" and inv: "refine_inv src tgt y"
    and y': "y' = y\<lparr>sys_writer := w', sys_io := s', sys_phase := Working rest (note_outcome i out muts),
       sys_events := sys_events y @ [Tried i out]\<rparr>"
  shows "owed_by_writer y i = Some (fw_statement fw)"
    and "owed_by_writer y' = (if settled out then (owed_by_writer y)(i := None) else owed_by_writer y)"
proof -
  have "i \<notin> set (fst muts)"
    using inv phase by (auto simp: refine_inv_def system_inv_def busy_ids_def)
  then show "owed_by_writer y i = Some (fw_statement fw)"
    using inv phase by (simp add: owed_by_writer_def refine_defs)
  show "owed_by_writer y' = (if settled out then (owed_by_writer y)(i := None) else owed_by_writer y)"
    using phase retry_one_frameD(3) [OF step]
    by (auto simp: owed_by_writer_def y' note_outcome_cases fun_eq_iff)
qed

lemma retry_simulates:
  assumes phase: "sys_phase y = Working ((i, fw) # rest) muts"
    and step: "retry_one d fw (sys_writer y) (sys_io y) = (out, w', s')" and inv: "refine_inv src tgt y"
    and y': "y' = y\<lparr>sys_writer := w', sys_io := s', sys_phase := Working rest (note_outcome i out muts),
       sys_events := sys_events y @ [Tried i out]\<rparr>"
  shows "shadow_step src tgt (shadow_of y) (shadow_of y')"
proof -
  let ?a = "shadow_of y"
  note retry = retry_owed [OF phase step inv y']
  have owed: "sp_owed ?a i = Some (fw_cql fw, fw_keyspace fw)"
    using retry(1) by (simp add: shadow_of_def fw_statement_def)
  have "dw_target (sys_writer y) = tgt" using inv by (simp add: refine_inv_def)
  then have calls: "io_calls s' = io_calls (sys_io y) @
      (if out \<in> {Abandoned, NowBlacklisted} then [] else exec_calls tgt (fw_cql fw))"
    using retry_one_result [OF step] by simp
  have abs: "shadow_of y' = ?a\<lparr>sp_owed := (if settled out then (sp_owed ?a)(i := None) else sp_owed ?a),
      sp_calls := io_calls s', sp_events := sp_events ?a @ [Tried i out]\<rparr>"
    using retry(2) by (simp add: shadow_of_def y')
  show ?thesis
  proof (cases out)
    case Succeeded
    then show ?thesis using delivered [OF owed] abs calls by (simp add: shadow_of_def)
  next
    case (FailedAgain fw')
    then show ?thesis
      using still_owed [OF owed retry_one_again(3) [OF step [unfolded FailedAgain]]] abs calls
      by (simp add: shadow_of_def)
  qed (use given_up [OF owed, of out src tgt] abs calls in \<open>simp_all add: shadow_of_def\<close>)
qed

lemma apply_keeps:
  assumes phase: "sys_phase y = Working [] muts" and inv: "refine_inv src tgt y"
    and y': "y' = y\<lparr>sys_writer := (sys_writer y)\<lparr>dw_failed := retry_apply muts (dw_failed (sys_writer y))\<rparr>,
       sys_phase := Sleeping 0\<rparr>"
  shows "refine_inv src tgt y' \<and> shadow_of y' = shadow_of y"
proof -
  have sys: "system_inv y" "conserved y" using inv by (simp_all add: refine_inv_def)
  have "system_inv y' \<and> conserved y'"
    unfolding y' by (rule writer_step_keeps [OF apply_mutations [OF phase] sys])
  moreover have "umap_keys (dw_failed (sys_writer y')) = pending_ids y"
    using system_inv_apply [OF _ phase] inv by (simp add: refine_inv_def y')
  moreover have "owed_by_writer y' = owed_by_writer y"
  proof
    fix j
    have dist: "distinct (umap_keys (snd muts))" "set (fst muts) \<inter> set (umap_keys (snd muts)) = {}"
      using inv phase by (auto simp: refine_inv_def system_inv_def busy_ids_def)
    show "owed_by_writer y' j = owed_by_writer y j"
    proof (cases "map_of (snd muts) j")
      case None
      then show ?thesis using phase by (simp add: owed_by_writer_def y' map_of_retry_apply [OF dist(1)])
    next
      case (Some fw)
      then have "(j, fw) \<in> set (snd muts)" by (rule map_of_SomeD)
      then have "j \<notin> set (fst muts)" "map_option fw_statement (map_of (dw_failed (sys_writer y)) j) = Some (fw_statement fw)"
        using dist(2) inv phase by (force simp: umap_keys_def, force simp: refine_defs)
      then show ?thesis
        using Some phase by (auto simp: owed_by_writer_def y' map_of_retry_apply [OF dist(1)])
    qed
  qed
  ultimately show ?thesis
    using inv by (auto simp: refine_defs shadow_of_def pending_ids_def y')
qed

text \<open>Steps that only move the retry thread while it decides nothing.\<close>

lemma phase_keeps:
  assumes "refine_inv src tgt y" "sys_phase y = Sleeping e" "y' = y\<lparr>sys_phase := p\<rparr>"
    and p: "p = Working (dw_failed (sys_writer y)) ([], []) \<or> phase_todo p = [] \<and> phase_mutations p = ([], [])"
  shows "refine_inv src tgt y' \<and> shadow_of y' = shadow_of y"
proof -
  have "map_of (dw_failed (sys_writer y)) i = Some fw" if "(i, fw) \<in> set (dw_failed (sys_writer y))" for i fw
    using that assms(1) by (intro map_of_is_SomeI) (simp_all add: refine_inv_def system_inv_def umap_keys_def)
  then have "statements_agree y'"
    using p unfolding assms(3) by (auto simp: statements_agree_def)
  then show ?thesis
    using assms(1,2) p unfolding assms(3)
    by (auto simp: refine_inv_def system_inv_def conserved_def busy_ids_def pending_ids_def shadow_of_def
        owed_by_writer_def cong: if_cong)
qed

lemma stop_keeps:
  "refine_inv src tgt y \<Longrightarrow>
   refine_inv src tgt (y\<lparr>sys_stop := b\<rparr>) \<and> shadow_of (y\<lparr>sys_stop := b\<rparr>) = shadow_of y"
  by (simp add: refine_defs system_inv_def conserved_def pending_ids_def shadow_of_def owed_by_writer_def
      cong: if_cong)

subsection \<open>The refinement\<close>

lemma writer_step_refines:
  assumes "writer_step d y y'" "refine_inv src tgt y"
  shows "refine_inv src tgt y' \<and> (shadow_step src tgt)\<^sup>*\<^sup>* (shadow_of y) (shadow_of y')"
  using assms
proof (induction rule: writer_step.induct)
  case (client_write env q k y r w' s')
  then show ?case
    using write_queues(1) [OF client_write(1) _ refl refl] write_simulates [OF client_write(1)] by blast
next
  case (retry_entry y i fw rest muts out w' s')
  then show ?case
    using retry_keeps [OF retry_entry(1,2)] retry_simulates [OF retry_entry(1,2)] by blast
next
  case (apply_mutations y muts)
  then show ?case
    using apply_keeps [OF apply_mutations(1), of src tgt] by simp
next
  case (sleep_slice y e)
  then show ?case using phase_keeps [OF _ sleep_slice(1) refl] by fastforce
next
  case (take_snapshot y e)
  then show ?case using phase_keeps [OF _ take_snapshot(1) refl] by fastforce
next
  case (request_stop y)
  then show ?case using stop_keeps by fastforce
next
  case (leave_loop y e)
  then show ?case using phase_keeps [OF _ leave_loop(1) refl] by fastforce
qed

interpretation shadow: refinement "writer_step d" "shadow_step src tgt" shadow_of "refine_inv src tgt"
  for d :: "'w driver" and src tgt
  by unfold_locales (use writer_step_refines in blast)+

lemma refine_inv_start:
  "dw_failed w = [] \<Longrightarrow> refine_inv (dw_source w) (dw_target w) (system_start w s)"
  by (simp add: refine_defs system_start_def system_inv_def conserved_def busy_ids_def pending_ids_def)

lemma shadow_of_start: "dw_failed w = [] \<Longrightarrow> shadow_of (system_start w s) = shadow_start (io_calls s)"
  by (simp add: shadow_of_def shadow_start_def owed_by_writer_def system_start_def fun_eq_iff)

subsection \<open>The target after the source\<close>

text \<open>Every statement sent on session \<open>t\<close> was sent on session \<open>s\<close> before.\<close>

definition source_first :: "nat \<Rightarrow> nat \<Rightarrow> cass_call list \<Rightarrow> bool" where
  "source_first s t cs \<longleftrightarrow>
     (\<forall>pre q post. cs = pre @ SessionExecute t q # post \<longrightarrow> SessionExecute s q \<in> set pre)"

lemma source_first_snoc:
  "source_first s t (cs @ [c]) \<longleftrightarrow>
     source_first s t cs \<and> (\<forall>q. c = SessionExecute t q \<longrightarrow> SessionExecute s q \<in> set cs)"
proof -
  have split: "cs @ [c] = pre @ x # post \<longleftrightarrow>
      post = [] \<and> pre = cs \<and> x = c \<or> (\<exists>post'. post = post' @ [c] \<and> cs = pre @ x # post')" for pre x post
    by (cases post rule: rev_cases) auto
  show ?thesis unfolding source_first_def split by auto
qed

definition owed_executed :: "nat \<Rightarrow> nat \<Rightarrow> shadow_state \<Rightarrow> bool" where
  "owed_executed s t a \<longleftrightarrow>
     source_first s t (sp_calls a) \<and>
     (\<forall>i q k. sp_owed a i = Some (q, k) \<longrightarrow> SessionExecute s q \<in> set (sp_calls a))"

lemma source_first_exec:
  "source_first s t cs \<Longrightarrow> conn_session tgt = Some t \<Longrightarrow> SessionExecute s q \<in> set cs \<Longrightarrow>
   source_first s t (cs @ exec_calls tgt q)"
  by (auto simp: exec_calls_def source_first_snoc)

lemma owed_executed_step:
  assumes "owed_executed s t a" "shadow_step src tgt a a'"
    and conns: "conn_session src = Some s" "conn_session tgt = Some t" "s \<noteq> t"
  shows "owed_executed s t a'"
proof -
  have src: "source_first s t (cs @ exec_calls src q)" if "source_first s t cs" for cs q
    using that conns by (simp add: exec_calls_def source_first_snoc)
  have both: "source_first s t (cs @ exec_calls src q @ exec_calls tgt q)"
    if "source_first s t cs" "live src" for cs q
    using source_first_exec [OF src [OF that(1)] conns(2), of q q] that(2) conns
    by (simp add: exec_calls_def)
  show ?thesis
    using assms(2,1)
  proof (induction rule: shadow_step.induct)
    case (falls_due a i q k)
    then show ?case
      using both conns by (auto simp: owed_executed_def exec_calls_def split: if_splits)
  next
    case (still_owed a i q k fw)
    then show ?case using source_first_exec [OF _ conns(2), of s "sp_calls a" q] by (auto simp: owed_executed_def)
  next
    case (delivered a i q k)
    then show ?case using source_first_exec [OF _ conns(2), of s "sp_calls a" q] by (auto simp: owed_executed_def)
  qed (use src both in \<open>auto simp: owed_executed_def split: if_splits\<close>)
qed

text \<open>The target never runs ahead of the source: whatever the interleaving of client writes
  and retries, a statement is executed on the target's session only after it was sent on the
  source's session.\<close>

lemma target_follows_source:
  assumes "(writer_step d)\<^sup>*\<^sup>* (system_start (dual_writer_new cfg src tgt flt mtr) s0) y"
    and "conn_session src = Some s" "conn_session tgt = Some t" "s \<noteq> t"
    and "\<forall>q. SessionExecute t q \<notin> set (io_calls s0)"
    and "io_calls (sys_io y) = pre @ SessionExecute t q # post"
  shows "SessionExecute s q \<in> set pre"
proof -
  let ?w = "dual_writer_new cfg src tgt flt mtr"
  have w: "dw_failed ?w = []" "dw_source ?w = src" "dw_target ?w = tgt"
    by (simp_all add: dual_writer_new_def)
  have "owed_executed s t (shadow_of (system_start ?w s0))"
    using assms(5) by (auto simp: shadow_of_start [OF w(1)] shadow_start_def owed_executed_def source_first_def)
  then have "owed_executed s t (shadow_of y)"
    using shadow.transfer_invariant [OF assms(1) refine_inv_start [OF w(1), unfolded w(2,3)], of "owed_executed s t"]
      owed_executed_step [OF _ _ assms(2-4)] by blast
  then show ?thesis using assms(6) by (simp add: owed_executed_def source_first_def shadow_of_def)
qed

section \<open>Properties\<close>

text \<open>C4. The writer with its retry thread implements the specification of shadow writes: every
  run of client writes and retry steps, in any interleaving, is a run of the abstract machine
  that keeps the statements owed to the target, with the same driver calls and the same queue
  events, and ends in the state that owes exactly what the queue still has to deliver.\<close>

theorem retry_refines_shadow_spec:
  assumes "(writer_step d)\<^sup>*\<^sup>* (system_start (dual_writer_new cfg src tgt flt mtr) s) y"
  shows "(shadow_step src tgt)\<^sup>*\<^sup>* (shadow_start (io_calls s)) (shadow_of y) \<and>
    sp_calls (shadow_of y) = io_calls (sys_io y) \<and> dom (sp_owed (shadow_of y)) = set (pending_ids y)"
proof -
  let ?w = "dual_writer_new cfg src tgt flt mtr"
  have w: "dw_failed ?w = []" "dw_source ?w = src" "dw_target ?w = tgt"
    by (simp_all add: dual_writer_new_def)
  show ?thesis
    using shadow.run_simulates [OF assms refine_inv_start [OF w(1), unfolded w(2,3)]] shadow_of_start [OF w(1), of s]
    by (simp add: shadow_of_def dom_owed)
qed

theorem retry_refines_shadow_spec_witness:
  "(shadow_step (example_connection 1) (example_connection 2))\<^sup>*\<^sup>* (shadow_start []) (shadow_of example_queued)"
  using retry_refines_shadow_spec [OF example_queued_reachable [unfolded example_writer_def]]
  by (simp add: io_start_def)

end
