(* ===== verification/Proxy_Server.thy ===== *)
theory Proxy_Server
  imports Cql_Server Shadow_Spec
begin

text \<open>
  \<open>start_cql_server\<close> (\<open>services/dual-writer/src/cql_server.cpp\<close>): the accept loop that spawns
  one coroutine \<open>handle_connection\<close> for each client, all of them sharing one \<open>DualWriter\<close>
  with its retry thread.

  A server is the writer system of \<open>Dual_Writer_Retry\<close> and its connections; a connection is
  the bytes its client has yet to send, its socket to the source, its tracked statements and
  the responses sent so far. Connections take turns frame by frame (\<open>serve_next\<close>, the body
  of the loop), in any order, with steps of the retry thread in between: what they share is
  the writer, which a frame uses at most once. Address resolution, a failed connect to the
  source (the coroutine ends before it reads) and the listening socket are left out.
\<close>

section \<open>Definitions\<close>

record 'n client =
  cl_input :: bytes
  cl_net :: "'n net"
  cl_prepared :: "(string \<times> prepared_stmt) list"
  cl_out :: "bytes list"
  cl_end :: "conn_end option"

definition client_new :: "'n \<Rightarrow> bytes \<Rightarrow> 'n client" where
  "client_new n input =
     \<lparr>cl_input = input, cl_net = \<lparr>net_world = n, net_sent = [], net_received = []\<rparr>,
      cl_prepared = [], cl_out = [], cl_end = None\<rparr>"

definition proxy_of :: "'w writer_system \<Rightarrow> 'n client \<Rightarrow> ('w, 'n) proxy" where
  "proxy_of y c =
     \<lparr>px_writer = sys_writer y, px_io = sys_io y, px_net = cl_net c, px_prepared = cl_prepared c\<rparr>"

text \<open>What a frame adds to the record of queue events, for the statements only.\<close>

definition frame_events ::
  "call_env \<Rightarrow> 'w driver \<Rightarrow> frame_header \<Rightarrow> bytes \<Rightarrow> ('w, 'n) proxy \<Rightarrow> queue_event list" where
  "frame_events env d h b p =
     (case intercepted p h b of
        None \<Rightarrow> []
      | Some q \<Rightarrow> write_events env (extract_table_target q)
          (fst (dual_write env d q (extract_table_target q) (px_writer p) (px_io p))) (px_writer p))"

definition serve_next ::
  "call_env \<Rightarrow> 'w driver \<Rightarrow> 'n source_socket \<Rightarrow> 'w writer_system \<Rightarrow> 'n client
   \<Rightarrow> 'w writer_system \<times> 'n client" where
  "serve_next env d k y c =
     (case read_client_frame (cl_input c) of
        Inl e \<Rightarrow> (y, c\<lparr>cl_end := Some e\<rparr>)
      | Inr (h, b, rest) \<Rightarrow>
          let (resp, p) = handle_frame env d k h b (proxy_of y c);
              y' = y\<lparr>sys_writer := px_writer p, sys_io := px_io p,
                     sys_events := sys_events y @ frame_events env d h b (proxy_of y c)\<rparr>;
              c' = c\<lparr>cl_input := rest, cl_net := px_net p, cl_prepared := px_prepared p\<rparr>
          in (y', (case resp of
                     Inl e \<Rightarrow> c'\<lparr>cl_end := Some e\<rparr>
                   | Inr r \<Rightarrow> c'\<lparr>cl_out := cl_out c @ [r]\<rparr>)))"

record ('w, 'n) server =
  sv_system :: "'w writer_system"
  sv_conns :: "'n client list"

inductive server_step ::
  "'w driver \<Rightarrow> 'n source_socket \<Rightarrow> ('w, 'n) server \<Rightarrow> ('w, 'n) server \<Rightarrow> bool" for d k where
  accept:
    "server_step d k v (v\<lparr>sv_conns := sv_conns v @ [client_new n input]\<rparr>)"
| serve:
    "i < length (sv_conns v) \<Longrightarrow> cl_end (sv_conns v ! i) = None \<Longrightarrow>
     serve_next env d k (sv_system v) (sv_conns v ! i) = (y', c') \<Longrightarrow>
     server_step d k v (v\<lparr>sv_system := y', sv_conns := (sv_conns v)[i := c']\<rparr>)"
| retry_thread:
    "writer_step d (sv_system v) y' \<Longrightarrow>
     (sys_phase y', sys_stop y') \<noteq> (sys_phase (sv_system v), sys_stop (sv_system v)) \<Longrightarrow>
     server_step d k v (v\<lparr>sv_system := y'\<rparr>)"

definition server_start :: "dual_writer \<Rightarrow> 'w io \<Rightarrow> ('w, 'n) server" where
  "server_start w s = \<lparr>sv_system = system_start w s, sv_conns = []\<rparr>"

section \<open>Lemmas\<close>

subsection \<open>One frame\<close>

lemma handle_prepare_frame [frame_simps]:
  "px_writer (snd (handle_prepare k h b p)) = px_writer p" "px_io (snd (handle_prepare k h b p)) = px_io p"
proof -
  obtain r p1 where "proxy_forward k h b p = (r, p1)" by force
  then show "px_writer (snd (handle_prepare k h b p)) = px_writer p" "px_io (snd (handle_prepare k h b p)) = px_io p"
    using proxy_forward_frame [of k h b p]
    by (simp_all add: handle_prepare_def split: option.split sum.split)
qed

lemma handle_frame_writer:
  "(px_writer (snd (handle_frame env d k h b p)), px_io (snd (handle_frame env d k h b p))) =
     (case intercepted p h b of
        None \<Rightarrow> (px_writer p, px_io p)
      | Some q \<Rightarrow> snd (dual_write env d q (extract_table_target q) (px_writer p) (px_io p)))"
proof (cases "intercepted p h b")
  case (Some q)
  then show ?thesis
    by (simp add: handle_frame_intercepted intercept_write_def Let_def case_prod_beta frame_simps)
next
  case None
  then show ?thesis
    by (auto simp: intercepted_def handle_frame_def handle_query_def handle_execute_def frame_simps
        split: if_splits option.splits)
qed

lemma prepared_inv_frame:
  assumes "prepared_inv (px_prepared p)"
  shows "prepared_inv (px_prepared (snd (handle_frame env d k h b p)))"
proof (cases "intercepted p h b")
  case (Some q)
  with assms show ?thesis
    by (simp add: handle_frame_intercepted intercept_write_def Let_def case_prod_beta frame_simps)
next
  case None
  with assms proxy_keeps_prepare [OF assms, of k h b] show ?thesis
    by (auto simp: proxy_keeps_def intercepted_def handle_frame_def handle_query_def handle_execute_def
        frame_simps split: if_splits option.splits)
qed

text \<open>\<open>serve_next\<close> is the body of the loop of \<open>handle_connection\<close>: a connection that is served
  alone behaves as \<open>handle_connection\<close> says.\<close>

lemma handle_connection_serve:
  assumes "cl_end c = None" "serve_next (envs i) d k y c = (y', c')"
  shows "handle_connection envs d k i (cl_input c) (proxy_of y c) =
    (case cl_end c' of
       Some e \<Rightarrow> (e, [], proxy_of y' c')
     | None \<Rightarrow>
         let (e, out, p) = handle_connection envs d k (Suc i) (cl_input c') (proxy_of y' c')
         in (e, last (cl_out c') # out, p))"
proof (cases "read_client_frame (cl_input c)")
  case (Inl e)
  with assms show ?thesis
    by (auto simp: serve_next_def proxy_of_def handle_connection.simps [of envs d k i "cl_input c"])
next
  case (Inr f)
  obtain h b rest where f: "f = (h, b, rest)" by (metis prod_cases3)
  obtain resp p where fr: "handle_frame (envs i) d k h b (proxy_of y c) = (resp, p)" by force
  have p: "\<lparr>px_writer = px_writer p, px_io = px_io p, px_net = px_net p, px_prepared = px_prepared p\<rparr> = p"
    by (cases p) simp
  show ?thesis
    using assms Inr f fr
    by (auto simp: p serve_next_def proxy_of_def handle_connection.simps [of envs d k i "cl_input c"]
        case_prod_beta split: sum.splits)
qed

subsection \<open>The server as a writer system\<close>

lemma serve_next_system:
  assumes "serve_next env d k y c = (y', c')" "prepared_inv (cl_prepared c)"
  shows "prepared_inv (cl_prepared c') \<and>
    (y' = y \<or> (\<exists>q r w s. is_write_query q \<and>
       dual_write env d q (extract_table_target q) (sys_writer y) (sys_io y) = (r, w, s) \<and>
       y' = y\<lparr>sys_writer := w, sys_io := s,
         sys_events := sys_events y @ write_events env (extract_table_target q) r (sys_writer y)\<rparr>))"
proof (cases "read_client_frame (cl_input c)")
  case (Inl e)
  with assms show ?thesis by (auto simp: serve_next_def)
next
  case (Inr f)
  obtain h b rest where f: "f = (h, b, rest)" by (metis prod_cases3)
  let ?p = "proxy_of y c"
  obtain resp p where fr: "handle_frame env d k h b ?p = (resp, p)" by force
  have y': "y' = y\<lparr>sys_writer := px_writer p, sys_io := px_io p,
      sys_events := sys_events y @ frame_events env d h b ?p\<rparr>" "cl_prepared c' = px_prepared p"
    using assms(1) Inr f fr by (auto simp: serve_next_def Let_def split: sum.splits)
  have inv: "prepared_inv (px_prepared ?p)" using assms(2) by (simp add: proxy_of_def)
  then have "prepared_inv (cl_prepared c')"
    using prepared_inv_frame [OF inv, of env d k h b] fr y'(2) by simp
  moreover have "(px_writer p, px_io p) =
     (case intercepted ?p h b of
        None \<Rightarrow> (sys_writer y, sys_io y)
      | Some q \<Rightarrow> snd (dual_write env d q (extract_table_target q) (sys_writer y) (sys_io y)))"
    using handle_frame_writer [of env d k h b ?p] fr by (simp add: proxy_of_def split: option.splits)
  ultimately show ?thesis
    using y'(1) intercepted_write_query [OF inv]
    by (auto simp: frame_events_def proxy_of_def case_prod_beta split: option.splits)
      (metis prod.collapse)
qed

definition conns_inv :: "('w, 'n) server \<Rightarrow> bool" where
  "conns_inv v \<longleftrightarrow> (\<forall>c \<in> set (sv_conns v). prepared_inv (cl_prepared c))"

lemma server_step_writes:
  assumes "server_step d k v v'" "conns_inv v"
  shows "conns_inv v' \<and> (sv_system v' = sv_system v \<or> writer_step d (sv_system v) (sv_system v'))"
  using assms
proof (induction rule: server_step.induct)
  case (serve i v env y' c')
  then have c: "prepared_inv (cl_prepared (sv_conns v ! i))" by (auto simp: conns_inv_def)
  note s = serve_next_system [OF serve(3) c]
  have "conns_inv (v\<lparr>sv_system := y', sv_conns := (sv_conns v)[i := c']\<rparr>)"
    using serve.prems s by (auto simp: conns_inv_def dest: set_update_subset_insert [THEN subsetD])
  moreover have "y' = sv_system v \<or> writer_step d (sv_system v) y'"
    using s by (auto intro: client_write)
  ultimately show ?case by simp
qed (auto simp: conns_inv_def client_new_def prepared_inv_def)

text \<open>The server implements the writer system: whatever its clients do, the shared writer goes
  through steps of \<open>writer_step\<close>, so that everything shown of these holds in the service.\<close>

interpretation proxy: refinement "server_step d k" "writer_step d" sv_system conns_inv
  for d :: "'w driver" and k :: "'n source_socket"
proof unfold_locales
  fix v v' assume "conns_inv v" "server_step d k v v'"
  then show "conns_inv v'" "(writer_step d)\<^sup>*\<^sup>* (sv_system v) (sv_system v')"
    using server_step_writes [of d k v v'] by auto
qed

lemma conns_inv_start: "conns_inv (server_start w s)"
  by (simp add: conns_inv_def server_start_def)

lemma server_reaches_system:
  assumes "(server_step d k)\<^sup>*\<^sup>* (server_start w s) v"
  shows "(writer_step d)\<^sup>*\<^sup>* (system_start w s) (sv_system v)"
  using proxy.run_simulates [OF assms conns_inv_start] by (simp add: server_start_def)

subsection \<open>Allowed statements\<close>

text \<open>What may be executed on the target's session after the calls \<open>pre\<close>: a write of a table
  that is not blacklisted, already sent to the source, or one of the statements \<open>X\<close> that other
  parts of the process send.\<close>

definition vetted :: "string set \<Rightarrow> dual_writer \<Rightarrow> cass_call list \<Rightarrow> cass_call \<Rightarrow> bool" where
  "vetted X w pre c \<longleftrightarrow>
     (\<forall>s t q. conn_session (dw_source w) = Some s \<and> conn_session (dw_target w) = Some t \<and>
        c = SessionExecute t q \<longrightarrow>
        q \<in> X \<or> is_write_query q \<and> \<not> blacklists w (extract_table_target q) \<and> SessionExecute s q \<in> set pre)"

definition history_ok :: "string set \<Rightarrow> dual_writer \<Rightarrow> cass_call list \<Rightarrow> bool" where
  "history_ok X w cs \<longleftrightarrow> (\<forall>pre c post. cs = pre @ c # post \<longrightarrow> vetted X w pre c)"

text \<open>Every queued statement is a write, filed under the table that its text names, and was
  sent to the source.\<close>

definition entry_ok :: "dual_writer \<Rightarrow> cass_call list \<Rightarrow> failed_write \<Rightarrow> bool" where
  "entry_ok w cs fw \<longleftrightarrow>
     is_write_query (fw_cql fw) \<and> fw_keyspace fw = extract_table_target (fw_cql fw) \<and>
     (\<forall>s. conn_session (dw_source w) = Some s \<longrightarrow> SessionExecute s (fw_cql fw) \<in> set cs)"

definition phase_entries :: "retry_phase \<Rightarrow> failed_write set" where
  "phase_entries p = snd ` (set (phase_todo p) \<union> set (snd (phase_mutations p)))"

definition writer_ok :: "string set \<Rightarrow> dual_writer \<Rightarrow> 'w writer_system \<Rightarrow> bool" where
  "writer_ok X w y \<longleftrightarrow>
     same_setup w (sys_writer y) \<and> history_ok X w (io_calls (sys_io y)) \<and>
     (\<forall>fw \<in> snd ` set (dw_failed (sys_writer y)) \<union> phase_entries (sys_phase y).
        entry_ok w (io_calls (sys_io y)) fw)"

lemma same_setup_refl [simp]: "same_setup w w"
  by (simp add: same_setup_def)

lemma same_setup_trans: "same_setup w w' \<Longrightarrow> same_setup w' w'' \<Longrightarrow> same_setup w w''"
  by (simp add: same_setup_def)

lemma history_ok_Nil [simp]: "history_ok X w []"
  by (simp add: history_ok_def)

lemma history_ok_snoc [simp]: "history_ok X w (cs @ [c]) \<longleftrightarrow> history_ok X w cs \<and> vetted X w cs c"
proof -
  have split: "cs @ [c] = pre @ x # post \<longleftrightarrow>
      post = [] \<and> pre = cs \<and> x = c \<or> (\<exists>post'. post = post' @ [c] \<and> cs = pre @ x # post')" for pre x post
    by (cases post rule: rev_cases) auto
  show ?thesis unfolding history_ok_def split by blast
qed

lemma history_ok_quiet:
  assumes "history_ok X w cs" "\<forall>c \<in> set new. \<forall>t q. c = SessionExecute t q \<longrightarrow> conn_session (dw_target w) \<noteq> Some t \<or> q \<in> X"
  shows "history_ok X w (cs @ new)"
  using assms(2)
proof (induction new rule: rev_induct)
  case (snoc c new)
  have "history_ok X w (cs @ new)" using snoc by simp
  then have "history_ok X w ((cs @ new) @ [c])"
    using snoc.prems by (subst history_ok_snoc) (auto simp: vetted_def)
  then show ?case by simp
qed (simp add: assms(1))

lemma history_ok_source:
  assumes "history_ok X w cs" "conn_session (dw_source w) \<noteq> conn_session (dw_target w)"
  shows "history_ok X w (cs @ exec_calls (dw_source w) q)"
  using assms by (intro history_ok_quiet) (auto simp: exec_calls_def live_def)

lemma history_ok_target:
  assumes "history_ok X w cs" "is_write_query q" "\<not> blacklists w (extract_table_target q)"
    and "\<forall>s. conn_session (dw_source w) = Some s \<longrightarrow> SessionExecute s q \<in> set cs"
  shows "history_ok X w (cs @ exec_calls (dw_target w) q)"
  using assms by (auto simp: exec_calls_def vetted_def)

lemma entry_ok_append: "entry_ok w cs fw \<Longrightarrow> entry_ok w (cs @ new) fw"
  by (auto simp: entry_ok_def)

lemma write_ok:
  assumes step: "dual_write env d q (extract_table_target q) (sys_writer y) (sys_io y) = (r, w', s')"
    and q: "is_write_query q" and ok: "writer_ok X w y"
    and sess: "conn_session (dw_source w) \<noteq> conn_session (dw_target w)"
    and y': "y' = y\<lparr>sys_writer := w', sys_io := s', sys_events := es\<rparr>"
  shows "writer_ok X w y'"
proof -
  let ?t = "extract_table_target q" and ?wr = "sys_writer y" and ?cs = "io_calls (sys_io y)"
  have same: "same_setup w ?wr" and hist: "history_ok X w ?cs" using ok by (simp_all add: writer_ok_def)
  obtain fw where fw: "dw_failed w' =
    (if source_ok r \<and> \<not> target_ok r \<and> \<not> blacklists ?wr ?t
     then umap_emplace (generate_id (env_hi env) (env_lo env)) fw (dw_failed ?wr) else dw_failed ?wr)"
    "fw_cql fw = q" "fw_keyspace fw = ?t"
    using dual_write_failed [OF step] by metis
  let ?new = "exec_calls (dw_source w) q @
     (if source_ok r \<and> \<not> blacklists w ?t then exec_calls (dw_target w) q else [])"
  have calls: "io_calls s' = ?cs @ ?new"
    using dual_write_history [of env d q ?t ?wr "sys_io y"] step same by (simp add: same_setup_def)
  have sent: "\<forall>s. conn_session (dw_source w) = Some s \<longrightarrow> SessionExecute s q \<in> set (?cs @ exec_calls (dw_source w) q)"
    if "source_ok r"
    using source_ok_live [OF step that] same by (auto simp: same_setup_def exec_calls_def)
  have "same_setup ?wr w'"
    using dual_write_frame [of env d q ?t ?wr "sys_io y"] step by (simp add: same_setup_def fun_eq_iff)
  moreover have "history_ok X w (io_calls s')"
    using history_ok_target [OF history_ok_source [OF hist sess] q _ sent] history_ok_source [OF hist sess]
    by (simp add: calls)
  moreover have "entry_ok w (io_calls s') fw" if "source_ok r"
    using sent [OF that] fw(2,3) q entry_ok_append unfolding calls entry_ok_def by auto
  moreover have "entry_ok w (io_calls s') fw'"
    if "fw' \<in> snd ` set (dw_failed ?wr) \<union> phase_entries (sys_phase y)" for fw'
    using ok that entry_ok_append unfolding calls writer_ok_def by blast
  ultimately show ?thesis
    using fw(1) same_setup_trans [OF same]
    by (auto simp: writer_ok_def y' umap_emplace_def split: if_splits)
qed

lemma retry_ok:
  assumes step: "retry_one d fw wr s = (out, w', s')"
    and fw: "entry_ok w (io_calls s) fw" and same: "same_setup w wr" and hist: "history_ok X w (io_calls s)"
  shows "same_setup w w' \<and> history_ok X w (io_calls s') \<and> (\<exists>new. io_calls s' = io_calls s @ new) \<and>
    (\<forall>fw'. out = FailedAgain fw' \<longrightarrow> entry_ok w (io_calls s') fw')"
proof -
  have calls: "io_calls s' = io_calls s @
     (if max_retries (dwc_writer (dw_config wr)) \<le> fw_attempts fw \<or> blacklists w (fw_keyspace fw)
      then [] else exec_calls (dw_target w) (fw_cql fw))"
    using retry_one_calls [of d fw wr s] step same by (simp add: same_setup_def)
  have "same_setup w w'"
    using retry_one_frameD [OF step] retry_one_sourceD [OF step] same by (simp add: same_setup_def fun_eq_iff)
  moreover have "history_ok X w (io_calls s')"
    using history_ok_target [OF hist, of "fw_cql fw"] hist fw by (auto simp: calls entry_ok_def)
  moreover have "entry_ok w (io_calls s') fw'" if "out = FailedAgain fw'" for fw'
    using retry_one_again(3,4) [OF step [unfolded that]] entry_ok_append [OF fw] by (auto simp: calls entry_ok_def)
  ultimately show ?thesis using calls by blast
qed

lemma writer_step_ok:
  assumes "writer_step d y y'" "(sys_phase y', sys_stop y') \<noteq> (sys_phase y, sys_stop y)" "writer_ok X w y"
  shows "writer_ok X w y'"
  using assms
proof (induction rule: writer_step.induct)
  case (retry_entry y i fw rest muts out w' s')
  have entry: "entry_ok w (io_calls (sys_io y)) fw" and hist: "history_ok X w (io_calls (sys_io y))"
    and same: "same_setup w (sys_writer y)"
    using retry_entry.hyps(1) retry_entry.prems(2) by (auto simp: writer_ok_def phase_entries_def)
  note r = retry_ok [OF retry_entry(2) entry same hist]
  obtain new where new: "io_calls s' = io_calls (sys_io y) @ new" using r by blast
  have "entry_ok w (io_calls s') fw'"
    if "fw' \<in> snd ` set (dw_failed (sys_writer y)) \<union> phase_entries (sys_phase y)" for fw'
    using retry_entry.prems(2) that entry_ok_append unfolding new writer_ok_def by blast
  then show ?case
    using retry_entry.hyps(1) r retry_one_frameD(3) [OF retry_entry(2)]
    by (cases out) (auto simp: writer_ok_def phase_entries_def note_outcome_cases)
next
  case (apply_mutations y muts)
  have "snd ` set (retry_apply muts (dw_failed (sys_writer y))) \<subseteq>
      snd ` set (dw_failed (sys_writer y)) \<union> phase_entries (sys_phase y)"
    using set_retry_apply [of muts "dw_failed (sys_writer y)"] apply_mutations.hyps
    by (auto simp: phase_entries_def)
  moreover have "same_setup (sys_writer y) ((sys_writer y)\<lparr>dw_failed := m\<rparr>)" for m
    by (simp add: same_setup_def blacklists_def fun_eq_iff)
  then have same: "same_setup w ((sys_writer y)\<lparr>dw_failed := m\<rparr>)" for m
    using apply_mutations.prems(2) same_setup_trans by (simp add: writer_ok_def) blast
  moreover have "\<forall>fw \<in> snd ` set (dw_failed (sys_writer y)) \<union> phase_entries (sys_phase y).
      entry_ok w (io_calls (sys_io y)) fw"
    using apply_mutations.prems(2) by (simp add: writer_ok_def)
  ultimately have "\<forall>fw \<in> snd ` set (retry_apply muts (dw_failed (sys_writer y))). entry_ok w (io_calls (sys_io y)) fw"
    by blast
  with same show ?case
    using apply_mutations.prems(2) by (simp add: writer_ok_def phase_entries_def)
qed (auto simp: writer_ok_def phase_entries_def)

definition server_ok :: "string set \<Rightarrow> dual_writer \<Rightarrow> ('w, 'n) server \<Rightarrow> bool" where
  "server_ok X w v \<longleftrightarrow> conns_inv v \<and> writer_ok X w (sv_system v)"

lemma server_step_ok:
  assumes "server_step d k v v'" "server_ok X w v" "conn_session (dw_source w) \<noteq> conn_session (dw_target w)"
  shows "server_ok X w v'"
proof -
  have conns: "conns_inv v'" using server_step_writes [OF assms(1)] assms(2) by (simp add: server_ok_def)
  show ?thesis
    using assms(1,2) conns
  proof (induction rule: server_step.induct)
    case (serve i v env y' c')
    then have c: "prepared_inv (cl_prepared (sv_conns v ! i))" by (auto simp: server_ok_def conns_inv_def)
    from serve_next_system [OF serve(3) c]
    have "writer_ok X w y'"
      using serve.prems(1) write_ok [where y = "sv_system v" and y' = y' and w = w, OF _ _ _ assms(3)]
      by (auto simp: server_ok_def)
    with serve.prems(2) show ?case by (simp add: server_ok_def)
  next
    case (retry_thread v y')
    then show ?case
      using writer_step_ok [OF retry_thread(1,2)] by (simp add: server_ok_def)
  qed (simp add: server_ok_def)
qed

lemma server_run_ok:
  assumes "(server_step d k)\<^sup>*\<^sup>* v v'" "server_ok X w v" "conn_session (dw_source w) \<noteq> conn_session (dw_target w)"
  shows "server_ok X w v'"
  using assms(1) by (induction rule: rtranclp_induct) (use assms(2,3) server_step_ok in blast)+

lemma server_ok_start:
  assumes "dw_failed w = []" "\<forall>t q. conn_session (dw_target w) = Some t \<longrightarrow> SessionExecute t q \<notin> set (io_calls s)"
  shows "server_ok X w (server_start w s)"
  using assms history_ok_quiet [OF history_ok_Nil, of "io_calls s" w X]
  by (auto simp: server_ok_def conns_inv_def writer_ok_def phase_entries_def server_start_def system_start_def)

text \<open>The proxy alone, without the other threads of its process: a statement is executed on the
  target session only if it is a write, if the rules do not blacklist the table that its text
  names, and if it was sent to the source before.\<close>

lemma server_target_calls_allowed:
  assumes "(server_step d k)\<^sup>*\<^sup>* (server_start (dual_writer_new cfg src tgt flt mtr) s0) v"
    and "conn_session src = Some s" "conn_session tgt = Some t" "s \<noteq> t"
    and "\<forall>q. SessionExecute t q \<notin> set (io_calls s0)"
    and "io_calls (sys_io (sv_system v)) = pre @ SessionExecute t q # post"
  shows "is_write_query q \<and> \<not> blacklists (dual_writer_new cfg src tgt flt mtr) (extract_table_target q) \<and>
    SessionExecute s q \<in> set pre"
proof -
  let ?w = "dual_writer_new cfg src tgt flt mtr"
  have w: "dw_source ?w = src" "dw_target ?w = tgt" "dw_failed ?w = []" by (simp_all add: dual_writer_new_def)
  have "server_ok {} ?w v"
    using server_run_ok [OF assms(1) server_ok_start] assms(2-5) w by auto
  then have "vetted {} ?w pre (SessionExecute t q)"
    using assms(6) by (auto simp: server_ok_def writer_ok_def history_ok_def)
  then show ?thesis using assms(2,3) w by (simp add: vetted_def)
qed

subsection \<open>One client\<close>

text \<open>The server after it has accepted a client and served its first frame.\<close>

definition serve_client ::
  "call_env \<Rightarrow> 'w driver \<Rightarrow> 'n source_socket \<Rightarrow> 'n \<Rightarrow> bytes \<Rightarrow> ('w, 'n) server \<Rightarrow> ('w, 'n) server" where
  "serve_client env d k n input v =
     (let (y, c) = serve_next env d k (sv_system v) (client_new n input)
      in v\<lparr>sv_system := y, sv_conns := sv_conns v @ [c]\<rparr>)"

lemma serve_client_steps:
  "\<exists>v1. server_step d k v v1 \<and> sv_system v1 = sv_system v \<and> server_step d k v1 (serve_client env d k n input v)"
proof -
  let ?v1 = "v\<lparr>sv_conns := sv_conns v @ [client_new n input]\<rparr>"
  obtain y c where served: "serve_next env d k (sv_system v) (client_new n input) = (y, c)" by force
  have "server_step d k ?v1 (?v1\<lparr>sv_system := y, sv_conns := (sv_conns ?v1)[length (sv_conns v) := c]\<rparr>)"
    using served by (intro serve) (simp_all add: client_new_def)
  then have "server_step d k ?v1 (serve_client env d k n input v)"
    using served by (simp add: serve_client_def)
  then show ?thesis using accept [of d k v n input] by fastforce
qed

lemma serve_client_write:
  assumes "read_client_frame input = Inr (h, b, rest)"
    and "fh_opcode h = OP_QUERY" "parse_long_string b 0 = Some q" "is_write_query q"
  shows "sv_system (serve_client env d k n input v) = (sv_system v)
    \<lparr>sys_writer := fst (snd (dual_write env d q (extract_table_target q) (sys_writer (sv_system v)) (sys_io (sv_system v)))),
     sys_io := snd (snd (dual_write env d q (extract_table_target q) (sys_writer (sv_system v)) (sys_io (sv_system v)))),
     sys_events := sys_events (sv_system v) @ write_events env (extract_table_target q)
       (fst (dual_write env d q (extract_table_target q) (sys_writer (sv_system v)) (sys_io (sv_system v))))
       (sys_writer (sv_system v))\<rparr>"
proof -
  let ?p = "proxy_of (sv_system v) (client_new n input)"
  have i: "intercepted ?p h b = Some q" using assms(2-4) by (simp add: intercepted_def)
  then have "px_writer (snd (handle_frame env d k h b ?p)) =
        fst (snd (dual_write env d q (extract_table_target q) (sys_writer (sv_system v)) (sys_io (sv_system v))))"
      "px_io (snd (handle_frame env d k h b ?p)) =
        snd (snd (dual_write env d q (extract_table_target q) (sys_writer (sv_system v)) (sys_io (sv_system v))))"
    using handle_frame_writer [of env d k h b ?p] by (simp_all add: prod_eq_iff proxy_of_def)
  then show ?thesis
    using assms(1) i
    by (auto simp: serve_client_def serve_next_def client_new_def frame_events_def proxy_of_def Let_def case_prod_beta
        split: sum.splits)
qed

end
