(* ===== verification/Command_Line.thy ===== *)
theory Command_Line
  imports Sync_Prelude
begin

text \<open>
  The command lines of the services and of the terminal dashboard (\<open>parse_args\<close> of the
  four \<open>main.cpp\<close>), and \<open>std::stoi\<close>, which they use for numbers.

  The arguments after the program name are a list; \<open>i + 1 < argc\<close> says that another one
  follows. \<^term>\<open>None\<close> is the exception of \<open>std::stoi\<close>, which nothing catches: \<open>parse_args\<close>
  runs before the \<open>try\<close> block of \<open>main\<close>.
\<close>

section \<open>Definitions\<close>

subsection \<open>Numbers\<close>

definition is_digit :: "char \<Rightarrow> bool" where
  "is_digit c = (let n = (of_char c :: nat) in 48 \<le> n \<and> n \<le> 57)"

definition digits_value :: "string \<Rightarrow> nat" where
  "digits_value = foldl (\<lambda>v c. v * 10 + (of_char c - 48)) 0"

text \<open>\<open>std::stoi\<close>: white space, a sign, the longest run of digits; no digits and values
  outside \<open>int\<close> throw.\<close>

definition c_stoi :: "string \<Rightarrow> int option" where
  "c_stoi str =
     (let t = dropWhile c_isspace str;
          (neg, u) = (case t of
                        [] \<Rightarrow> (False, [])
                      | c # cs \<Rightarrow> if c = CHR ''-'' then (True, cs)
                                  else if c = CHR ''+'' then (False, cs) else (False, t));
          ds = takeWhile is_digit u;
          v = (if neg then - int (digits_value ds) else int (digits_value ds))
      in if ds = [] \<or> v < - (2 ^ 31) \<or> 2 ^ 31 \<le> v then None else Some v)"

text \<open>\<open>static_cast<uint16_t>(std::stoi(s))\<close>.\<close>

definition port_of :: "string \<Rightarrow> u16 option" where
  "port_of str = map_option word_of_int (c_stoi str)"

subsection \<open>dual-writer\<close>

record writer_args =
  wa_config_path :: string
  wa_filter_config_path :: string
  wa_bind_addr :: string
  wa_bind_port :: u16
  wa_metrics_port :: u16

definition default_writer_args :: writer_args where
  "default_writer_args =
     \<lparr>wa_config_path = ''config/dual-writer-scylla.yaml'',
      wa_filter_config_path = ''config/filter-rules.yaml'', wa_bind_addr = ''0.0.0.0'',
      wa_bind_port = 9042, wa_metrics_port = 9090\<rparr>"

definition set_bind_addr :: "string \<Rightarrow> writer_args \<Rightarrow> writer_args option" where
  "set_bind_addr addr a =
     (case rfind_char CHR '':'' addr of
        None \<Rightarrow> Some (a\<lparr>wa_bind_addr := addr\<rparr>)
      | Some colon \<Rightarrow>
          map_option (\<lambda>p. a\<lparr>wa_bind_addr := take colon addr, wa_bind_port := p\<rparr>)
            (port_of (drop (Suc colon) addr)))"

fun writer_args_from :: "string list \<Rightarrow> writer_args \<Rightarrow> writer_args option" where
  "writer_args_from [] a = Some a"
| "writer_args_from [arg] a = Some a"
| "writer_args_from (arg # v # rest) a =
     (if arg = ''--config'' \<or> arg = ''-c'' then writer_args_from rest (a\<lparr>wa_config_path := v\<rparr>)
      else if arg = ''--filter-config'' then writer_args_from rest (a\<lparr>wa_filter_config_path := v\<rparr>)
      else if arg = ''--bind-addr''
      then (case set_bind_addr v a of None \<Rightarrow> None | Some a' \<Rightarrow> writer_args_from rest a')
      else if arg = ''--metrics-port''
      then (case port_of v of None \<Rightarrow> None | Some p \<Rightarrow> writer_args_from rest (a\<lparr>wa_metrics_port := p\<rparr>))
      else writer_args_from (v # rest) a)"

definition parse_writer_args :: "string list \<Rightarrow> writer_args option" where
  "parse_writer_args argv = writer_args_from argv default_writer_args"

subsection \<open>sstable-loader\<close>

record loader_args =
  la_config_path :: string
  la_indexes_path :: string
  la_filter_config_path :: string
  la_port :: u16
  la_skip_indexes :: bool
  la_skip_filters :: bool
  la_index_parallelism :: u64
  la_auto_start :: bool

definition default_loader_args :: loader_args where
  "default_loader_args =
     \<lparr>la_config_path = ''config/sstable-loader.yaml'', la_indexes_path = ''config/indexes.yaml'',
      la_filter_config_path = ''config/filter-rules.yaml'', la_port = 8081, la_skip_indexes = False,
      la_skip_filters = False, la_index_parallelism = 4, la_auto_start = False\<rparr>"

text \<open>The options without a value, which may come last.\<close>

definition loader_flag :: "string \<Rightarrow> loader_args \<Rightarrow> loader_args" where
  "loader_flag arg a =
     (if arg = ''--skip-indexes'' then a\<lparr>la_skip_indexes := True\<rparr>
      else if arg = ''--skip-filters'' then a\<lparr>la_skip_filters := True\<rparr>
      else if arg = ''--auto-start'' then a\<lparr>la_auto_start := True\<rparr>
      else a)"

fun loader_args_from :: "string list \<Rightarrow> loader_args \<Rightarrow> loader_args option" where
  "loader_args_from [] a = Some a"
| "loader_args_from [arg] a = Some (loader_flag arg a)"
| "loader_args_from (arg # v # rest) a =
     (if arg = ''--config'' \<or> arg = ''-c'' then loader_args_from rest (a\<lparr>la_config_path := v\<rparr>)
      else if arg = ''--indexes'' \<or> arg = ''-i'' then loader_args_from rest (a\<lparr>la_indexes_path := v\<rparr>)
      else if arg = ''--filter-config'' \<or> arg = ''-f''
      then loader_args_from rest (a\<lparr>la_filter_config_path := v\<rparr>)
      else if arg = ''--port'' \<or> arg = ''-p''
      then (case port_of v of None \<Rightarrow> None | Some p \<Rightarrow> loader_args_from rest (a\<lparr>la_port := p\<rparr>))
      else if arg = ''--index-parallelism''
      then (case c_stoi v of
              None \<Rightarrow> None
            | Some i \<Rightarrow> loader_args_from rest (a\<lparr>la_index_parallelism := word_of_int i\<rparr>))
      else loader_args_from (v # rest) (loader_flag arg a))"

definition parse_loader_args :: "string list \<Rightarrow> loader_args option" where
  "parse_loader_args argv = loader_args_from argv default_loader_args"

subsection \<open>dual-reader\<close>

record reader_args =
  ra_config_path :: string
  ra_port :: u16

definition default_reader_args :: reader_args where
  "default_reader_args = \<lparr>ra_config_path = ''config/dual-reader.yaml'', ra_port = 8082\<rparr>"

fun reader_args_from :: "string list \<Rightarrow> reader_args \<Rightarrow> reader_args option" where
  "reader_args_from [] a = Some a"
| "reader_args_from [arg] a = Some a"
| "reader_args_from (arg # v # rest) a =
     (if arg = ''--config'' \<or> arg = ''-c'' then reader_args_from rest (a\<lparr>ra_config_path := v\<rparr>)
      else if arg = ''--port'' \<or> arg = ''-p''
      then (case port_of v of None \<Rightarrow> None | Some p \<Rightarrow> reader_args_from rest (a\<lparr>ra_port := p\<rparr>))
      else reader_args_from (v # rest) a)"

definition parse_reader_args :: "string list \<Rightarrow> reader_args option" where
  "parse_reader_args argv = reader_args_from argv default_reader_args"

subsection \<open>tui-dash\<close>

record dash_args =
  da_demo :: bool
  da_api_url :: string
  da_refresh_ms :: int

definition default_dash_args :: dash_args where
  "default_dash_args =
     \<lparr>da_demo = False, da_api_url = ''http://localhost:9092'', da_refresh_ms = 100\<rparr>"

definition dash_flag :: "string \<Rightarrow> dash_args \<Rightarrow> dash_args" where
  "dash_flag arg a = (if arg = ''--demo'' \<or> arg = ''-d'' then a\<lparr>da_demo := True\<rparr> else a)"

fun dash_args_from :: "string list \<Rightarrow> dash_args \<Rightarrow> dash_args option" where
  "dash_args_from [] a = Some a"
| "dash_args_from [arg] a = Some (dash_flag arg a)"
| "dash_args_from (arg # v # rest) a =
     (if arg = ''--demo'' \<or> arg = ''-d'' then dash_args_from (v # rest) (dash_flag arg a)
      else if arg = ''--api-url'' then dash_args_from rest (a\<lparr>da_api_url := v\<rparr>)
      else if arg = ''--refresh-ms''
      then (case c_stoi v of None \<Rightarrow> None | Some i \<Rightarrow> dash_args_from rest (a\<lparr>da_refresh_ms := i\<rparr>))
      else dash_args_from (v # rest) a)"

definition parse_dash_args :: "string list \<Rightarrow> dash_args option" where
  "parse_dash_args argv = dash_args_from argv default_dash_args"

section \<open>Lemmas\<close>

lemma digit_char_props:
  assumes "d < 10"
  shows "is_digit (digit_char d)" "\<not> c_isspace (digit_char d)" "digit_char d \<noteq> CHR ''-''"
    "digit_char d \<noteq> CHR ''+''" "digit_char d \<noteq> CHR '':''"
proof -
  have "(of_char (digit_char d) :: nat) = 48 + d" using assms by (simp add: of_char_digit_char)
  then show "is_digit (digit_char d)" "\<not> c_isspace (digit_char d)" "digit_char d \<noteq> CHR ''-''"
    "digit_char d \<noteq> CHR ''+''" "digit_char d \<noteq> CHR '':''"
    using assms by (auto simp: is_digit_def c_isspace_def Let_def)
qed

lemma nat_to_string_digits: "c \<in> set (nat_to_string n) \<Longrightarrow> \<exists>d < 10. c = digit_char d"
proof (induction n rule: nat_to_string.induct)
  case (1 n)
  show ?case
  proof (cases "n < 10")
    case True
    with 1(2) show ?thesis by (auto simp: nat_to_string.simps [of n])
  next
    case False
    then consider "c \<in> set (nat_to_string (n div 10))" | "c = digit_char (n mod 10)"
      using 1(2) by (auto simp: nat_to_string.simps [of n])
    then show ?thesis
    proof cases
      case 1
      with "1.IH" False show ?thesis by blast
    next
      case 2
      moreover have "n mod 10 < 10" by simp
      ultimately show ?thesis by blast
    qed
  qed
qed

lemma digits_value_snoc: "digits_value (ds @ [c]) = digits_value ds * 10 + (of_char c - 48)"
  by (simp add: digits_value_def)

lemma digits_value_nat_to_string: "digits_value (nat_to_string n) = n"
proof (induction n rule: nat_to_string.induct)
  case (1 n)
  show ?case
  proof (cases "n < 10")
    case True
    then show ?thesis by (simp add: nat_to_string.simps [of n] digits_value_def of_char_digit_char)
  next
    case False
    with 1 show ?thesis
      by (simp add: nat_to_string.simps [of n] digits_value_snoc of_char_digit_char)
  qed
qed

lemma c_stoi_nat_to_string:
  assumes "n < 2 ^ 31"
  shows "c_stoi (nat_to_string n) = Some (int n)"
proof -
  obtain c cs where s: "nat_to_string n = c # cs" by (cases "nat_to_string n") auto
  then have "c \<in> set (nat_to_string n)" by simp
  then obtain d where d: "d < 10" "c = digit_char d" using nat_to_string_digits by blast
  have all: "takeWhile is_digit (nat_to_string n) = nat_to_string n"
    using nat_to_string_digits digit_char_props(1) by (intro takeWhile_eq_all_conv [THEN iffD2]) blast
  have "dropWhile c_isspace (nat_to_string n) = nat_to_string n"
    using s d digit_char_props(2) by simp
  then show ?thesis
    using s d digit_char_props(3,4) [OF d(1)] all assms digits_value_nat_to_string [of n]
    by (simp add: c_stoi_def Let_def)
qed

lemma c_stoi_int_to_string:
  assumes "- (2 ^ 31) \<le> v" "v < 2 ^ 31"
  shows "c_stoi (int_to_string v) = Some v"
proof (cases "v < 0")
  case True
  have all: "takeWhile is_digit (nat_to_string (nat (- v))) = nat_to_string (nat (- v))"
    using nat_to_string_digits digit_char_props(1) by (intro takeWhile_eq_all_conv [THEN iffD2]) blast
  have "\<not> c_isspace (CHR ''-'')" by code_simp
  then show ?thesis
    using True assms by (simp add: c_stoi_def int_to_string_def Let_def all digits_value_nat_to_string)
next
  case False
  then show ?thesis using assms c_stoi_nat_to_string [of "nat v"] by (simp add: int_to_string_def)
qed

lemma port_of_nat_to_string: "n < 2 ^ 31 \<Longrightarrow> port_of (nat_to_string n) = Some (of_nat n)"
  by (simp add: port_of_def c_stoi_nat_to_string)

lemma port_of_port: "port_of (nat_to_string (unat (p :: u16))) = Some p"
  using unsigned_less [of p, where 'a = nat] by (simp add: port_of_nat_to_string)

text \<open>A port outside 16 bits is not rejected but wraps, and a port that is no number ends the
  process with an uncaught exception.\<close>

lemma port_argument_wraps:
  "n < 2 ^ 31 \<Longrightarrow>
   map_option (\<lambda>a. unat (ra_port a)) (parse_reader_args [''--port'', nat_to_string n]) = Some (n mod 65536)"
  by (simp add: parse_reader_args_def port_of_nat_to_string unat_of_nat)

lemma port_argument_terminates: "parse_reader_args [''--port'', ''http''] = None"
  by code_simp

lemma set_bind_addr_roundtrip:
  "set_bind_addr (addr @ '':'' @ nat_to_string (unat p)) a = Some (a\<lparr>wa_bind_addr := addr, wa_bind_port := p\<rparr>)"
proof -
  have "CHR '':'' \<notin> set (nat_to_string (unat p))"
    using nat_to_string_digits [of "CHR '':''" "unat p"] digit_char_props(5) by metis
  then show ?thesis by (simp add: set_bind_addr_def port_of_port)
qed

section \<open>Properties\<close>

text \<open>C27. Every configuration of the three services and of the dashboard can be given on the
  command line and is read back as it was meant: the four parsers return exactly the values
  that the options carry, for all paths and URLs, for addresses that contain colons (IPv6), for
  all ports and all flags, and for every 32-bit refresh interval, negative ones included. The
  values left out are ports outside 16 bits, an index parallelism from \<open>2 ^ 31\<close> on and refresh
  intervals outside \<open>int\<close>.\<close>

theorem command_line_roundtrip:
  assumes "unat n < 2 ^ 31" "- (2 ^ 31) \<le> ms" "ms < 2 ^ 31"
  shows "parse_writer_args [''--config'', c, ''--filter-config'', f, ''--bind-addr'',
        addr @ '':'' @ nat_to_string (unat p), ''--metrics-port'', nat_to_string (unat m)] =
      Some \<lparr>wa_config_path = c, wa_filter_config_path = f, wa_bind_addr = addr, wa_bind_port = p,
            wa_metrics_port = m\<rparr> \<and>
    parse_loader_args ((if sf then [''--skip-filters''] else []) @
        [''--config'', c, ''--indexes'', i, ''--filter-config'', f, ''--port'', nat_to_string (unat p),
         ''--index-parallelism'', nat_to_string (unat n)] @
        (if si then [''--skip-indexes''] else []) @ (if st then [''--auto-start''] else [])) =
      Some \<lparr>la_config_path = c, la_indexes_path = i, la_filter_config_path = f, la_port = p,
            la_skip_indexes = si, la_skip_filters = sf, la_index_parallelism = n, la_auto_start = st\<rparr> \<and>
    parse_reader_args [''--config'', c, ''--port'', nat_to_string (unat p)] =
      Some \<lparr>ra_config_path = c, ra_port = p\<rparr> \<and>
    parse_dash_args ((if demo then [''--demo''] else []) @ [''--api-url'', url, ''--refresh-ms'', int_to_string ms] @
        (if short then [''-d''] else [])) =
      Some \<lparr>da_demo = demo \<or> short, da_api_url = url, da_refresh_ms = ms\<rparr>"
  using set_bind_addr_roundtrip [of addr p]
  by (simp add: parse_writer_args_def default_writer_args_def parse_loader_args_def default_loader_args_def
      loader_flag_def parse_reader_args_def default_reader_args_def parse_dash_args_def default_dash_args_def
      dash_flag_def port_of_port c_stoi_nat_to_string [OF assms(1)] c_stoi_int_to_string [OF assms(2,3)])

theorem command_line_roundtrip_witness:
  "parse_writer_args [''--config'', ''c'', ''--filter-config'', ''f'', ''--bind-addr'',
     ''::1'' @ '':'' @ nat_to_string (unat (9042 :: u16)), ''--metrics-port'', nat_to_string (unat (9090 :: u16))] =
   Some \<lparr>wa_config_path = ''c'', wa_filter_config_path = ''f'', wa_bind_addr = ''::1'', wa_bind_port = 9042,
         wa_metrics_port = 9090\<rparr> \<and>
   parse_dash_args [''--demo'', ''--api-url'', ''http://dash'', ''--refresh-ms'', int_to_string 250] =
   Some \<lparr>da_demo = True, da_api_url = ''http://dash'', da_refresh_ms = 250\<rparr>"
  using command_line_roundtrip [of "4 :: u64" 250 "''c''" "''f''" "''::1''" 9042 9090 False "''i''" False False True
      "''http://dash''" False]
  by simp

end
