(* ===== verification/Token_Range.thy ===== *)
theory Token_Range
  imports Svckit_Database
begin

text \<open>
  The token ranges of the loader (\<open>services/sstable-loader/include/sstable_loader/token_range.hpp\<close>,
  \<open>src/token_range.cpp\<close>): \<open>TokenRangeCalculator::calculate_ranges\<close> and
  \<open>build_range_query\<close>.

  The \<open>__int128\<close> computation is over \<^typ>\<open>int\<close>, which the bounds below justify, and its
  casts to \<open>int64_t\<close> are to words read by \<^term>\<open>sint\<close>. \<open>size_t\<close> products wrap at 64 bits.
  A division by zero ends the program and is \<^term>\<open>None\<close>.
\<close>

section \<open>Definitions\<close>

record token_range =
  tr_start :: u64
  tr_end :: u64

definition min_token :: int where "min_token = - (2 ^ 63)"
definition max_token :: int where "max_token = 2 ^ 63 - 1"
definition token_space :: int where "token_space = max_token - min_token + 1"

definition estimated_cores_per_node :: u64 where "estimated_cores_per_node = 8"

definition range_size :: "nat \<Rightarrow> int" where
  "range_size n = token_space div int n"

definition range_start :: "nat \<Rightarrow> nat \<Rightarrow> int" where
  "range_start n i = min_token + int i * range_size n"

definition range_end :: "nat \<Rightarrow> nat \<Rightarrow> int" where
  "range_end n i =
     (if i = n - 1 then max_token else range_start n i + range_size n - 1)"

definition generate_ranges :: "nat \<Rightarrow> token_range list" where
  "generate_ranges n =
     map (\<lambda>i. \<lparr>tr_start = word_of_int (range_start n i), tr_end = word_of_int (range_end n i)\<rparr>)
       [0..<n]"

definition calculate_ranges ::
  "'w driver \<Rightarrow> scylla_connection \<Rightarrow> u32 \<Rightarrow> 'w io \<Rightarrow> token_range list option \<times> 'w io" where
  "calculate_ranges d conn ranges_per_core s =
     (let (r, s') = conn_execute d conn ''SELECT peer FROM system.peers'' s;
          num_nodes = ((case r of Inr _ \<Rightarrow> 3 | Inl _ \<Rightarrow> 1) :: u64);
          total_ranges = num_nodes * estimated_cores_per_node * ucast ranges_per_core
      in (if total_ranges = 0 then None else Some (generate_ranges (unat total_ranges)), s'))"

definition token_columns :: "string list \<Rightarrow> string" where
  "token_columns partition_keys = join_with '', '' partition_keys"

definition build_range_query :: "string \<Rightarrow> string list \<Rightarrow> token_range \<Rightarrow> string" where
  "build_range_query table partition_keys r =
     ''SELECT JSON * FROM '' @ table @
     '' WHERE token('' @ token_columns partition_keys @ '') >= '' @ int_to_string (sint (tr_start r)) @
     '' AND token('' @ token_columns partition_keys @ '') <= '' @ int_to_string (sint (tr_end r))"

text \<open>A range covers the tokens the query of \<open>build_range_query\<close> selects: both ends included.\<close>

definition covers :: "token_range \<Rightarrow> int \<Rightarrow> bool" where
  "covers r t \<longleftrightarrow> sint (tr_start r) \<le> t \<and> t \<le> sint (tr_end r)"

section \<open>Lemmas\<close>

lemmas token_defs = min_token_def max_token_def token_space_def

lemma range_size_pos:
  assumes "0 < n" "n \<le> 2 ^ 64"
  shows "1 \<le> range_size n"
proof -
  have "int n \<le> 2 ^ 64" using assms(2) by (simp flip: of_nat_le_iff)
  then have "2 ^ 64 div (2 ^ 64) \<le> (2 ^ 64 :: int) div int n"
    using assms(1) by (intro zdiv_mono2) auto
  then show ?thesis by (simp add: range_size_def token_defs)
qed

lemma div_bounds:
  fixes a b :: int
  assumes "0 < b"
  shows "a div b * b \<le> a" "a < a div b * b + b"
proof -
  have "a div b * b + a mod b = a" "0 \<le> a mod b" "a mod b < b" using assms by simp_all
  then show "a div b * b \<le> a" "a < a div b * b + b" by linarith+
qed

lemma range_size_total: "int n * range_size n \<le> 2 ^ 64"
  using div_bounds(1) [of "int n" token_space]
  by (cases "n = 0") (simp_all add: range_size_def token_defs mult.commute)

lemma range_bounds:
  assumes "i < n" "n \<le> 2 ^ 64"
  shows "min_token \<le> range_start n i" "range_start n i \<le> range_end n i" "range_end n i \<le> max_token"
proof -
  have size: "1 \<le> range_size n" using assms by (intro range_size_pos) auto
  then show "min_token \<le> range_start n i" by (simp add: range_start_def)
  have "int (Suc i) * range_size n \<le> int n * range_size n"
    using assms(1) size by (intro mult_right_mono) auto
  then have step: "int i * range_size n + range_size n \<le> 2 ^ 64"
    using range_size_total [of n] by (simp add: algebra_simps)
  show "range_start n i \<le> range_end n i"
    using step size by (auto simp: range_end_def range_start_def token_defs)
  show "range_end n i \<le> max_token"
    using step by (simp add: range_end_def range_start_def token_defs)
qed

lemma range_ordered:
  assumes "i < j" "j < n" "n \<le> 2 ^ 64"
  shows "range_end n i < range_start n j"
proof -
  have size: "1 \<le> range_size n" using assms by (intro range_size_pos) auto
  have "int (Suc i) * range_size n \<le> int j * range_size n"
    using assms(1) size by (intro mult_right_mono) auto
  moreover have "i \<noteq> n - 1" using assms by simp
  ultimately show ?thesis
    by (simp add: range_end_def range_start_def algebra_simps)
qed

lemma range_contiguous:
  "Suc i < n \<Longrightarrow> range_start n (Suc i) = range_end n i + 1"
  by (auto simp: range_end_def range_start_def algebra_simps)

lemma sint_token: "min_token \<le> x \<Longrightarrow> x \<le> max_token \<Longrightarrow> sint (word_of_int x :: u64) = x"
  by (simp add: signed_of_int signed_take_bit_int_eq_self token_defs)

lemma length_generate_ranges [simp]: "length (generate_ranges n) = n"
  by (simp add: generate_ranges_def)

lemma generate_ranges_nth:
  assumes "i < n" "n \<le> 2 ^ 64"
  shows "sint (tr_start (generate_ranges n ! i)) = range_start n i"
    and "sint (tr_end (generate_ranges n ! i)) = range_end n i"
  using range_bounds [OF assms] assms by (simp_all add: generate_ranges_def sint_token)

lemma ranges_cover:
  assumes "0 < n" "n \<le> 2 ^ 64" "min_token \<le> t" "t \<le> max_token"
  shows "\<exists>i < n. range_start n i \<le> t \<and> t \<le> range_end n i"
proof -
  have size: "1 \<le> range_size n" using assms by (intro range_size_pos) auto
  have "0 \<le> (t - min_token) div range_size n"
    using size assms(3) by (simp add: pos_imp_zdiv_nonneg_iff)
  then obtain k where k: "(t - min_token) div range_size n = int k" using nonneg_int_cases by blast
  have t: "int k * range_size n \<le> t - min_token" "t - min_token < int k * range_size n + range_size n"
    using size div_bounds [of "range_size n" "t - min_token"] by (simp_all add: k)
  show ?thesis
  proof (cases "k < n - 1")
    case True
    then show ?thesis
      using t by (intro exI [of _ k]) (auto simp: range_start_def range_end_def)
  next
    case False
    then have "int (n - 1) * range_size n \<le> int k * range_size n"
      using size by (intro mult_right_mono) auto
    then have "range_start n (n - 1) \<le> t" using t unfolding range_start_def by linarith
    then show ?thesis
      using assms(1,4) by (intro exI [of _ "n - 1"]) (simp add: range_end_def)
  qed
qed

lemma generate_ranges_unique:
  assumes "0 < n" "n \<le> 2 ^ 64" "min_token \<le> t" "t \<le> max_token"
  shows "\<exists>!i. i < n \<and> covers (generate_ranges n ! i) t"
proof -
  obtain i where i: "i < n" "covers (generate_ranges n ! i) t"
    using ranges_cover [OF assms] generate_ranges_nth [OF _ assms(2)] unfolding covers_def by metis
  moreover have "j = i" if "j < n" "covers (generate_ranges n ! j) t" for j
  proof (rule ccontr)
    assume "j \<noteq> i"
    then consider "i < j" | "j < i" by linarith
    then show False
      using i that range_ordered [of i j n] range_ordered [of j i n] assms(2)
      by cases (simp_all add: covers_def generate_ranges_nth)
  qed
  ultimately show ?thesis by blast
qed

lemma generate_ranges_ends:
  assumes "0 < n" "n \<le> 2 ^ 64"
  shows "sint (tr_start (generate_ranges n ! 0)) = - (2 ^ 63)"
    and "sint (tr_end (generate_ranges n ! (n - 1))) = 2 ^ 63 - 1"
    and "Suc i < n \<Longrightarrow>
      sint (tr_start (generate_ranges n ! Suc i)) = sint (tr_end (generate_ranges n ! i)) + 1"
  using assms by (simp_all add: generate_ranges_nth range_contiguous)
    (simp_all add: range_start_def range_end_def token_defs)

lemma total_ranges:
  fixes x :: u32 and m :: u64
  assumes "m \<in> {1, 3}"
  shows "unat (m * estimated_cores_per_node * ucast x) = unat m * 8 * unat x"
proof -
  have "unat x < 2 ^ 32" using unsigned_less [of x, where 'a = nat] by simp
  then show ?thesis
    using assms by (auto simp: estimated_cores_per_node_def unat_word_ariths unsigned_ucast_eq take_bit_nat_eq_self)
qed

text \<open>With zero ranges per core the division of the token space by the number of ranges is a
  division by zero, whatever the driver answers.\<close>

lemma zero_ranges_per_core_crashes: "fst (calculate_ranges d conn 0 s) = None"
  by (simp add: calculate_ranges_def Let_def case_prod_beta)

section \<open>Properties\<close>

lemma calculate_ranges_total:
  assumes "0 < ranges_per_core"
  obtains m where "m \<in> {1, 3}" "fst (calculate_ranges d conn ranges_per_core s) =
    Some (generate_ranges (m * 8 * unat ranges_per_core))"
    and "0 < m * 8 * unat ranges_per_core" "m * 8 * unat ranges_per_core \<le> 2 ^ 64"
    and "m = (if isl (fst (conn_execute d conn ''SELECT peer FROM system.peers'' s)) then 1 else 3)"
proof -
  obtain r s' where ex: "conn_execute d conn ''SELECT peer FROM system.peers'' s = (r, s')" by force
  define k :: u64 where "k = (case r of Inr _ \<Rightarrow> 3 | Inl _ \<Rightarrow> 1)"
  define m :: nat where "m = (if isl r then 1 else 3)"
  have k: "k \<in> {1, 3}" "unat k = m" by (auto simp: k_def m_def split: sum.splits)
  have x: "0 < unat ranges_per_core" "unat ranges_per_core < 2 ^ 32"
    using assms unsigned_less [of ranges_per_core, where 'a = nat] by (simp_all add: word_less_nat_alt)
  have total: "unat (k * estimated_cores_per_node * ucast ranges_per_core) = m * 8 * unat ranges_per_core"
    using total_ranges [OF k(1)] k(2) by simp
  then have "k * estimated_cores_per_node * ucast ranges_per_core \<noteq> 0"
    using x by (auto simp: m_def simp flip: unat_eq_zero split: if_splits)
  then have "fst (calculate_ranges d conn ranges_per_core s) =
      Some (generate_ranges (m * 8 * unat ranges_per_core))"
    using ex total by (simp add: calculate_ranges_def Let_def k_def)
  moreover have "0 < m * 8 * unat ranges_per_core" "m * 8 * unat ranges_per_core \<le> 2 ^ 64"
    using x by (auto simp: m_def)
  ultimately show ?thesis
    using that [of m] ex by (simp add: m_def)
qed

text \<open>C7. The ranges are a partition of the Murmur3 ring: for a positive number of ranges per
  core, \<open>calculate_ranges\<close> returns 24 (8 when the peers cannot be queried) times that many
  ranges, the first starts at the smallest token, each next one starts right after the end of
  the one before, the last ends at the largest token, and every 64-bit token lies in exactly
  one of them. No 128-bit intermediate value leaves the 64-bit range, so no cast changes it.\<close>

theorem token_ranges_partition:
  assumes "0 < ranges_per_core"
  shows "\<exists>rs. fst (calculate_ranges d conn ranges_per_core s) = Some rs \<and>
    length rs = (if isl (fst (conn_execute d conn ''SELECT peer FROM system.peers'' s)) then 8 else 24)
      * unat ranges_per_core \<and>
    sint (tr_start (rs ! 0)) = - (2 ^ 63) \<and> sint (tr_end (rs ! (length rs - 1))) = 2 ^ 63 - 1 \<and>
    (\<forall>i. Suc i < length rs \<longrightarrow> sint (tr_start (rs ! Suc i)) = sint (tr_end (rs ! i)) + 1) \<and>
    (\<forall>t. - (2 ^ 63) \<le> t \<and> t < 2 ^ 63 \<longrightarrow> (\<exists>!i. i < length rs \<and> covers (rs ! i) t))"
proof -
  obtain m where rs: "fst (calculate_ranges d conn ranges_per_core s) =
      Some (generate_ranges (m * 8 * unat ranges_per_core))"
    and n: "0 < m * 8 * unat ranges_per_core" "m * 8 * unat ranges_per_core \<le> 2 ^ 64"
    and m: "m = (if isl (fst (conn_execute d conn ''SELECT peer FROM system.peers'' s)) then 1 else 3)"
    using calculate_ranges_total [OF assms] .
  obtain k where k: "k = m * 8 * unat ranges_per_core" by blast
  have "k = (if isl (fst (conn_execute d conn ''SELECT peer FROM system.peers'' s)) then 8 else 24)
      * unat ranges_per_core"
    using m k by simp
  moreover have "\<exists>!i. i < k \<and> covers (generate_ranges k ! i) t"
    if "- (2 ^ 63) \<le> t \<and> t < 2 ^ 63" for t
    using generate_ranges_unique [of k t] n that by (simp add: token_defs flip: k)
  ultimately show ?thesis
    using rs generate_ranges_ends [OF n] unfolding k [symmetric]
    by (intro exI [of _ "generate_ranges k"]) simp
qed

theorem token_ranges_partition_witness:
  "\<exists>rs. fst (calculate_ranges (scripted_driver (\<lambda>_ _ _. None)) (example_connection 1) 4 io_start) = Some rs \<and>
     length rs = 96 \<and> (\<exists>!i. i < length rs \<and> covers (rs ! i) 0)"
proof -
  have "\<not> isl (fst (conn_execute (scripted_driver (\<lambda>_ _ _. None)) (example_connection 1)
      ''SELECT peer FROM system.peers'' io_start))"
    by (simp add: conn_execute_def scripted_driver_def example_connection_def io_start_def)
  then show ?thesis
    using token_ranges_partition [of 4 "scripted_driver (\<lambda>_ _ _. None)" "example_connection 1" io_start]
    by auto
qed

end
