(* ===== verification/Sstable_Filter.thy ===== *)
theory Sstable_Filter
  imports Filter_Governor
begin

text \<open>
  \<open>SSTableBlacklistGovernor\<close> of the SSTable loader
  (\<open>include/sstable_loader/filter.hpp\<close>, \<open>src/filter.cpp\<close>): exact and wildcard table
  blacklist, tenant blacklist, atomic statistics, reload from the retained configuration.
\<close>

section \<open>Definitions\<close>

record ss_filter_config =
  ss_cfg_tenant_blacklist :: "string list"
  ss_cfg_table_blacklist :: "string list"
  ss_cfg_tenant_id_columns :: "string list"

record ss_filter_stats =
  ss_tables_skipped :: u64
  ss_rows_skipped :: u64
  ss_rows_allowed :: u64

record ss_governor =
  ss_table_blacklist :: "string list"
  ss_tenant_blacklist :: "string list"
  ss_tenant_id_columns :: "string list"
  ss_gov_config :: ss_filter_config
  ss_gov_stats :: ss_filter_stats

definition ss_governor_new :: "ss_filter_config \<Rightarrow> ss_governor" where
  "ss_governor_new cfg =
     \<lparr>ss_table_blacklist = uset_of (ss_cfg_table_blacklist cfg),
      ss_tenant_blacklist = uset_of (ss_cfg_tenant_blacklist cfg),
      ss_tenant_id_columns = ss_cfg_tenant_id_columns cfg,
      ss_gov_config = cfg,
      ss_gov_stats = \<lparr>ss_tables_skipped = 0, ss_rows_skipped = 0, ss_rows_allowed = 0\<rparr>\<rparr>"

definition ss_count_table_skip :: "ss_governor \<Rightarrow> ss_governor" where
  "ss_count_table_skip g =
     g\<lparr>ss_gov_stats := (ss_gov_stats g)\<lparr>ss_tables_skipped := ss_tables_skipped (ss_gov_stats g) + 1\<rparr>\<rparr>"

definition ss_should_skip_table :: "string \<Rightarrow> ss_governor \<Rightarrow> filter_decision \<times> ss_governor" where
  "ss_should_skip_table table g =
     (if table \<in> set (ss_table_blacklist g) then (SkipTable, ss_count_table_skip g)
      else if list_ex (\<lambda>pattern. wildcard_matches pattern table) (ss_table_blacklist g)
      then (SkipTable, ss_count_table_skip g)
      else (Allow, g))"

definition ss_check_tenant_id :: "string \<Rightarrow> ss_governor \<Rightarrow> filter_decision \<times> ss_governor" where
  "ss_check_tenant_id tenant g =
     (let st = ss_gov_stats g in
      if tenant \<in> set (ss_tenant_blacklist g)
      then (SkipTenant, g\<lparr>ss_gov_stats := st\<lparr>ss_rows_skipped := ss_rows_skipped st + 1\<rparr>\<rparr>)
      else (Allow, g\<lparr>ss_gov_stats := st\<lparr>ss_rows_allowed := ss_rows_allowed st + 1\<rparr>\<rparr>))"

definition ss_is_enabled :: "ss_governor \<Rightarrow> bool" where
  "ss_is_enabled g = (ss_tenant_blacklist g \<noteq> [] \<or> ss_table_blacklist g \<noteq> [])"

definition ss_reload_config :: "ss_governor \<Rightarrow> ss_governor" where
  "ss_reload_config g =
     g\<lparr>ss_table_blacklist := uset_of (ss_cfg_table_blacklist (ss_gov_config g)),
       ss_tenant_blacklist := uset_of (ss_cfg_tenant_blacklist (ss_gov_config g)),
       ss_tenant_id_columns := ss_cfg_tenant_id_columns (ss_gov_config g)\<rparr>"

subsection \<open>Rules and invariant\<close>

definition ss_rules :: "ss_governor \<Rightarrow> string list \<times> string list \<times> string list" where
  "ss_rules g = (ss_table_blacklist g, ss_tenant_blacklist g, ss_tenant_id_columns g)"

text \<open>The sets and columns are those of the retained configuration.\<close>

definition ss_governor_inv :: "ss_governor \<Rightarrow> bool" where
  "ss_governor_inv g \<longleftrightarrow>
     ss_rules g =
       (uset_of (ss_cfg_table_blacklist (ss_gov_config g)),
        uset_of (ss_cfg_tenant_blacklist (ss_gov_config g)),
        ss_cfg_tenant_id_columns (ss_gov_config g))"

text \<open>A governor after a sequence of operations.\<close>

definition ss_governor_run :: "gov_op list \<Rightarrow> ss_governor \<Rightarrow> ss_governor" where
  "ss_governor_run = gov_run ss_should_skip_table ss_check_tenant_id ss_reload_config"

section \<open>Lemmas\<close>

lemma ss_governor_inv_new: "ss_governor_inv (ss_governor_new cfg)"
  by (simp add: ss_governor_inv_def ss_rules_def ss_governor_new_def)

lemma ss_count_table_skip_simps [simp]:
  "ss_table_blacklist (ss_count_table_skip g) = ss_table_blacklist g"
  "ss_tenant_blacklist (ss_count_table_skip g) = ss_tenant_blacklist g"
  "ss_tenant_id_columns (ss_count_table_skip g) = ss_tenant_id_columns g"
  "ss_gov_config (ss_count_table_skip g) = ss_gov_config g"
  by (simp_all add: ss_count_table_skip_def)

lemma ss_should_skip_table_frame [frame_simps]:
  "ss_table_blacklist (snd (ss_should_skip_table t g)) = ss_table_blacklist g"
  "ss_tenant_blacklist (snd (ss_should_skip_table t g)) = ss_tenant_blacklist g"
  "ss_tenant_id_columns (snd (ss_should_skip_table t g)) = ss_tenant_id_columns g"
  "ss_gov_config (snd (ss_should_skip_table t g)) = ss_gov_config g"
  by (simp_all add: ss_should_skip_table_def)

lemma ss_check_tenant_id_frame [frame_simps]:
  "ss_table_blacklist (snd (ss_check_tenant_id t g)) = ss_table_blacklist g"
  "ss_tenant_blacklist (snd (ss_check_tenant_id t g)) = ss_tenant_blacklist g"
  "ss_tenant_id_columns (snd (ss_check_tenant_id t g)) = ss_tenant_id_columns g"
  "ss_gov_config (snd (ss_check_tenant_id t g)) = ss_gov_config g"
  by (simp_all add: ss_check_tenant_id_def Let_def)

lemma ss_reload_config_id: "ss_governor_inv g \<Longrightarrow> ss_reload_config g = g"
  by (simp add: ss_reload_config_def ss_governor_inv_def ss_rules_def)

interpretation ss_gov: blacklist_governor ss_should_skip_table ss_check_tenant_id ss_is_enabled
    ss_reload_config ss_rules ss_governor_inv ss_table_blacklist ss_tenant_blacklist
    ss_count_table_skip
proof unfold_locales
  fix t g
  show "ss_rules (snd (ss_should_skip_table t g)) = ss_rules g"
    and "ss_rules (snd (ss_check_tenant_id t g)) = ss_rules g"
    by (simp_all add: ss_rules_def frame_simps)
  show "ss_governor_inv g \<Longrightarrow> ss_rules (ss_reload_config g) = ss_rules g"
    and "ss_governor_inv g \<Longrightarrow> ss_governor_inv (ss_reload_config g)"
    by (simp_all add: ss_reload_config_id)
  show "ss_governor_inv g \<Longrightarrow> ss_governor_inv (snd (ss_should_skip_table t g))"
    and "ss_governor_inv g \<Longrightarrow> ss_governor_inv (snd (ss_check_tenant_id t g))"
    by (simp_all add: ss_governor_inv_def ss_rules_def frame_simps)
next
  fix g g' t
  assume "ss_rules g = ss_rules g'"
  then show "fst (ss_should_skip_table t g) = fst (ss_should_skip_table t g')"
    and "fst (ss_check_tenant_id t g) = fst (ss_check_tenant_id t g')"
    and "ss_is_enabled g = ss_is_enabled g'"
    by (simp_all add: ss_rules_def ss_should_skip_table_def ss_check_tenant_id_def
        ss_is_enabled_def Let_def)
  show "ss_table_blacklist g = ss_table_blacklist g'"
    using \<open>ss_rules g = ss_rules g'\<close> by (simp add: ss_rules_def)
qed (simp_all add: ss_should_skip_table_def ss_is_enabled_def)

lemma ss_governor_run_table_blacklist [simp]:
  "ss_table_blacklist (ss_governor_run ops (ss_governor_new cfg)) =
     uset_of (ss_cfg_table_blacklist cfg)"
  unfolding ss_governor_run_def ss_gov.run_tables [OF ss_governor_inv_new]
  by (simp add: ss_governor_new_def)

section \<open>Properties\<close>

text \<open>However many decisions and reloads came before, the governor built from a
  configuration skips a table exactly when the configured blacklist names it or has a
  pattern \<open>*.suffix\<close> for it, and counts every skip and nothing else.\<close>

lemma ss_should_skip_table_spec:
  "ss_should_skip_table t (ss_governor_run ops (ss_governor_new cfg)) =
     (let g = ss_governor_run ops (ss_governor_new cfg) in
      if table_blacklisted (set (ss_cfg_table_blacklist cfg)) t
      then (SkipTable, g\<lparr>ss_gov_stats := (ss_gov_stats g)\<lparr>ss_tables_skipped :=
              ss_tables_skipped (ss_gov_stats g) + 1\<rparr>\<rparr>)
      else (Allow, g))"
  by (simp add: ss_gov.decides Let_def ss_count_table_skip_def)

text \<open>Every tenant check counts exactly one row, as skipped when the configured tenant
  blacklist names the tenant and as allowed otherwise, and reports it.\<close>

lemma ss_check_tenant_id_spec:
  "let g = ss_governor_run ops (ss_governor_new cfg);
       (d, g') = ss_check_tenant_id tenant g
   in d = (if tenant \<in> set (ss_cfg_tenant_blacklist cfg) then SkipTenant else Allow) \<and>
      ss_rows_skipped (ss_gov_stats g') + ss_rows_allowed (ss_gov_stats g') =
        ss_rows_skipped (ss_gov_stats g) + ss_rows_allowed (ss_gov_stats g) + 1 \<and>
      (d = SkipTenant \<longleftrightarrow> ss_rows_skipped (ss_gov_stats g') \<noteq> ss_rows_skipped (ss_gov_stats g))"
  using ss_gov.tenant_stable [OF ss_governor_inv_new, of tenant ops cfg]
  by (auto simp: ss_check_tenant_id_def ss_governor_run_def ss_governor_new_def Let_def
      split: if_splits)

end
