(* ===== verification/Sstable_Config.thy ===== *)
theory Sstable_Config
  imports Svckit_Config Sstable_Filter
begin

text \<open>
  \<open>SSTableLoaderConfig\<close> (\<open>services/sstable-loader/include/sstable_loader/config.hpp\<close>,
  \<open>src/config.cpp\<close>): the tables to migrate, the tuning parameters and their YAML parser.
\<close>

section \<open>Definitions\<close>

record table_config =
  tc_name :: string
  tc_partition_key :: "string list"

record loader_config =
  lc_tables :: "table_config list"
  lc_num_ranges_per_core :: u32
  lc_max_concurrent_loaders :: u32
  lc_batch_size :: u32
  lc_checkpoint_interval_secs :: u64
  lc_checkpoint_file :: string
  lc_prefetch_rows :: u32
  lc_compression :: bool
  lc_max_throughput_mbps :: u64
  lc_max_retries :: u32
  lc_retry_delay_secs :: u64
  lc_skip_on_error :: bool
  lc_failed_rows_file :: string
  lc_insert_batch_size :: u32
  lc_insert_concurrency :: u32
  lc_enable_pagination :: bool
  lc_page_size :: u32
  lc_page_retry_attempts :: u32
  lc_page_retry_backoff_ms :: u64

definition default_loader_config :: loader_config where
  "default_loader_config =
     \<lparr>lc_tables = [], lc_num_ranges_per_core = 4, lc_max_concurrent_loaders = 32,
      lc_batch_size = 5000, lc_checkpoint_interval_secs = 60,
      lc_checkpoint_file = ''/tmp/sstable-loader-checkpoint.json'', lc_prefetch_rows = 10000,
      lc_compression = True, lc_max_throughput_mbps = 1000, lc_max_retries = 3,
      lc_retry_delay_secs = 5, lc_skip_on_error = False,
      lc_failed_rows_file = ''failed_rows.jsonl'', lc_insert_batch_size = 100,
      lc_insert_concurrency = 32, lc_enable_pagination = False, lc_page_size = 5000,
      lc_page_retry_attempts = 3, lc_page_retry_backoff_ms = 500\<rparr>"

text \<open>The name of a table is mandatory: a missing one throws.\<close>

definition parse_table_config :: "'n yaml_api \<Rightarrow> 'n \<Rightarrow> table_config option" where
  "parse_table_config y n =
     (if \<not> y_defined y n \<or> \<not> y_is_map y n then Some \<lparr>tc_name = [], tc_partition_key = []\<rparr>
      else
        case y_string y (y_child y n ''name'') of None \<Rightarrow> None | Some name \<Rightarrow>
        case y_string_seq y n ''partition_key'' of None \<Rightarrow> None | Some keys \<Rightarrow>
        Some \<lparr>tc_name = name, tc_partition_key = keys\<rparr>)"

fun parse_table_configs :: "'n yaml_api \<Rightarrow> 'n list \<Rightarrow> table_config list option" where
  "parse_table_configs y [] = Some []"
| "parse_table_configs y (n # ns) =
     (case parse_table_config y n of
        None \<Rightarrow> None
      | Some t \<Rightarrow> map_option ((#) t) (parse_table_configs y ns))"

definition parse_loader_config :: "'n yaml_api \<Rightarrow> 'n \<Rightarrow> loader_config option" where
  "parse_loader_config y n =
     (let c = default_loader_config; tn = y_child y n ''tables'' in
      if \<not> y_defined y n \<or> \<not> y_is_map y n then Some c
      else
        case (if y_defined y tn \<and> y_is_sequence y tn then parse_table_configs y (y_items y tn)
              else Some []) of None \<Rightarrow> None | Some tables \<Rightarrow>
        case y_field_strict y (y_string y) n ''checkpoint_file'' (lc_checkpoint_file c) of
          None \<Rightarrow> None | Some checkpoint \<Rightarrow>
        case y_field_strict y (y_string y) n ''failed_rows_file'' (lc_failed_rows_file c) of
          None \<Rightarrow> None | Some failed_rows \<Rightarrow>
        Some
          \<lparr>lc_tables = tables,
           lc_num_ranges_per_core =
             y_field y (y_u32 y) n ''num_ranges_per_core'' 4 (lc_num_ranges_per_core c),
           lc_max_concurrent_loaders =
             y_field y (y_u32 y) n ''max_concurrent_loaders'' 32 (lc_max_concurrent_loaders c),
           lc_batch_size = y_field y (y_u32 y) n ''batch_size'' 5000 (lc_batch_size c),
           lc_checkpoint_interval_secs =
             y_field y (y_u64 y) n ''checkpoint_interval_secs'' 60 (lc_checkpoint_interval_secs c),
           lc_checkpoint_file = checkpoint,
           lc_prefetch_rows = y_field y (y_u32 y) n ''prefetch_rows'' 10000 (lc_prefetch_rows c),
           lc_compression = y_field y (y_bool y) n ''compression'' True (lc_compression c),
           lc_max_throughput_mbps =
             y_field y (y_u64 y) n ''max_throughput_mbps'' 1000 (lc_max_throughput_mbps c),
           lc_max_retries = y_field y (y_u32 y) n ''max_retries'' 3 (lc_max_retries c),
           lc_retry_delay_secs =
             y_field y (y_u64 y) n ''retry_delay_secs'' 5 (lc_retry_delay_secs c),
           lc_skip_on_error = y_field y (y_bool y) n ''skip_on_error'' False (lc_skip_on_error c),
           lc_failed_rows_file = failed_rows,
           lc_insert_batch_size =
             y_field y (y_u32 y) n ''insert_batch_size'' 100 (lc_insert_batch_size c),
           lc_insert_concurrency =
             y_field y (y_u32 y) n ''insert_concurrency'' 32 (lc_insert_concurrency c),
           lc_enable_pagination =
             y_field y (y_bool y) n ''enable_pagination'' False (lc_enable_pagination c),
           lc_page_size = y_field y (y_u32 y) n ''page_size'' 5000 (lc_page_size c),
           lc_page_retry_attempts =
             y_field y (y_u32 y) n ''page_retry_attempts'' 3 (lc_page_retry_attempts c),
           lc_page_retry_backoff_ms =
             y_field y (y_u64 y) n ''page_retry_backoff_ms'' 500 (lc_page_retry_backoff_ms c)\<rparr>)"

record sstable_loader_config =
  slc_source :: database_config
  slc_target :: database_config
  slc_loader :: loader_config
  slc_observability :: observability_config

definition sstable_loader_from_yaml ::
  "'n host_env \<Rightarrow> 'n yaml_api \<Rightarrow> string \<Rightarrow> load_error + sstable_loader_config" where
  "sstable_loader_from_yaml h y path =
     (case load_yaml_root h y path of
        Inl e \<Rightarrow> Inl (LoadSync e)
      | Inr doc \<Rightarrow>
          if y_is_scalar y doc then Inl LoadYaml
          else
            case parse_database_config y (y_child y doc ''source'') of
              None \<Rightarrow> Inl LoadYaml | Some source \<Rightarrow>
            case parse_database_config y (y_child y doc ''target'') of
              None \<Rightarrow> Inl LoadYaml | Some target \<Rightarrow>
            case parse_loader_config y (y_child y doc ''loader'') of
              None \<Rightarrow> Inl LoadYaml | Some loader \<Rightarrow>
            case parse_observability_config y (y_child y doc ''observability'') of
              None \<Rightarrow> Inl LoadYaml | Some obs \<Rightarrow>
            Inr \<lparr>slc_source = env_credentials h ''SSTABLE_LOADER_SOURCE'' source,
                 slc_target = env_credentials h ''SSTABLE_LOADER_TARGET'' target,
                 slc_loader = loader, slc_observability = obs\<rparr>)"

text \<open>\<open>load_filter_config\<close> of \<open>src/filter.cpp\<close>, with its default tenant column.\<close>

definition ss_load_filter_config ::
  "'n host_env \<Rightarrow> 'n yaml_api \<Rightarrow> string \<Rightarrow> load_error + ss_filter_config" where
  "ss_load_filter_config h y path =
     (case load_yaml_root h y path of
        Inl e \<Rightarrow> Inl (LoadSync e)
      | Inr doc \<Rightarrow>
          if y_is_scalar y doc then Inl LoadYaml
          else
            let filters = y_child y doc ''filters'' in
            if \<not> y_defined y filters \<or> \<not> y_is_map y filters
            then Inr \<lparr>ss_cfg_tenant_blacklist = [], ss_cfg_table_blacklist = [],
                      ss_cfg_tenant_id_columns = []\<rparr>
            else
              case y_string_list y filters ''tenant_blacklist'' of None \<Rightarrow> Inl LoadYaml | Some tenants \<Rightarrow>
              case y_string_list y filters ''table_blacklist'' of None \<Rightarrow> Inl LoadYaml | Some tables \<Rightarrow>
              case y_string_list y filters ''tenant_id_columns'' of None \<Rightarrow> Inl LoadYaml | Some cols \<Rightarrow>
              Inr \<lparr>ss_cfg_tenant_blacklist = tenants, ss_cfg_table_blacklist = tables,
                   ss_cfg_tenant_id_columns =
                     (if cols = [] then [''system_domain_id''] else cols)\<rparr>)"

section \<open>Lemmas\<close>

lemma parse_table_configs_length:
  "parse_table_configs y ns = Some ts \<Longrightarrow> length ts = length ns"
  by (induction ns arbitrary: ts) (auto split: option.splits)

end
