(* ===== verification/Sstable_Loader.thy ===== *)
theory Sstable_Loader
  imports Token_Range Sstable_Config
begin

text \<open>
  \<open>SSTableLoader\<close> (\<open>services/sstable-loader/include/sstable_loader/loader.hpp\<close>,
  \<open>src/loader.cpp\<close>): the migration of tables by token ranges, its control flags and
  counters.

  \<^item> The threads of a batch each handle one range; \<open>sched\<close> gives the order in which they
    take effect, and every one of them runs exactly once before the batch is joined.
  \<^item> Control calls (\<open>pause\<close>, \<open>resume\<close>, \<open>stop\<close>, \<open>stop_migration\<close>) arrive from other threads.
    The \<open>inbox\<close> lists the calls that arrive before each successive look at the flags; after
    its end none arrives.
  \<^item> A \<open>run\<close> says how a call ends: it returns, it waits for ever, or it dies of a
    division by zero in \<open>calculate_ranges\<close>.
  \<^item> \<open>loader.cpp\<close> reads \<open>retry_delay_ms\<close> and \<open>tenant_id_columns\<close>, which
    \<open>LoaderConfig\<close> does not declare. They only reach calls that are commented out, and are
    arguments of the functions that would receive them.
  \<^item> nlohmann's JSON library is a parameter, \<open>json_api\<close>.
\<close>

section \<open>Definitions\<close>

subsection \<open>State\<close>

record migration_stats =
  ms_total_rows :: u64
  ms_migrated_rows :: u64
  ms_failed_rows :: u64
  ms_filtered_rows :: u64
  ms_tables_completed :: u64
  ms_tables_total :: u64
  ms_tables_skipped :: u64
  ms_skipped_corrupted_ranges :: u64
  ms_progress_percent :: real
  ms_throughput_rows_per_sec :: real
  ms_elapsed_secs :: real
  ms_is_running :: bool
  ms_is_paused :: bool

record sstable_loader =
  ld_config :: sstable_loader_config
  ld_source :: scylla_connection
  ld_target :: scylla_connection
  ld_filter :: "ss_governor option"
  ld_metrics :: "metrics_registry option"
  ld_total_rows :: u64
  ld_migrated_rows :: u64
  ld_failed_rows :: u64
  ld_filtered_rows :: u64
  ld_tables_completed :: u64
  ld_tables_total :: u64
  ld_tables_skipped :: u64
  ld_skipped_ranges :: u64
  ld_running :: bool
  ld_paused :: bool

definition sstable_loader_new ::
  "sstable_loader_config \<Rightarrow> scylla_connection \<Rightarrow> scylla_connection \<Rightarrow> ss_governor option
   \<Rightarrow> metrics_registry option \<Rightarrow> sstable_loader" where
  "sstable_loader_new cfg src tgt flt mtr =
     \<lparr>ld_config = cfg, ld_source = src, ld_target = tgt, ld_filter = flt, ld_metrics = mtr,
      ld_total_rows = 0, ld_migrated_rows = 0, ld_failed_rows = 0, ld_filtered_rows = 0,
      ld_tables_completed = 0, ld_tables_total = 0, ld_tables_skipped = 0,
      ld_skipped_ranges = 0, ld_running = False, ld_paused = False\<rparr>"

definition loader_opts :: "sstable_loader \<Rightarrow> loader_config" where
  "loader_opts l = slc_loader (ld_config l)"

text \<open>\<open>fl\<close> rounds to \<open>float\<close>.\<close>

definition loader_get_stats :: "(real \<Rightarrow> real) \<Rightarrow> sstable_loader \<Rightarrow> migration_stats" where
  "loader_get_stats fl l =
     \<lparr>ms_total_rows = ld_total_rows l, ms_migrated_rows = ld_migrated_rows l,
      ms_failed_rows = ld_failed_rows l, ms_filtered_rows = ld_filtered_rows l,
      ms_tables_completed = ld_tables_completed l, ms_tables_total = ld_tables_total l,
      ms_tables_skipped = ld_tables_skipped l, ms_skipped_corrupted_ranges = ld_skipped_ranges l,
      ms_progress_percent =
        (if 0 < ld_total_rows l
         then fl (fl (fl (of_nat (unat (ld_migrated_rows l))) / fl (of_nat (unat (ld_total_rows l)))) * 100)
         else 0),
      ms_throughput_rows_per_sec = 0, ms_elapsed_secs = 0,
      ms_is_running = ld_running l, ms_is_paused = ld_paused l\<rparr>"

subsection \<open>Control\<close>

definition loader_pause :: "sstable_loader \<Rightarrow> sstable_loader" where
  "loader_pause l = l\<lparr>ld_paused := True\<rparr>"

definition loader_resume :: "sstable_loader \<Rightarrow> sstable_loader" where
  "loader_resume l = l\<lparr>ld_paused := False\<rparr>"

definition loader_stop :: "sstable_loader \<Rightarrow> sstable_loader" where
  "loader_stop l = l\<lparr>ld_running := False\<rparr>"

definition is_running :: "sstable_loader \<Rightarrow> bool" where
  "is_running l = ld_running l"

definition is_paused :: "sstable_loader \<Rightarrow> bool" where
  "is_paused l = ld_paused l"

definition stop_migration :: "sstable_loader \<Rightarrow> unit outcome \<times> sstable_loader" where
  "stop_migration l =
     (if \<not> ld_running l then (Inl (MigrationError ''No migration is running''), l)
      else (Inr (), l\<lparr>ld_running := False, ld_paused := False\<rparr>))"

datatype control = CtlPause | CtlResume | CtlStop | CtlStopMigration

fun apply_control :: "control \<Rightarrow> sstable_loader \<Rightarrow> sstable_loader" where
  "apply_control CtlPause l = loader_pause l"
| "apply_control CtlResume l = loader_resume l"
| "apply_control CtlStop l = loader_stop l"
| "apply_control CtlStopMigration l = snd (stop_migration l)"

type_synonym inbox = "control list list"

text \<open>A look at the flags: the calls that have arrived by then take effect first.\<close>

fun poll :: "inbox \<Rightarrow> sstable_loader \<Rightarrow> inbox \<times> sstable_loader" where
  "poll [] l = ([], l)"
| "poll (cs # rest) l = (rest, fold apply_control cs l)"

datatype 'a run = Returned 'a | NeverReturns | DivByZero

fun run_bind :: "'a run \<Rightarrow> ('a \<Rightarrow> 'b run) \<Rightarrow> 'b run" where
  "run_bind (Returned x) f = f x"
| "run_bind NeverReturns f = NeverReturns"
| "run_bind DivByZero f = DivByZero"

subsection \<open>Partition keys\<close>

definition discover_query :: "string \<Rightarrow> string \<Rightarrow> string" where
  "discover_query keyspace table =
     ''SELECT column_name, position FROM system_schema.columns '' @
     ''WHERE keyspace_name = '' @ [CHR 0x27] @ keyspace @
     [CHR 0x27] @ '' AND table_name = '' @ [CHR 0x27] @ table @
     [CHR 0x27] @ '' AND kind = '' @ [CHR 0x27] @ ''partition_key'' @ [CHR 0x27] @ '' ALLOW FILTERING''"

text \<open>The result of the query is not read: the answer is always \<open>id\<close>.\<close>

definition discover_partition_keys ::
  "'w driver \<Rightarrow> string \<Rightarrow> string \<Rightarrow> sstable_loader \<Rightarrow> 'w io \<Rightarrow> string list \<times> 'w io" where
  "discover_partition_keys d keyspace table l s =
     ([''id''], snd (conn_execute d (ld_source l) (discover_query keyspace table) s))"

definition resolve_partition_keys ::
  "'w driver \<Rightarrow> table_config \<Rightarrow> sstable_loader \<Rightarrow> 'w io \<Rightarrow> string list \<times> 'w io" where
  "resolve_partition_keys d t l s =
     (if tc_partition_key t \<noteq> [] then (tc_partition_key t, s)
      else
        case find_char CHR ''.'' (tc_name t) of
          Some dot_pos \<Rightarrow>
            discover_partition_keys d (take dot_pos (tc_name t)) (drop (dot_pos + 1) (tc_name t)) l s
        | None \<Rightarrow> ([''id''], s))"

subsection \<open>Rows\<close>

text \<open>The retry loop of \<open>insert_row_with_retry\<close>. The row and the delay do not reach the
  driver.\<close>

function insert_attempts ::
  "'w driver \<Rightarrow> string \<Rightarrow> u32 \<Rightarrow> u32 \<Rightarrow> sstable_loader \<Rightarrow> 'w io \<Rightarrow> bool \<times> sstable_loader \<times> 'w io"
  where
  "insert_attempts d insert_query retries attempt l s =
     (if attempt \<le> retries
      then
        case conn_execute d (ld_target l) insert_query s of
          (Inr _, s') \<Rightarrow> (True, l\<lparr>ld_migrated_rows := ld_migrated_rows l + 1\<rparr>, s')
        | (Inl _, s') \<Rightarrow>
            if attempt < retries
            then insert_attempts d insert_query retries (attempt + 1) l s'
            else (False, l\<lparr>ld_failed_rows := ld_failed_rows l + 1\<rparr>, s')
      else (False, l, s))"
  by pat_completeness auto
termination
proof (relation "measure (\<lambda>(d, q, retries, attempt, l, s). unat retries - unat attempt)")
  fix d :: "'w driver" and q and retries attempt :: u32 and l and s s' :: "'w io"
    and p r e
  assume "attempt < retries"
  then have "unat (attempt + 1) = Suc (unat attempt)" "unat attempt < unat retries"
    using unsigned_less [of retries, where 'a = nat]
    by (simp_all add: word_less_nat_alt unat_word_ariths)
  then show "((d, q, retries, attempt + 1, l, s'), d, q, retries, attempt, l, s) \<in>
      measure (\<lambda>(d, q, retries, attempt, l, s). unat retries - unat attempt)"
    by simp
qed simp

declare insert_attempts.simps [simp del]

definition insert_row_with_retry ::
  "'w driver \<Rightarrow> string \<Rightarrow> string \<Rightarrow> u32 \<Rightarrow> u64 \<Rightarrow> sstable_loader \<Rightarrow> 'w io
   \<Rightarrow> bool \<times> sstable_loader \<times> 'w io" where
  "insert_row_with_retry d insert_query json_row retries delay_ms l s =
     insert_attempts d insert_query retries 0 l s"

text \<open>nlohmann's JSON: \<open>parse\<close> and \<open>dump\<close> may throw, \<open>contains\<close> is false on a value that is
  not an object.\<close>

record 'j json_api =
  j_parse :: "string \<Rightarrow> 'j option"
  j_contains :: "'j \<Rightarrow> string \<Rightarrow> bool"
  j_at :: "'j \<Rightarrow> string \<Rightarrow> 'j"
  j_is_string :: "'j \<Rightarrow> bool"
  j_get_string :: "'j \<Rightarrow> string"
  j_dump :: "'j \<Rightarrow> string option"

text \<open>The loop over the tenant columns; a \<open>json::exception\<close> ends it with "not skipped".\<close>

fun filter_columns ::
  "'j json_api \<Rightarrow> 'j \<Rightarrow> string list \<Rightarrow> ss_governor \<Rightarrow> bool \<times> ss_governor" where
  "filter_columns j row [] g = (False, g)"
| "filter_columns j row (c # cs) g =
     (if j_contains j row c
      then
        case (if j_is_string j (j_at j row c) then Some (j_get_string j (j_at j row c))
              else j_dump j (j_at j row c)) of
          None \<Rightarrow> (False, g)
        | Some tenant_id \<Rightarrow>
            (case ss_check_tenant_id tenant_id g of
               (SkipTenant, g') \<Rightarrow> (True, g')
             | (_, g') \<Rightarrow> filter_columns j row cs g')
      else filter_columns j row cs g)"

definition filter_json_row ::
  "'j json_api \<Rightarrow> string \<Rightarrow> string list \<Rightarrow> sstable_loader \<Rightarrow> bool \<times> sstable_loader" where
  "filter_json_row j json_row tenant_id_columns l =
     (case ld_filter l of
        None \<Rightarrow> (False, l)
      | Some g \<Rightarrow>
          if \<not> ss_is_enabled g \<or> tenant_id_columns = [] then (False, l)
          else
            case j_parse j json_row of
              None \<Rightarrow> (False, l)
            | Some row \<Rightarrow>
                let (skip, g') = filter_columns j row tenant_id_columns g;
                    l' = l\<lparr>ld_filter := Some g'\<rparr>
                in (skip, if skip then l'\<lparr>ld_filtered_rows := ld_filtered_rows l' + 1\<rparr> else l'))"

subsection \<open>Ranges\<close>

text \<open>The per-page retry loop: after the last attempt the range fails with the last error.\<close>

function fetch_page ::
  "'w driver \<Rightarrow> string \<Rightarrow> u32 \<Rightarrow> u32 \<Rightarrow> u32 \<Rightarrow> sstable_loader \<Rightarrow> 'w io \<Rightarrow> unit outcome \<times> 'w io" where
  "fetch_page d query page_num retries attempt l s =
     (case conn_execute d (ld_source l) query s of
        (Inr _, s') \<Rightarrow> (Inr (), s')
      | (Inl e, s') \<Rightarrow>
          if attempt < retries then fetch_page d query page_num retries (attempt + 1) l s'
          else (Inl (DatabaseError (''Page '' @ nat_to_string (unat page_num) @
                 '' fetch failed after '' @ nat_to_string (unat retries) @
                 '' retries: '' @ what e)), s'))"
  by pat_completeness auto
termination
proof (relation "measure (\<lambda>(d, q, n, retries, attempt, l, s). unat retries - unat attempt)")
  fix d :: "'w driver" and q and n retries attempt :: u32 and l and s s' :: "'w io" and p r e
  assume "attempt < retries"
  then have "unat (attempt + 1) = Suc (unat attempt)" "unat attempt < unat retries"
    using unsigned_less [of retries, where 'a = nat]
    by (simp_all add: word_less_nat_alt unat_word_ariths)
  then show "((d, q, n, retries, attempt + 1, l, s'), d, q, n, retries, attempt, l, s) \<in>
      measure (\<lambda>(d, q, n, retries, attempt, l, s). unat retries - unat attempt)"
    by simp
qed simp

declare fetch_page.simps [simp del]

text \<open>\<open>has_more_pages\<close> is set to false in the first iteration of the page loop, and the code
  that would read rows is commented out on both paths.\<close>

definition process_range_sync ::
  "'w driver \<Rightarrow> token_range \<Rightarrow> string \<Rightarrow> string list \<Rightarrow> sstable_loader \<Rightarrow> 'w io
   \<Rightarrow> unit outcome \<times> sstable_loader \<times> 'w io" where
  "process_range_sync d r table partition_keys l s =
     (let query = build_range_query table partition_keys r in
      if lc_enable_pagination (loader_opts l)
      then (let (out, s') = fetch_page d query 0 (lc_page_retry_attempts (loader_opts l)) 0 l s
            in (out, l, s'))
      else
        case conn_execute d (ld_source l) query s of
          (Inr _, s') \<Rightarrow> (Inr (), l, s')
        | (Inl e, s') \<Rightarrow>
            (Inl e,
             l\<lparr>ld_failed_rows := ld_failed_rows l + 1, ld_skipped_ranges := ld_skipped_ranges l + 1\<rparr>,
             s'))"

text \<open>The coroutine around it, which nothing calls.\<close>

definition process_range ::
  "'w driver \<Rightarrow> token_range \<Rightarrow> string \<Rightarrow> string list \<Rightarrow> sstable_loader \<Rightarrow> 'w io
   \<Rightarrow> unit outcome \<times> sstable_loader \<times> 'w io" where
  "process_range d r table partition_keys l s = process_range_sync d r table partition_keys l s"

text \<open>The body of one thread of a batch.\<close>

definition range_thread ::
  "'w driver \<Rightarrow> string \<Rightarrow> string list \<Rightarrow> token_range \<Rightarrow> sstable_loader \<times> 'w io \<Rightarrow> sstable_loader \<times> 'w io"
  where
  "range_thread d table partition_keys r st =
     (case process_range_sync d r table partition_keys (fst st) (snd st) of
        (Inr _, l, s) \<Rightarrow> (l, s)
      | (Inl _, l, s) \<Rightarrow> (l\<lparr>ld_skipped_ranges := ld_skipped_ranges l + 1\<rparr>, s))"

subsection \<open>Tables\<close>

text \<open>\<open>while (is_paused) { if (!is_running) break; sleep }\<close>, one look at the flags per turn.\<close>

fun pause_gate :: "inbox \<Rightarrow> sstable_loader \<Rightarrow> (inbox \<times> sstable_loader) run" where
  "pause_gate [] l =
     (if \<not> ld_paused l \<or> \<not> ld_running l then Returned ([], l) else NeverReturns)"
| "pause_gate (cs # rest) l =
     (if \<not> ld_paused l \<or> \<not> ld_running l then Returned (cs # rest, l)
      else pause_gate rest (fold apply_control cs l))"

text \<open>The loop over the batches. With \<open>max_concurrent_loaders = 0\<close> the loop never advances:
  its batches are empty and it ends only when a stop arrives.\<close>

fun run_batches ::
  "'w driver \<Rightarrow> (token_range list \<Rightarrow> token_range list) \<Rightarrow> string \<Rightarrow> string list \<Rightarrow> token_range list list
   \<Rightarrow> inbox \<Rightarrow> sstable_loader \<Rightarrow> 'w io \<Rightarrow> (inbox \<times> sstable_loader \<times> 'w io) run" where
  "run_batches d sched table keys [] box l s = Returned (box, l, s)"
| "run_batches d sched table keys (b # bs) box l s =
     (let (box1, l1) = poll box l in
      if \<not> ld_running l1 then Returned (box1, l1, s)
      else
        run_bind (pause_gate box1 l1) (\<lambda>(box2, l2).
          let (l3, s3) = fold (range_thread d table keys) (sched b) (l2, s)
          in run_batches d sched table keys bs box2 l3 s3))"

lemma pause_gate_shortens: "pause_gate box l = Returned (box', l') \<Longrightarrow> length box' \<le> length box"
  by (induction box l rule: pause_gate.induct) (auto split: if_splits)

function spin :: "inbox \<Rightarrow> sstable_loader \<Rightarrow> (inbox \<times> sstable_loader) run" where
  "spin box l =
     (case box of
        [] \<Rightarrow> if ld_running l then NeverReturns else Returned ([], l)
      | cs # rest \<Rightarrow>
          let l1 = fold apply_control cs l in
          if \<not> ld_running l1 then Returned (rest, l1)
          else
            case pause_gate rest l1 of
              Returned (box2, l2) \<Rightarrow> spin box2 l2
            | NeverReturns \<Rightarrow> NeverReturns
            | DivByZero \<Rightarrow> DivByZero)"
  by pat_completeness auto
termination
  by (relation "measure (\<lambda>(box, l). length box)") (auto dest: pause_gate_shortens)

declare spin.simps [simp del]

definition migrate_table ::
  "'w driver \<Rightarrow> (token_range list \<Rightarrow> token_range list) \<Rightarrow> table_config \<Rightarrow> inbox \<Rightarrow> sstable_loader
   \<Rightarrow> 'w io \<Rightarrow> (inbox \<times> sstable_loader \<times> 'w io) run" where
  "migrate_table d sched t box l s =
     (let (keys, s1) = resolve_partition_keys d t l s;
          (ranges, s2) = calculate_ranges d (ld_source l) (lc_num_ranges_per_core (loader_opts l)) s1
      in case ranges of
           None \<Rightarrow> DivByZero
         | Some rs \<Rightarrow>
             let max_concurrent = unat (lc_max_concurrent_loaders (loader_opts l)) in
             if max_concurrent = 0 \<and> rs \<noteq> []
             then run_bind (spin box l) (\<lambda>(box', l'). Returned (box', l', s2))
             else run_batches d sched (tc_name t) keys (batches_of max_concurrent rs) box l s2)"

subsection \<open>Migrations\<close>

definition keyspace_of :: "string \<Rightarrow> string" where
  "keyspace_of name = (case find_char CHR ''.'' name of Some dot_pos \<Rightarrow> take dot_pos name | None \<Rightarrow> [])"

definition select_tables :: "string list \<Rightarrow> table_config list \<Rightarrow> table_config list" where
  "select_tables keyspace_filter tables =
     (if keyspace_filter = [] then tables
      else filter (\<lambda>t. list_ex (\<lambda>f. f = keyspace_of (tc_name t) \<or> f = tc_name t) keyspace_filter) tables)"

text \<open>\<open>filter_ && filter_->should_skip_table(table.name) == SkipTable\<close>.\<close>

definition table_gate :: "string \<Rightarrow> sstable_loader \<Rightarrow> bool \<times> sstable_loader" where
  "table_gate table l =
     (case ld_filter l of
        None \<Rightarrow> (False, l)
      | Some g \<Rightarrow>
          let (decision, g') = ss_should_skip_table table g
          in (decision = SkipTable, l\<lparr>ld_filter := Some g'\<rparr>))"

fun migrate_tables ::
  "'w driver \<Rightarrow> (token_range list \<Rightarrow> token_range list) \<Rightarrow> table_config list \<Rightarrow> inbox \<Rightarrow> sstable_loader
   \<Rightarrow> 'w io \<Rightarrow> (inbox \<times> sstable_loader \<times> 'w io) run" where
  "migrate_tables d sched [] box l s = Returned (box, l, s)"
| "migrate_tables d sched (t # ts) box l s =
     (let (box1, l1) = poll box l in
      if \<not> ld_running l1 then Returned (box1, l1, s)
      else
        let (skip, l2) = table_gate (tc_name t) l1
        in if skip
           then migrate_tables d sched ts box1 (l2\<lparr>ld_tables_skipped := ld_tables_skipped l2 + 1\<rparr>) s
           else run_bind (migrate_table d sched t box1 l2 s) (\<lambda>(box3, l3, s3).
                  migrate_tables d sched ts box3
                    (l3\<lparr>ld_tables_completed := ld_tables_completed l3 + 1\<rparr>) s3))"

definition reset_stats :: "sstable_loader \<Rightarrow> sstable_loader" where
  "reset_stats l =
     l\<lparr>ld_total_rows := 0, ld_migrated_rows := 0, ld_failed_rows := 0, ld_filtered_rows := 0,
       ld_tables_completed := 0, ld_tables_skipped := 0, ld_skipped_ranges := 0\<rparr>"

text \<open>\<open>fl\<close> and \<open>fl64\<close> round to \<open>float\<close> and \<open>double\<close>, \<open>elapsed_ms\<close> is the measured duration.\<close>

definition start_migration ::
  "'w driver \<Rightarrow> (token_range list \<Rightarrow> token_range list) \<Rightarrow> (real \<Rightarrow> real) \<Rightarrow> (real \<Rightarrow> real) \<Rightarrow> int
   \<Rightarrow> string list \<Rightarrow> inbox \<Rightarrow> sstable_loader \<Rightarrow> 'w io
   \<Rightarrow> (migration_stats outcome \<times> inbox \<times> sstable_loader \<times> 'w io) run" where
  "start_migration d sched fl fl64 elapsed_ms keyspace_filter box l s =
     (if ld_running l then Returned (Inl (MigrationError ''Migration already running''), box, l, s)
      else
        let ts = select_tables keyspace_filter (lc_tables (loader_opts l));
            l1 = (reset_stats l)\<lparr>ld_running := True, ld_tables_total := of_nat (length ts)\<rparr>
        in run_bind (migrate_tables d sched ts box l1 s) (\<lambda>(box', l2, s').
             let l3 = l2\<lparr>ld_running := False\<rparr>;
                 secs = fl64 (fl64 (of_int elapsed_ms) / 1000);
                 st = (loader_get_stats fl l3)\<lparr>ms_elapsed_secs := secs\<rparr>;
                 st' = (if 0 < secs
                        then st\<lparr>ms_throughput_rows_per_sec :=
                               fl64 (fl64 (of_nat (unat (ms_migrated_rows st))) / secs)\<rparr>
                        else st)
             in Returned (Inr st', box', l3, s')))"

text \<open>\<open>migrate_single_table\<close>: no blacklist check, and the table counters are not reset.
  \<open>migrate_table\<close> raises no \<open>SyncError\<close>, so the handler is never entered.\<close>

definition migrate_single_table ::
  "'w driver \<Rightarrow> (token_range list \<Rightarrow> token_range list) \<Rightarrow> (real \<Rightarrow> real) \<Rightarrow> string \<Rightarrow> string \<Rightarrow> inbox
   \<Rightarrow> sstable_loader \<Rightarrow> 'w io \<Rightarrow> (migration_stats outcome \<times> inbox \<times> sstable_loader \<times> 'w io) run" where
  "migrate_single_table d sched fl keyspace table_name box l s =
     (if ld_running l then Returned (Inl (MigrationError ''Migration already in progress''), box, l, s)
      else
        let full_name = keyspace @ ''.'' @ table_name;
            l1 = l\<lparr>ld_total_rows := 0, ld_migrated_rows := 0, ld_failed_rows := 0,
                   ld_filtered_rows := 0, ld_tables_total := 1, ld_running := True\<rparr>
        in run_bind (migrate_table d sched \<lparr>tc_name = full_name, tc_partition_key = []\<rparr> box l1 s)
             (\<lambda>(box', l2, s').
               let l3 = l2\<lparr>ld_tables_completed := ld_tables_completed l2 + 1, ld_running := False\<rparr>
               in Returned (Inr (loader_get_stats fl l3), box', l3, s')))"

section \<open>Lemmas\<close>

subsection \<open>Frames\<close>

text \<open>What the work of a migration never changes, and what control calls never change.\<close>

definition same_job :: "sstable_loader \<Rightarrow> sstable_loader \<Rightarrow> bool" where
  "same_job l l' \<longleftrightarrow>
     ld_config l' = ld_config l \<and> ld_source l' = ld_source l \<and> ld_target l' = ld_target l \<and>
     ld_filter l' = ld_filter l \<and> ld_migrated_rows l' = ld_migrated_rows l \<and>
     ld_tables_completed l' = ld_tables_completed l \<and> ld_tables_skipped l' = ld_tables_skipped l \<and>
     ld_tables_total l' = ld_tables_total l"

lemma same_job_refl [simp]: "same_job l l"
  by (simp add: same_job_def)

lemma same_job_trans: "same_job l l' \<Longrightarrow> same_job l' l'' \<Longrightarrow> same_job l l''"
  by (simp add: same_job_def)

lemma same_job_opts: "same_job l l' \<Longrightarrow> loader_opts l' = loader_opts l"
  by (simp add: same_job_def loader_opts_def)

lemma apply_control_same: "same_job l (apply_control c l)"
  by (cases c) (auto simp: same_job_def loader_pause_def loader_resume_def loader_stop_def
      stop_migration_def)

lemma fold_apply_control_same: "same_job l (fold apply_control cs l)"
proof (induction cs arbitrary: l)
  case (Cons c cs)
  show ?case using same_job_trans [OF apply_control_same Cons] by simp
qed simp

lemma poll_same: "poll box l = (box', l') \<Longrightarrow> same_job l l'"
  by (cases box) (auto simp: fold_apply_control_same)

lemma pause_gate_same: "pause_gate box l = Returned (box', l') \<Longrightarrow> same_job l l'"
proof (induction box l rule: pause_gate.induct)
  case (2 cs rest l)
  then show ?case
    using same_job_trans [OF fold_apply_control_same] by (auto split: if_splits)
qed (auto split: if_splits)

lemma spin_unfold:
  "spin [] l = (if ld_running l then NeverReturns else Returned ([], l))"
  "spin (cs # rest) l =
     (let l1 = fold apply_control cs l in
      if \<not> ld_running l1 then Returned (rest, l1)
      else run_bind (pause_gate rest l1) (\<lambda>(box2, l2). spin box2 l2))"
  by (subst spin.simps, auto simp: Let_def split: run.splits)+

lemma spin_same: "spin box l = Returned (box', l') \<Longrightarrow> same_job l l'"
proof (induction box arbitrary: l rule: length_induct)
  case (1 box)
  show ?case
  proof (cases box)
    case Nil
    with 1(2) show ?thesis by (auto simp: spin_unfold split: if_splits)
  next
    case (Cons cs rest)
    let ?l = "fold apply_control cs l"
    show ?thesis
    proof (cases "ld_running ?l")
      case False
      with 1(2) Cons show ?thesis by (auto simp: spin_unfold Let_def fold_apply_control_same)
    next
      case True
      then obtain box2 l2 where g: "pause_gate rest ?l = Returned (box2, l2)"
        "spin box2 l2 = Returned (box', l')"
        using 1(2) Cons by (cases "pause_gate rest ?l") (auto simp: spin_unfold Let_def)
      have "length box2 < length box" using pause_gate_shortens [OF g(1)] Cons by simp
      then have "same_job l2 l'" using 1(1) g(2) by blast
      then show ?thesis
        using fold_apply_control_same pause_gate_same [OF g(1)] same_job_trans by blast
    qed
  qed
qed

subsection \<open>Ranges\<close>

text \<open>Only queries of the set \<open>Q\<close> are executed, and only on the source.\<close>

definition queries_only :: "string set \<Rightarrow> sstable_loader \<Rightarrow> 'w io \<Rightarrow> 'w io \<Rightarrow> bool" where
  "queries_only Q l s s' \<longleftrightarrow>
     (\<exists>new. io_calls s' = io_calls s @ new \<and>
        (\<forall>c \<in> set new. live (ld_source l) \<and> (\<exists>q \<in> Q. c = SessionExecute (the (conn_session (ld_source l))) q)))"

text \<open>The same step by step: one such query after the other, and nothing else, acts on the driver.\<close>

definition one_query :: "'w driver \<Rightarrow> string set \<Rightarrow> scylla_connection \<Rightarrow> 'w io \<Rightarrow> 'w io \<Rightarrow> bool" where
  "one_query d Q c s s' \<longleftrightarrow> (\<exists>q \<in> Q. \<exists>r. conn_execute d c q s = (r, s'))"

definition query_run :: "'w driver \<Rightarrow> string set \<Rightarrow> sstable_loader \<Rightarrow> 'w io \<Rightarrow> 'w io \<Rightarrow> bool" where
  "query_run d Q l = (one_query d Q (ld_source l))\<^sup>*\<^sup>*"

lemma query_run_refl [simp]: "query_run d Q l s s"
  by (simp add: query_run_def)

lemma query_run_mono:
  assumes "query_run d Q l s s'" "Q \<subseteq> R"
  shows "query_run d R l s s'"
proof -
  have "one_query d Q (ld_source l) \<le> one_query d R (ld_source l)"
    using assms(2) unfolding one_query_def by blast
  from rtranclp_mono [OF this] show ?thesis using assms(1) by (auto simp: query_run_def)
qed

lemma query_run_trans: "query_run d Q l s s' \<Longrightarrow> query_run d Q l s' s'' \<Longrightarrow> query_run d Q l s s''"
  unfolding query_run_def by (rule rtranclp_trans)

lemma query_run_source: "ld_source l' = ld_source l \<Longrightarrow> query_run d Q l' s s' = query_run d Q l s s'"
  by (simp add: query_run_def)

lemma query_run_job: "same_job l l' \<Longrightarrow> query_run d Q l' s s' = query_run d Q l s s'"
  by (rule query_run_source) (simp add: same_job_def)

lemma work_trans:
  assumes "same_job l l'" "query_run d Q l s s'" "same_job l' l'' \<and> query_run d Q l' s' s''"
  shows "same_job l l'' \<and> query_run d Q l s s''"
  using assms same_job_trans query_run_trans query_run_job [OF assms(1)] by blast

lemma query_run_execute:
  "conn_execute d (ld_source l) q s = (r, s') \<Longrightarrow> q \<in> Q \<Longrightarrow> query_run d Q l s s'"
  unfolding query_run_def by (rule r_into_rtranclp) (auto simp: one_query_def)

lemma query_run_only:
  assumes "query_run d Q l s s'"
  shows "queries_only Q l s s'"
  using assms unfolding query_run_def
proof (induction rule: rtranclp_induct)
  case (step s1 s2)
  then obtain q r where "q \<in> Q" "conn_execute d (ld_source l) q s1 = (r, s2)" by (auto simp: one_query_def)
  then show ?case
    using step.IH io_calls_executeD [of d "ld_source l" q s1 r s2]
    by (fastforce simp: queries_only_def exec_calls_def)
qed (simp add: queries_only_def)

lemma fetch_page_source: "fetch_page d q n m a l s = (r, s') \<Longrightarrow> q \<in> Q \<Longrightarrow> query_run d Q l s s'"
proof (induction d q n m a l s rule: fetch_page.induct)
  case (1 d q n m a l s)
  obtain r1 s1 where ex: "conn_execute d (ld_source l) q s = (r1, s1)" by force
  then show ?case
    using 1 query_run_execute [OF ex] query_run_trans
    by (fastforce simp: fetch_page.simps [of d q n m a] split: sum.splits if_splits)
qed

text \<open>The range queries of a table, and all queries of its migration.\<close>

definition range_queries :: "string \<Rightarrow> string set" where
  "range_queries table = {q. \<exists>keys r. q = build_range_query table keys r}"

definition table_queries :: "table_config \<Rightarrow> string set" where
  "table_queries t =
     range_queries (tc_name t) \<union> {''SELECT peer FROM system.peers''} \<union>
     {q. \<exists>i. find_char CHR ''.'' (tc_name t) = Some i \<and>
             q = discover_query (take i (tc_name t)) (drop (i + 1) (tc_name t))}"

lemma range_thread_keeps:
  assumes "range_thread d t ks r (l, s) = (l', s')"
  shows "same_job l l'" "ld_running l' = ld_running l" "ld_paused l' = ld_paused l"
    "query_run d (range_queries t) l s s'"
proof -
  obtain out l1 s1 where run: "process_range_sync d r t ks l s = (out, l1, s1)" by (metis prod_cases3)
  have "build_range_query t ks r \<in> range_queries t" by (auto simp: range_queries_def)
  then have "query_run d (range_queries t) l s s1"
    using run fetch_page_source query_run_execute
    by (fastforce simp: process_range_sync_def Let_def split: if_splits sum.splits prod.splits)
  moreover have "same_job l l1" "ld_running l1 = ld_running l" "ld_paused l1 = ld_paused l"
    using run by (auto simp: process_range_sync_def Let_def same_job_def split: if_splits sum.splits prod.splits)
  moreover have "s' = s1" "l' = l1 \<or> l' = l1\<lparr>ld_skipped_ranges := ld_skipped_ranges l1 + 1\<rparr>"
    using assms run by (auto simp: range_thread_def split: sum.splits)
  ultimately show "same_job l l'" "ld_running l' = ld_running l" "ld_paused l' = ld_paused l"
    "query_run d (range_queries t) l s s'"
    by (auto simp: same_job_def)
qed

lemma range_thread_calls:
  assumes "range_thread d t ks r (l, s) = (l', s')" "\<not> lc_enable_pagination (loader_opts l)"
  shows "io_calls s' = io_calls s @ exec_calls (ld_source l) (build_range_query t ks r)"
  using assms
  by (auto simp: range_thread_def process_range_sync_def Let_def
      dest: io_calls_executeD split: sum.splits prod.splits)

lemma fold_threads_keeps:
  "fold (range_thread d t ks) rs (l, s) = (l', s') \<Longrightarrow>
   same_job l l' \<and> ld_running l' = ld_running l \<and> ld_paused l' = ld_paused l \<and> query_run d (range_queries t) l s s'"
proof (induction rs arbitrary: l s)
  case (Cons r rs)
  obtain l1 s1 where one: "range_thread d t ks r (l, s) = (l1, s1)" by force
  note keep = range_thread_keeps [OF one]
  have rest: "same_job l1 l' \<and> ld_running l' = ld_running l1 \<and> ld_paused l' = ld_paused l1 \<and>
      query_run d (range_queries t) l1 s1 s'"
    using Cons.IH [of l1 s1] Cons.prems one by simp
  then have "same_job l l'" using keep(1) same_job_trans by blast
  moreover have "query_run d (range_queries t) l s s'"
    using rest keep(4) query_run_job [OF keep(1)] query_run_trans by blast
  ultimately show ?case using rest keep(2,3) by simp
qed simp

lemma fold_threads_calls:
  "fold (range_thread d t ks) rs (l, s) = (l', s') \<Longrightarrow> \<not> lc_enable_pagination (loader_opts l) \<Longrightarrow>
   io_calls s' = io_calls s @ concat (map (\<lambda>r. exec_calls (ld_source l) (build_range_query t ks r)) rs)"
proof (induction rs arbitrary: l s)
  case (Cons r rs)
  obtain l1 s1 where one: "range_thread d t ks r (l, s) = (l1, s1)" by force
  note job = range_thread_keeps(1) [OF one]
  have eq: "ld_source l1 = ld_source l" "loader_opts l1 = loader_opts l"
    using job by (simp add: same_job_def) (rule same_job_opts [OF job])
  have "fold (range_thread d t ks) rs (l1, s1) = (l', s')" using Cons.prems(1) one by simp
  then have "io_calls s' = io_calls s1 @
      concat (map (\<lambda>r. exec_calls (ld_source l) (build_range_query t ks r)) rs)"
    using Cons.IH [of l1 s1] Cons.prems(2) eq by simp
  then show ?case
    using range_thread_calls [OF one Cons.prems(2)] by simp
qed simp

subsection \<open>Tables\<close>

lemma run_bind_Returned:
  "run_bind m f = Returned y \<longleftrightarrow> (\<exists>x. m = Returned x \<and> f x = Returned y)"
  by (cases m) auto

lemma run_batches_keeps:
  "run_batches d sched t ks bs box l s = Returned (box', l', s') \<Longrightarrow> same_job l l' \<and> query_run d (range_queries t) l s s'"
proof (induction bs arbitrary: box l s)
  case (Cons b bs)
  obtain box1 l1 where p: "poll box l = (box1, l1)" by force
  show ?case
  proof (cases "ld_running l1")
    case False
    with Cons.prems p poll_same [OF p] show ?thesis by simp
  next
    case True
    then obtain box2 l2 where g: "pause_gate box1 l1 = Returned (box2, l2)"
      and run: "(let (l3, s3) = fold (range_thread d t ks) (sched b) (l2, s)
        in run_batches d sched t ks bs box2 l3 s3) = Returned (box', l', s')"
      using Cons.prems p by (auto simp: run_bind_Returned)
    obtain l3 s3 where f: "fold (range_thread d t ks) (sched b) (l2, s) = (l3, s3)" by force
    have rest: "same_job l3 l' \<and> query_run d (range_queries t) l3 s3 s'" using Cons.IH [of box2 l3 s3] run f by simp
    have job: "same_job l l2" using poll_same [OF p] pause_gate_same [OF g] same_job_trans by blast
    have "same_job l2 l3" "query_run d (range_queries t) l2 s s3" using fold_threads_keeps [OF f] by simp_all
    then have "same_job l2 l' \<and> query_run d (range_queries t) l2 s s'" using rest by (rule work_trans)
    then show ?thesis using work_trans [OF job query_run_refl] by blast
  qed
qed simp

lemma run_batches_quiet:
  assumes "ld_running l" "\<not> ld_paused l"
  shows "run_batches d sched t ks bs [] l s =
    (let (l', s') = fold (range_thread d t ks) (concat (map sched bs)) (l, s) in Returned ([], l', s'))"
  using assms
proof (induction bs arbitrary: l s)
  case (Cons b bs)
  obtain l3 s3 where f: "fold (range_thread d t ks) (sched b) (l, s) = (l3, s3)" by force
  then show ?case
    using Cons fold_threads_keeps [OF f] by (simp add: Let_def)
qed simp

lemma resolve_source: "resolve_partition_keys d t l s = (ks, s') \<Longrightarrow> query_run d (table_queries t) l s s'"
  by (auto simp: resolve_partition_keys_def discover_partition_keys_def table_queries_def
      intro!: query_run_execute [OF prod.collapse [symmetric]] split: if_splits option.splits)

lemma calculate_ranges_source:
  "calculate_ranges d (ld_source l) n s = (rs, s') \<Longrightarrow> query_run d (table_queries t) l s s'"
  by (auto simp: calculate_ranges_def Let_def table_queries_def dest: query_run_execute split: prod.splits)

lemma migrate_table_keeps:
  assumes "migrate_table d sched t box l s = Returned (box', l', s')"
  shows "same_job l l' \<and> query_run d (table_queries t) l s s'"
proof -
  obtain ks s1 where k: "resolve_partition_keys d t l s = (ks, s1)" by force
  obtain rs s2 where r: "calculate_ranges d (ld_source l) (lc_num_ranges_per_core (loader_opts l)) s1 = (rs, s2)"
    by force
  have src: "query_run d (table_queries t) l s s2"
    using resolve_source [OF k] calculate_ranges_source [OF r] query_run_trans by blast
  have run: "query_run d (table_queries t) l s s'" if "query_run d (range_queries (tc_name t)) l s2 s'"
    using query_run_trans [OF src query_run_mono [OF that]] by (auto simp: table_queries_def)
  obtain ranges where "rs = Some ranges" using assms k r by (cases rs) (auto simp: migrate_table_def)
  then show ?thesis
    using assms k r src spin_same run_batches_keeps run
    by (fastforce simp: migrate_table_def Let_def run_bind_Returned split: if_splits)
qed

lemma calculate_ranges_Some:
  "0 < n \<Longrightarrow> \<exists>rs. fst (calculate_ranges d c n s) = Some rs"
  using calculate_ranges_total by metis

lemma migrate_table_quiet:
  assumes "ld_running l" "\<not> ld_paused l"
    and "0 < lc_max_concurrent_loaders (loader_opts l)" "0 < lc_num_ranges_per_core (loader_opts l)"
    and "resolve_partition_keys d t l s = (ks, s1)"
    and "calculate_ranges d (ld_source l) (lc_num_ranges_per_core (loader_opts l)) s1 = (Some rs, s2)"
  shows "migrate_table d sched t [] l s =
    (let (l', s') = fold (range_thread d (tc_name t) ks) (concat (map sched
       (batches_of (unat (lc_max_concurrent_loaders (loader_opts l))) rs))) (l, s2)
     in Returned ([], l', s'))"
proof -
  have "unat (lc_max_concurrent_loaders (loader_opts l)) \<noteq> 0"
    using assms(3) by (simp add: word_less_nat_alt)
  then show ?thesis
    using assms by (simp add: migrate_table_def run_batches_quiet)
qed

lemma migrate_table_quiet_returns:
  assumes "ld_running l" "\<not> ld_paused l"
    and "0 < lc_max_concurrent_loaders (loader_opts l)" "0 < lc_num_ranges_per_core (loader_opts l)"
  obtains l' s' where "migrate_table d sched t [] l s = Returned ([], l', s')" "same_job l l'"
    "ld_running l'" "\<not> ld_paused l'"
proof -
  obtain ks s1 where k: "resolve_partition_keys d t l s = (ks, s1)" by force
  obtain rs s2 where r: "calculate_ranges d (ld_source l) (lc_num_ranges_per_core (loader_opts l)) s1 =
      (Some rs, s2)"
    using calculate_ranges_Some [OF assms(4), of d "ld_source l" s1] by (metis prod.collapse)
  let ?todo = "concat (map sched (batches_of (unat (lc_max_concurrent_loaders (loader_opts l))) rs))"
  obtain l' s' where f: "fold (range_thread d (tc_name t) ks) ?todo (l, s2) = (l', s')" by force
  show ?thesis
    using that migrate_table_quiet [OF assms k r, of sched] f fold_threads_keeps [OF f] assms(1,2) by simp
qed

subsection \<open>Migrations\<close>

definition ld_blacklists :: "sstable_loader \<Rightarrow> string \<Rightarrow> bool" where
  "ld_blacklists l t \<longleftrightarrow>
     (case ld_filter l of None \<Rightarrow> False | Some g \<Rightarrow> table_blacklisted (set (ss_table_blacklist g)) t)"

lemma table_gate_decides: "fst (table_gate t l) = ld_blacklists l t"
  by (auto simp: table_gate_def ld_blacklists_def ss_gov.decides split: option.splits)

lemma ld_blacklists_gate [frame_simps]: "ld_blacklists (snd (table_gate t l)) = ld_blacklists l"
  by (auto simp: table_gate_def ld_blacklists_def fun_eq_iff case_prod_beta ss_should_skip_table_frame
      split: option.splits)

lemma table_gate_frame [frame_simps]:
  "ld_config (snd (table_gate t l)) = ld_config l" "ld_source (snd (table_gate t l)) = ld_source l"
  "ld_target (snd (table_gate t l)) = ld_target l"
  "ld_migrated_rows (snd (table_gate t l)) = ld_migrated_rows l"
  "ld_tables_completed (snd (table_gate t l)) = ld_tables_completed l"
  "ld_tables_skipped (snd (table_gate t l)) = ld_tables_skipped l"
  "ld_tables_total (snd (table_gate t l)) = ld_tables_total l"
  "ld_running (snd (table_gate t l)) = ld_running l" "ld_paused (snd (table_gate t l)) = ld_paused l"
  by (simp_all add: table_gate_def case_prod_beta split: option.splits)

lemma same_job_blacklists: "same_job l l' \<Longrightarrow> ld_blacklists l' = ld_blacklists l"
  by (simp add: same_job_def ld_blacklists_def fun_eq_iff)

text \<open>What even a migration of several tables keeps: no row is ever counted as migrated, the rules
  stay, and only queries of \<open>Q\<close> are executed, on the source.\<close>

definition reads_only :: "'w driver \<Rightarrow> string set \<Rightarrow> sstable_loader \<Rightarrow> 'w io \<Rightarrow> sstable_loader \<Rightarrow> 'w io \<Rightarrow> bool" where
  "reads_only d Q l s l' s' \<longleftrightarrow>
     ld_source l' = ld_source l \<and> ld_target l' = ld_target l \<and> ld_migrated_rows l' = ld_migrated_rows l \<and>
     ld_blacklists l' = ld_blacklists l \<and> query_run d Q l s s'"

lemma reads_only_trans: "reads_only d Q l s l' s' \<Longrightarrow> reads_only d Q l' s' l'' s'' \<Longrightarrow> reads_only d Q l s l'' s''"
  unfolding reads_only_def using query_run_trans by (fastforce simp: query_run_def)

lemma reads_only_mono: "reads_only d Q l s l' s' \<Longrightarrow> Q \<subseteq> R \<Longrightarrow> reads_only d R l s l' s'"
  unfolding reads_only_def using query_run_mono by blast

lemma reads_only_job: "same_job l l' \<and> query_run d Q l s s' \<Longrightarrow> reads_only d Q l s l' s'"
  using same_job_blacklists [of l l'] by (simp add: reads_only_def same_job_def)

lemma reads_only_gate: "reads_only d Q l s (snd (table_gate t l)) s"
  by (simp add: reads_only_def frame_simps)

lemma reads_only_counters [simp]:
  "reads_only d Q (l\<lparr>ld_tables_skipped := x\<rparr>) s l' s' = reads_only d Q l s l' s'"
  "reads_only d Q (l\<lparr>ld_tables_completed := x\<rparr>) s l' s' = reads_only d Q l s l' s'"
  by (simp_all add: reads_only_def query_run_def ld_blacklists_def fun_eq_iff)

lemma ld_blacklists_counters [simp]:
  "ld_blacklists (l\<lparr>ld_tables_skipped := x\<rparr>) = ld_blacklists l"
  "ld_blacklists (l\<lparr>ld_tables_completed := x\<rparr>) = ld_blacklists l"
  by (simp_all add: ld_blacklists_def fun_eq_iff)

text \<open>The queries of a migration: those of the tables that the rules let through.\<close>

definition allowed_queries :: "sstable_loader \<Rightarrow> table_config list \<Rightarrow> string set" where
  "allowed_queries l ts = (\<Union>t \<in> {t \<in> set ts. \<not> ld_blacklists l (tc_name t)}. table_queries t)"

lemma allowed_queries_Cons: "allowed_queries l ts \<subseteq> allowed_queries l (t # ts)"
  by (auto simp: allowed_queries_def)

lemma migrate_tables_reads:
  "migrate_tables d sched ts box l s = Returned (box', l', s') \<Longrightarrow> reads_only d (allowed_queries l ts) l s l' s'"
proof (induction ts arbitrary: box l s)
  case (Cons t ts)
  let ?Q = "allowed_queries l (t # ts)"
  obtain box1 l1 where p: "poll box l = (box1, l1)" by force
  have polled: "reads_only d ?Q l s l1 s"
    using poll_same [OF p] by (intro reads_only_job) simp
  show ?case
  proof (cases "ld_running l1")
    case False
    with Cons.prems p polled show ?thesis by simp
  next
    case True
    let ?l2 = "snd (table_gate (tc_name t) l1)"
    have gated: "reads_only d ?Q l s ?l2 s"
      using polled reads_only_gate by (rule reads_only_trans)
    have bl: "ld_blacklists ?l2 = ld_blacklists l" "ld_blacklists l1 = ld_blacklists l"
      using gated polled by (simp_all add: reads_only_def)
    have rest: "reads_only d ?Q l2 s2 l' s'"
      if "migrate_tables d sched ts box2 l2 s2 = Returned (box', l', s')" "ld_blacklists l2 = ld_blacklists l"
      for box2 l2 s2
      using reads_only_mono [OF Cons.IH [OF that(1)], of ?Q] that(2) by (auto simp: allowed_queries_def)
    show ?thesis
    proof (cases "fst (table_gate (tc_name t) l1)")
      case skip: True
      have "migrate_tables d sched ts box1 (?l2\<lparr>ld_tables_skipped := ld_tables_skipped ?l2 + 1\<rparr>) s =
          Returned (box', l', s')"
        using Cons.prems p True skip by (simp add: Let_def case_prod_beta)
      then have "reads_only d ?Q ?l2 s l' s'" using rest bl(1) by fastforce
      then show ?thesis using gated reads_only_trans by blast
    next
      case False
      then obtain box3 l3 s3 where m: "migrate_table d sched t box1 ?l2 s = Returned (box3, l3, s3)"
        and run: "migrate_tables d sched ts box3 (l3\<lparr>ld_tables_completed := ld_tables_completed l3 + 1\<rparr>) s3 =
          Returned (box', l', s')"
        using Cons.prems p True by (auto simp: Let_def case_prod_beta run_bind_Returned)
      have "\<not> ld_blacklists l (tc_name t)" using False bl(2) by (simp add: table_gate_decides)
      then have "table_queries t \<subseteq> ?Q" by (auto simp: allowed_queries_def)
      then have one: "reads_only d ?Q ?l2 s l3 s3"
        using reads_only_mono reads_only_job [OF migrate_table_keeps [OF m]] by blast
      then have "ld_blacklists l3 = ld_blacklists l" using bl(1) by (simp add: reads_only_def)
      then have "reads_only d ?Q l3 s3 l' s'" using rest [OF run] by simp
      then show ?thesis using gated one reads_only_trans by blast
    qed
  qed
qed (simp add: reads_only_def)

lemma migrate_tables_quiet:
  assumes "ld_running l" "\<not> ld_paused l"
    and "0 < lc_max_concurrent_loaders (loader_opts l)" "0 < lc_num_ranges_per_core (loader_opts l)"
  shows "\<exists>l' s'. migrate_tables d sched ts [] l s = Returned ([], l', s') \<and>
    ld_tables_total l' = ld_tables_total l \<and>
    ld_tables_completed l' = ld_tables_completed l +
      of_nat (length (filter (\<lambda>t. \<not> ld_blacklists l (tc_name t)) ts)) \<and>
    ld_tables_skipped l' = ld_tables_skipped l +
      of_nat (length (filter (\<lambda>t. ld_blacklists l (tc_name t)) ts))"
  using assms
proof (induction ts arbitrary: l s)
  case (Cons t ts)
  let ?l2 = "snd (table_gate (tc_name t) l)"
  have opts: "loader_opts ?l2 = loader_opts l" by (simp add: loader_opts_def frame_simps)
  show ?case
  proof (cases "ld_blacklists l (tc_name t)")
    case True
    let ?l3 = "?l2\<lparr>ld_tables_skipped := ld_tables_skipped ?l2 + 1\<rparr>"
    have "ld_blacklists ?l3 = ld_blacklists l"
      using ld_blacklists_gate [of "tc_name t" l] by (simp add: ld_blacklists_def fun_eq_iff)
    then show ?thesis
      using Cons.IH [of ?l3 s] Cons.prems True opts
      by (simp add: Let_def case_prod_beta table_gate_decides frame_simps loader_opts_def algebra_simps)
  next
    case False
    obtain l3 s3 where m: "migrate_table d sched t [] ?l2 s = Returned ([], l3, s3)" and job: "same_job ?l2 l3"
      and flags: "ld_running l3" "\<not> ld_paused l3"
      using migrate_table_quiet_returns [of ?l2 d sched t s] Cons.prems opts
      by (auto simp: frame_simps)
    let ?l4 = "l3\<lparr>ld_tables_completed := ld_tables_completed l3 + 1\<rparr>"
    have bl: "ld_blacklists ?l4 = ld_blacklists l"
      using same_job_blacklists [OF job] ld_blacklists_gate [of "tc_name t" l]
      by (simp add: ld_blacklists_def fun_eq_iff)
    have "loader_opts ?l4 = loader_opts l"
      using same_job_opts [OF job] opts by (simp add: loader_opts_def)
    then show ?thesis
      using Cons.IH [of ?l4 s3] Cons.prems False m job flags bl
      by (simp add: Let_def case_prod_beta table_gate_decides frame_simps same_job_def algebra_simps)
  qed
qed simp

lemma start_migration_reads:
  assumes "start_migration d sched fl fl64 ms keyspaces box l s = Returned (Inr st, box', l', s')"
  shows "ms_migrated_rows st = 0 \<and> ld_source l' = ld_source l \<and> ld_target l' = ld_target l \<and> \<not> ld_running l' \<and>
    query_run d (allowed_queries l (select_tables keyspaces (lc_tables (loader_opts l)))) l s s'"
proof -
  let ?ts = "select_tables keyspaces (lc_tables (loader_opts l))"
  let ?l1 = "(reset_stats l)\<lparr>ld_running := True, ld_tables_total := of_nat (length ?ts)\<rparr>"
  obtain l2 where m: "migrate_tables d sched ?ts box ?l1 s = Returned (box', l2, s')"
    and st: "ms_migrated_rows st = ld_migrated_rows l2" "l' = l2\<lparr>ld_running := False\<rparr>"
    using assms
    by (auto simp: start_migration_def Let_def run_bind_Returned loader_get_stats_def split: if_splits)
  have "ld_blacklists ?l1 = ld_blacklists l" by (simp add: reset_stats_def ld_blacklists_def fun_eq_iff)
  then have "reads_only d (allowed_queries l ?ts) ?l1 s l2 s'"
    using migrate_tables_reads [OF m] by (simp add: allowed_queries_def)
  then show ?thesis
    using st by (simp add: reads_only_def query_run_def reset_stats_def)
qed

subsection \<open>Rows\<close>

lemma insert_attempts_spec:
  assumes "insert_attempts d q m a l s = (ok, l', s')" "a \<le> m"
  shows "\<exists>k. 1 \<le> k \<and> k \<le> unat m - unat a + 1 \<and> (\<not> ok \<longrightarrow> k = unat m - unat a + 1) \<and>
    io_calls s' = io_calls s @ concat (replicate k (exec_calls (ld_target l) q)) \<and>
    l' = (if ok then l\<lparr>ld_migrated_rows := ld_migrated_rows l + 1\<rparr>
          else l\<lparr>ld_failed_rows := ld_failed_rows l + 1\<rparr>)"
  using assms
proof (induction d q m a l s arbitrary: ok l' s' rule: insert_attempts.induct)
  case (1 d q m a l s)
  obtain r s1 where ex: "conn_execute d (ld_target l) q s = (r, s1)" by force
  note calls = io_calls_executeD [OF ex]
  show ?case
  proof (cases r)
    case (Inr u)
    then show ?thesis
      using 1(2,3) ex calls by (intro exI [of _ 1]) (auto simp: insert_attempts.simps [of d q m a])
  next
    case (Inl e)
    show ?thesis
    proof (cases "a < m")
      case False
      then have "a = m" using 1(3) by simp
      then show ?thesis
        using 1(2) ex calls Inl by (intro exI [of _ 1]) (auto simp: insert_attempts.simps [of d q m m])
    next
      case True
      have step: "unat (a + 1) = Suc (unat a)" "unat a < unat m"
        using True unsigned_less [of m, where 'a = nat]
        by (simp_all add: word_less_nat_alt unat_word_ariths)
      then have le: "a + 1 \<le> m" by (simp add: word_le_nat_alt)
      have run: "insert_attempts d q m (a + 1) l s1 = (ok, l', s')"
        using 1(2,3) ex Inl True by (simp add: insert_attempts.simps [of d q m a])
      obtain k where k: "1 \<le> k" "k \<le> unat m - unat (a + 1) + 1"
        "\<not> ok \<longrightarrow> k = unat m - unat (a + 1) + 1"
        "io_calls s' = io_calls s1 @ concat (replicate k (exec_calls (ld_target l) q))"
        "l' = (if ok then l\<lparr>ld_migrated_rows := ld_migrated_rows l + 1\<rparr>
          else l\<lparr>ld_failed_rows := ld_failed_rows l + 1\<rparr>)"
        using 1(1) [OF 1(3) ex [symmetric] Inl True run le] by blast
      then show ?thesis
        using step calls by (intro exI [of _ "Suc k"]) auto
    qed
  qed
qed

text \<open>The tenant a column names, when it can be read.\<close>

definition tenant_of :: "'j json_api \<Rightarrow> 'j \<Rightarrow> string \<Rightarrow> string option" where
  "tenant_of j row c =
     (if j_is_string j (j_at j row c) then Some (j_get_string j (j_at j row c)) else j_dump j (j_at j row c))"

lemma filter_columns_spec:
  assumes "\<forall>v. j_dump j v \<noteq> None"
  shows "fst (filter_columns j row cs g) \<longleftrightarrow>
    (\<exists>c \<in> set cs. j_contains j row c \<and> the (tenant_of j row c) \<in> set (ss_tenant_blacklist g))"
proof (induction cs arbitrary: g)
  case (Cons c cs)
  obtain t where t: "tenant_of j row c = Some t"
    using assms by (cases "j_is_string j (j_at j row c)") (auto simp: tenant_of_def)
  obtain dec g' where dec: "ss_check_tenant_id t g = (dec, g')" by force
  have "dec = (if t \<in> set (ss_tenant_blacklist g) then SkipTenant else Allow)"
    "ss_tenant_blacklist g' = ss_tenant_blacklist g"
    using dec ss_check_tenant_id_frame [of t g]
    by (auto simp: ss_check_tenant_id_def Let_def split: if_splits)
  then show ?case
    using Cons [of g] Cons [of g'] t dec
    by (auto simp: tenant_of_def split: filter_decision.splits)
qed simp

subsection \<open>Example\<close>

text \<open>A loader of one table on sessions 1 and 2, one thread at a time.\<close>

definition example_table :: table_config where
  "example_table = \<lparr>tc_name = ''ks.t'', tc_partition_key = [''id'']\<rparr>"

definition example_loader :: "u32 \<Rightarrow> sstable_loader" where
  "example_loader threads =
     sstable_loader_new
       \<lparr>slc_source = default_database_config, slc_target = default_database_config,
        slc_loader = default_loader_config\<lparr>lc_tables := [example_table],
          lc_max_concurrent_loaders := threads\<rparr>,
        slc_observability = default_observability_config\<rparr>
       (example_connection 1) (example_connection 2) None None"

definition example_up :: "nat driver" where
  "example_up = scripted_driver (\<lambda>_ _ _. None)"

lemma example_loader_simps [simp]:
  "ld_running (example_loader n) = False" "ld_paused (example_loader n) = False"
  "lc_max_concurrent_loaders (loader_opts (example_loader n)) = n"
  "lc_num_ranges_per_core (loader_opts (example_loader n)) = 4"
  "lc_tables (loader_opts (example_loader n)) = [example_table]"
  "lc_enable_pagination (loader_opts (example_loader n)) = False"
  "ld_filter (example_loader n) = None" "ld_source (example_loader n) = example_connection 1"
  "ld_target (example_loader n) = example_connection 2"
  by (simp_all add: example_loader_def sstable_loader_new_def loader_opts_def default_loader_config_def)

section \<open>Properties\<close>

text \<open>C12. A migration that nobody interrupts runs to its end: with at least one loader and one
  range per core, and no pause in force, \<open>start_migration\<close> returns, clears the running flag, and
  its statistics account for every selected table: those not blacklisted are completed, the
  blacklisted ones are skipped.\<close>

theorem migration_completes:
  assumes "\<not> ld_running l" "\<not> ld_paused l"
    and "0 < lc_max_concurrent_loaders (loader_opts l)" "0 < lc_num_ranges_per_core (loader_opts l)"
  shows "\<exists>st l' s'. start_migration d sched fl fl64 ms keyspaces [] l s = Returned (Inr st, [], l', s') \<and>
    \<not> ld_running l' \<and>
    (let ts = select_tables keyspaces (lc_tables (loader_opts l)) in
     ms_tables_total st = of_nat (length ts) \<and>
     ms_tables_completed st = of_nat (length (filter (\<lambda>t. \<not> ld_blacklists l (tc_name t)) ts)) \<and>
     ms_tables_skipped st = of_nat (length (filter (\<lambda>t. ld_blacklists l (tc_name t)) ts)))"
proof -
  let ?ts = "select_tables keyspaces (lc_tables (loader_opts l))"
  let ?l1 = "(reset_stats l)\<lparr>ld_running := True, ld_tables_total := of_nat (length ?ts)\<rparr>"
  have "loader_opts ?l1 = loader_opts l" "ld_blacklists ?l1 = ld_blacklists l"
    by (simp_all add: reset_stats_def loader_opts_def ld_blacklists_def fun_eq_iff)
  then obtain l2 s2 where "migrate_tables d sched ?ts [] ?l1 s = Returned ([], l2, s2)"
    "ld_tables_total l2 = of_nat (length ?ts)"
    "ld_tables_completed l2 = of_nat (length (filter (\<lambda>t. \<not> ld_blacklists l (tc_name t)) ?ts))"
    "ld_tables_skipped l2 = of_nat (length (filter (\<lambda>t. ld_blacklists l (tc_name t)) ?ts))"
    using migrate_tables_quiet [of ?l1 d sched ?ts s] assms by (auto simp: reset_stats_def)
  then show ?thesis
    using assms(1) by (simp add: start_migration_def Let_def loader_get_stats_def)
qed

theorem migration_completes_witness:
  "\<exists>st l' s'. start_migration example_up id id id 5 [''ks''] [] (example_loader 32) io_start =
     Returned (Inr st, [], l', s') \<and> ms_tables_completed st = 1"
proof -
  have "select_tables [''ks''] [example_table] = [example_table]" by code_simp
  then show ?thesis
    using migration_completes [of "example_loader 32" example_up id id id 5 "[''ks'']" io_start]
    by (auto simp: Let_def ld_blacklists_def)
qed

text \<open>C11. Every token range of a table is queried exactly once: in an uninterrupted migration on
  the default unpaged path, whatever the number of loader threads and the order in which the
  threads of a batch run, the calls after the topology query are the range queries of the
  calculated ranges, each one once.\<close>

theorem table_ranges_queried_once:
  assumes "\<forall>b. mset (sched b) = mset b"
    and "ld_running l" "\<not> ld_paused l" "\<not> lc_enable_pagination (loader_opts l)"
    and "0 < lc_max_concurrent_loaders (loader_opts l)" "0 < lc_num_ranges_per_core (loader_opts l)"
    and "resolve_partition_keys d t l s = (keys, s1)"
    and "calculate_ranges d (ld_source l) (lc_num_ranges_per_core (loader_opts l)) s1 = (Some rs, s2)"
  shows "\<exists>l' s' calls. migrate_table d sched t [] l s = Returned ([], l', s') \<and>
    io_calls s' = io_calls s2 @ calls \<and>
    mset calls = mset (concat (map (\<lambda>r. exec_calls (ld_source l)
      (build_range_query (tc_name t) keys r)) rs))"
proof -
  let ?n = "unat (lc_max_concurrent_loaders (loader_opts l))"
  let ?todo = "concat (map sched (batches_of ?n rs))"
  obtain l' s' where f: "fold (range_thread d (tc_name t) keys) ?todo (l, s2) = (l', s')" by force
  have "mset ?todo = mset rs"
    using mset_concat_map_order [of sched "batches_of ?n rs"] assms(1) concat_batches_of [of ?n rs] assms(5)
    by (simp add: word_less_nat_alt)
  then show ?thesis
    using migrate_table_quiet [OF assms(2,3,5,6,7,8), of sched] f fold_threads_calls [OF f assms(4)]
      mset_concat_map_cong [of ?todo rs] by auto
qed

theorem table_ranges_queried_once_witness:
  "\<exists>l' s' calls. migrate_table example_up rev example_table [] ((example_loader 7)\<lparr>ld_running := True\<rparr>) io_start =
     Returned ([], l', s') \<and> length calls = 96 \<and>
     io_calls s' = [SessionExecute 1 ''SELECT peer FROM system.peers''] @ calls"
proof -
  let ?l = "(example_loader 7)\<lparr>ld_running := True\<rparr>"
  have opts: "loader_opts ?l = loader_opts (example_loader 7)" by (simp add: loader_opts_def)
  have keys: "resolve_partition_keys example_up example_table ?l io_start = ([''id''], io_start)"
    by (simp add: resolve_partition_keys_def example_table_def)
  have ex: "conn_execute example_up (example_connection 1) ''SELECT peer FROM system.peers'' io_start =
      (Inr (), \<lparr>io_world = 1, io_calls = [SessionExecute 1 ''SELECT peer FROM system.peers'']\<rparr>)"
    by (simp add: conn_execute_def example_up_def scripted_driver_def example_connection_def
        io_start_def did_call_def)
  obtain rs s2 where calc: "calculate_ranges example_up (ld_source ?l)
      (lc_num_ranges_per_core (loader_opts ?l)) io_start = (Some rs, s2)" and "length rs = 96"
    and calls: "io_calls s2 = [SessionExecute 1 ''SELECT peer FROM system.peers'']"
    using ex by (simp add: opts calculate_ranges_def estimated_cores_per_node_def)
  have one: "length (exec_calls (example_connection 1) q) = 1" for q
    by (simp add: exec_calls_def live_def example_connection_def)
  obtain l' s' cs where r: "migrate_table example_up rev example_table [] ?l io_start = Returned ([], l', s')"
    "io_calls s' = io_calls s2 @ cs"
    "mset cs = mset (concat (map (\<lambda>r. exec_calls (ld_source ?l)
      (build_range_query (tc_name example_table) [''id''] r)) rs))"
    using table_ranges_queried_once [of rev ?l example_up example_table io_start "[''id'']" io_start rs s2]
      keys calc by (auto simp: opts)
  have "length cs = 96"
    using arg_cong [OF r(3), of size] one \<open>length rs = 96\<close>
    by (simp add: length_concat o_def sum_list_triv)
  then show ?thesis using r calls by auto
qed

text \<open>C40. The migration copies no row and reads only what it may: whatever control calls arrive,
  every driver call of a returning \<open>start_migration\<close> executes, on the source session, a query of a
  selected table that the rules do not blacklist, and the migrated row count it reports is zero.
  The code that would read the selected rows and insert them is commented out.\<close>

theorem migration_copies_nothing:
  assumes "start_migration d sched fl fl64 ms keyspaces box l s = Returned (Inr st, box', l', s')"
  shows "ms_migrated_rows st = 0 \<and> (\<exists>new. io_calls s' = io_calls s @ new \<and>
    (\<forall>c \<in> set new. \<exists>t q. c = SessionExecute (the (conn_session (ld_source l))) q \<and> q \<in> table_queries t \<and>
       t \<in> set (select_tables keyspaces (lc_tables (loader_opts l))) \<and> \<not> ld_blacklists l (tc_name t)))"
  using start_migration_reads [OF assms] query_run_only by (fastforce simp: queries_only_def allowed_queries_def)

theorem migration_copies_nothing_witness:
  "\<exists>st box' l' s'. start_migration example_up id id id 5 [] [[CtlStop]] (example_loader 32) io_start =
     Returned (Inr st, box', l', s') \<and> ms_migrated_rows st = 0"
proof -
  obtain st box' l' s' where r: "start_migration example_up id id id 5 [] [[CtlStop]] (example_loader 32)
      io_start = Returned (Inr st, box', l', s')"
    by (simp add: start_migration_def select_tables_def loader_stop_def Let_def)
  then show ?thesis using migration_copies_nothing [OF r] by blast
qed

text \<open>\<open>insert_row_with_retry\<close> makes at least one and at most \<open>max_retries + 1\<close> executions of
  the insert on the target, and nothing else; it succeeds or fails only after all of them; and it
  counts the row exactly once, as migrated or as failed. It also terminates for every 32-bit
  \<open>max_retries\<close>, the largest included.\<close>

lemma insert_row_attempts:
  "\<exists>k. 1 \<le> k \<and> k \<le> unat retries + 1 \<and>
     (let (ok, l', s') = insert_row_with_retry d q row retries delay l s in
      (\<not> ok \<longrightarrow> k = unat retries + 1) \<and>
      io_calls s' = io_calls s @ concat (replicate k (exec_calls (ld_target l) q)) \<and>
      l' = (if ok then l\<lparr>ld_migrated_rows := ld_migrated_rows l + 1\<rparr>
            else l\<lparr>ld_failed_rows := ld_failed_rows l + 1\<rparr>))"
proof -
  obtain ok l' s' where run: "insert_attempts d q retries 0 l s = (ok, l', s')" by (metis prod_cases3)
  show ?thesis
    using insert_attempts_spec [OF run] run by (simp add: insert_row_with_retry_def)
qed

text \<open>A stop that arrives while a table is paused comes one batch too late: the pause gate
  is left because the migration is no longer running, and the batch that was waiting is then
  processed all the same; only the batches after it are dropped.\<close>

lemma stop_while_paused_runs_batch:
  assumes "ld_running l" "ld_paused l"
  shows "run_batches d sched t keys (b # bs) [[], [CtlStop]] l s =
    (let (l', s') = fold (range_thread d t keys) (sched b) (l\<lparr>ld_running := False\<rparr>, s)
     in Returned ([], l', s'))"
proof -
  obtain l3 s3 where f: "fold (range_thread d t keys) (sched b) (l\<lparr>ld_running := False\<rparr>, s) = (l3, s3)"
    by force
  then have "\<not> ld_running l3" using fold_threads_keeps [OF f] by simp
  then have "run_batches d sched t keys bs [] l3 s3 = Returned ([], l3, s3)"
    by (cases bs) auto
  then show ?thesis
    using assms f by (simp add: loader_stop_def)
qed

text \<open>With \<open>max_concurrent_loaders = 0\<close>, which the configuration accepts, a migration that
  nobody stops never returns.\<close>

lemma zero_loaders_never_return:
  assumes "ld_running l" "lc_max_concurrent_loaders (loader_opts l) = 0"
    and "0 < lc_num_ranges_per_core (loader_opts l)"
  shows "migrate_table d sched t [] l s = NeverReturns"
proof -
  obtain ks s1 where k: "resolve_partition_keys d t l s = (ks, s1)" by force
  obtain m where "fst (calculate_ranges d (ld_source l) (lc_num_ranges_per_core (loader_opts l)) s1) =
      Some (generate_ranges (m * 8 * unat (lc_num_ranges_per_core (loader_opts l))))"
    and "0 < m * 8 * unat (lc_num_ranges_per_core (loader_opts l))"
    using calculate_ranges_total [OF assms(3)] .
  then show ?thesis
    using assms k by (auto simp: migrate_table_def case_prod_beta Let_def spin_unfold
        simp flip: length_0_conv)
qed

text \<open>A range whose query fails on the unpaged path is counted twice as a skipped range:
  once where the query is made and once by the thread that runs it. On the paged path it is
  counted once.\<close>

lemma failed_range_counts:
  assumes "process_range_sync d r t keys l s = (Inl e, l1, s1)"
    and "range_thread d t keys r (l, s) = (l', s')"
  shows "ld_skipped_ranges l' =
    ld_skipped_ranges l + (if lc_enable_pagination (loader_opts l) then 1 else 2)"
  using assms
  by (auto simp: range_thread_def process_range_sync_def Let_def split: if_splits prod.splits sum.splits)

text \<open>C35. The tenant filter on a row: with a JSON library whose \<open>dump\<close> does not fail, a row is
  skipped exactly when the filter is enabled, the row parses, and one of the tenant columns it
  contains holds a blacklisted tenant, as a string or as its JSON text; the filtered counter then
  goes up by one.\<close>

theorem filter_json_row_skips:
  assumes "\<forall>v. j_dump j v \<noteq> None"
  shows "let (skip, l') = filter_json_row j text columns l in
    (skip \<longleftrightarrow> (\<exists>g row. ld_filter l = Some g \<and> ss_is_enabled g \<and> j_parse j text = Some row \<and>
       (\<exists>c \<in> set columns. j_contains j row c \<and>
          (if j_is_string j (j_at j row c) then j_get_string j (j_at j row c)
           else the (j_dump j (j_at j row c))) \<in> set (ss_tenant_blacklist g)))) \<and>
    ld_filtered_rows l' = ld_filtered_rows l + (if skip then 1 else 0)"
  using filter_columns_spec [OF assms]
  by (auto simp: filter_json_row_def tenant_of_def Let_def case_prod_beta if_distrib [of the]
      split: option.splits cong: if_cong)

text \<open>A toy document: a string is the row, and it has one column \<open>t\<close> that holds it.\<close>

definition example_json :: "string json_api" where
  "example_json =
     \<lparr>j_parse = Some, j_contains = (\<lambda>_ c. c = ''t''), j_at = (\<lambda>row _. row),
      j_is_string = (\<lambda>_. True), j_get_string = id, j_dump = Some\<rparr>"

theorem filter_json_row_skips_witness:
  "fst (filter_json_row example_json ''acme'' [''t''] ((example_loader 1)\<lparr>ld_filter :=
     Some (ss_governor_new \<lparr>ss_cfg_tenant_blacklist = [''acme''], ss_cfg_table_blacklist = [],
       ss_cfg_tenant_id_columns = []\<rparr>)\<rparr>))"
proof -
  let ?g = "ss_governor_new \<lparr>ss_cfg_tenant_blacklist = [''acme''], ss_cfg_table_blacklist = [],
       ss_cfg_tenant_id_columns = []\<rparr>"
  have g: "set (ss_tenant_blacklist ?g) = {''acme''}" "ss_is_enabled ?g"
    by (simp_all add: ss_governor_new_def ss_is_enabled_def)
  have dump: "\<forall>v. j_dump example_json v \<noteq> None" by (simp add: example_json_def)
  show ?thesis
    using filter_json_row_skips [OF dump, of "''acme''" "[''t'']" "(example_loader 1)\<lparr>ld_filter := Some ?g\<rparr>"] g
    by (simp add: case_prod_beta Let_def example_json_def)
qed

end
