(* ===== verification/Dual_Reader_Filter.thy ===== *)
theory Dual_Reader_Filter
  imports Filter_Governor
begin

text \<open>
  \<open>DualReaderFilterGovernor\<close> of the dual reader
  (\<open>include/dual_reader/filter.hpp\<close>, \<open>src/filter.cpp\<close>): the whitelist AND gate
  \<open>decide(table, domain_id)\<close>, its adaptation to \<open>FilterGovernorBase\<close>, atomic statistics
  and reload. A missing domain is the empty string view, as in the source.
\<close>

section \<open>Definitions\<close>

record dr_filter_config =
  dr_cfg_enabled :: bool
  dr_cfg_compare_tables :: "string list"
  dr_cfg_compare_system_domain_ids :: "string list"
  dr_cfg_system_domain_id_column :: string
  dr_cfg_log_discrepancies :: bool
  dr_cfg_discrepancy_log_path :: string

definition default_dr_filter_config :: dr_filter_config where
  "default_dr_filter_config =
     \<lparr>dr_cfg_enabled = False, dr_cfg_compare_tables = [],
      dr_cfg_compare_system_domain_ids = [],
      dr_cfg_system_domain_id_column = ''system_domain_id'',
      dr_cfg_log_discrepancies = True,
      dr_cfg_discrepancy_log_path = ''discrepancies.jsonl''\<rparr>"

datatype read_decision = DualRead | ReadSourceOnly

record dr_filter_stats =
  dr_dual_reads :: u64
  dr_source_only_reads :: u64
  dr_tables_filtered :: u64
  dr_domains_filtered :: u64

record dr_governor =
  dr_compare_tables :: "string list"
  dr_compare_domains :: "string list"
  dr_gov_config :: dr_filter_config
  dr_gov_stats :: dr_filter_stats

definition dr_governor_new :: "dr_filter_config \<Rightarrow> dr_governor" where
  "dr_governor_new cfg =
     \<lparr>dr_compare_tables = uset_of (dr_cfg_compare_tables cfg),
      dr_compare_domains = uset_of (dr_cfg_compare_system_domain_ids cfg),
      dr_gov_config = cfg,
      dr_gov_stats = \<lparr>dr_dual_reads = 0, dr_source_only_reads = 0,
                      dr_tables_filtered = 0, dr_domains_filtered = 0\<rparr>\<rparr>"

definition dr_decide :: "string \<Rightarrow> string \<Rightarrow> dr_governor \<Rightarrow> read_decision \<times> dr_governor" where
  "dr_decide table domain_id g =
     (let st = dr_gov_stats g in
      if \<not> dr_cfg_enabled (dr_gov_config g)
      then (DualRead, g\<lparr>dr_gov_stats := st\<lparr>dr_dual_reads := dr_dual_reads st + 1\<rparr>\<rparr>)
      else if dr_compare_tables g \<noteq> [] \<and> table \<notin> set (dr_compare_tables g)
      then (ReadSourceOnly,
            g\<lparr>dr_gov_stats := st\<lparr>dr_tables_filtered := dr_tables_filtered st + 1,
                                 dr_source_only_reads := dr_source_only_reads st + 1\<rparr>\<rparr>)
      else if domain_id \<noteq> [] \<and> dr_compare_domains g \<noteq> [] \<and>
              domain_id \<notin> set (dr_compare_domains g)
      then (ReadSourceOnly,
            g\<lparr>dr_gov_stats := st\<lparr>dr_domains_filtered := dr_domains_filtered st + 1,
                                 dr_source_only_reads := dr_source_only_reads st + 1\<rparr>\<rparr>)
      else (DualRead, g\<lparr>dr_gov_stats := st\<lparr>dr_dual_reads := dr_dual_reads st + 1\<rparr>\<rparr>))"

definition dr_should_skip_table :: "string \<Rightarrow> dr_governor \<Rightarrow> filter_decision \<times> dr_governor" where
  "dr_should_skip_table table g =
     (case dr_decide table [] g of
        (ReadSourceOnly, g') \<Rightarrow> (SourceOnly, g')
      | (DualRead, g') \<Rightarrow> (Allow, g'))"

definition dr_check_tenant_id :: "string \<Rightarrow> dr_governor \<Rightarrow> filter_decision \<times> dr_governor" where
  "dr_check_tenant_id domain_id g =
     (let st = dr_gov_stats g in
      if \<not> dr_cfg_enabled (dr_gov_config g) then (Allow, g)
      else if dr_compare_domains g \<noteq> [] \<and> domain_id \<notin> set (dr_compare_domains g)
      then (SourceOnly,
            g\<lparr>dr_gov_stats := st\<lparr>dr_domains_filtered := dr_domains_filtered st + 1\<rparr>\<rparr>)
      else (Allow, g))"

definition dr_is_enabled :: "dr_governor \<Rightarrow> bool" where
  "dr_is_enabled g = dr_cfg_enabled (dr_gov_config g)"

definition dr_reload_config :: "dr_governor \<Rightarrow> dr_governor" where
  "dr_reload_config g =
     g\<lparr>dr_compare_tables := uset_of (dr_cfg_compare_tables (dr_gov_config g)),
       dr_compare_domains := uset_of (dr_cfg_compare_system_domain_ids (dr_gov_config g))\<rparr>"

subsection \<open>Rules, invariant and specification\<close>

definition dr_rules :: "dr_governor \<Rightarrow> bool \<times> string list \<times> string list" where
  "dr_rules g = (dr_cfg_enabled (dr_gov_config g), dr_compare_tables g, dr_compare_domains g)"

definition dr_governor_inv :: "dr_governor \<Rightarrow> bool" where
  "dr_governor_inv g \<longleftrightarrow>
     dr_compare_tables g = uset_of (dr_cfg_compare_tables (dr_gov_config g)) \<and>
     dr_compare_domains g = uset_of (dr_cfg_compare_system_domain_ids (dr_gov_config g))"

definition dr_governor_run :: "gov_op list \<Rightarrow> dr_governor \<Rightarrow> dr_governor" where
  "dr_governor_run = gov_run dr_should_skip_table dr_check_tenant_id dr_reload_config"

text \<open>The AND gate: each whitelist passes everything when it is empty, and no domain
  passes the domain gate.\<close>

definition and_gate :: "dr_filter_config \<Rightarrow> string \<Rightarrow> string \<Rightarrow> bool" where
  "and_gate cfg table domain_id \<longleftrightarrow>
     \<not> dr_cfg_enabled cfg \<or>
     (dr_cfg_compare_tables cfg = [] \<or> table \<in> set (dr_cfg_compare_tables cfg)) \<and>
     (domain_id = [] \<or> dr_cfg_compare_system_domain_ids cfg = [] \<or>
      domain_id \<in> set (dr_cfg_compare_system_domain_ids cfg))"

text \<open>A sequence of reads, each decided with the table and the domain of its query.\<close>

fun dr_decide_all :: "(string \<times> string) list \<Rightarrow> dr_governor \<Rightarrow> dr_governor" where
  "dr_decide_all [] g = g"
| "dr_decide_all ((t, dmn) # qs) g = dr_decide_all qs (snd (dr_decide t dmn g))"

section \<open>Lemmas\<close>

lemma dr_governor_inv_new: "dr_governor_inv (dr_governor_new cfg)"
  by (simp add: dr_governor_inv_def dr_governor_new_def)

lemma dr_decide_frame [frame_simps]:
  "dr_compare_tables (snd (dr_decide t dmn g)) = dr_compare_tables g"
  "dr_compare_domains (snd (dr_decide t dmn g)) = dr_compare_domains g"
  "dr_gov_config (snd (dr_decide t dmn g)) = dr_gov_config g"
  by (simp_all add: dr_decide_def Let_def)

lemma dr_should_skip_table_eq:
  "dr_should_skip_table t g =
     (if fst (dr_decide t [] g) = ReadSourceOnly then SourceOnly else Allow,
      snd (dr_decide t [] g))"
  by (auto simp: dr_should_skip_table_def split: prod.splits read_decision.splits)

lemma dr_check_tenant_id_frame [frame_simps]:
  "dr_compare_tables (snd (dr_check_tenant_id dmn g)) = dr_compare_tables g"
  "dr_compare_domains (snd (dr_check_tenant_id dmn g)) = dr_compare_domains g"
  "dr_gov_config (snd (dr_check_tenant_id dmn g)) = dr_gov_config g"
  by (simp_all add: dr_check_tenant_id_def Let_def)

lemma dr_reload_config_id: "dr_governor_inv g \<Longrightarrow> dr_reload_config g = g"
  by (simp add: dr_reload_config_def dr_governor_inv_def)

interpretation dr_gov: filter_governor dr_should_skip_table dr_check_tenant_id dr_is_enabled
    dr_reload_config dr_rules dr_governor_inv
proof unfold_locales
  fix t g
  show "dr_rules (snd (dr_should_skip_table t g)) = dr_rules g"
    and "dr_rules (snd (dr_check_tenant_id t g)) = dr_rules g"
    by (simp_all add: dr_rules_def dr_should_skip_table_eq frame_simps)
  show "dr_governor_inv g \<Longrightarrow> dr_rules (dr_reload_config g) = dr_rules g"
    and "dr_governor_inv g \<Longrightarrow> dr_governor_inv (dr_reload_config g)"
    by (simp_all add: dr_reload_config_id)
  show "dr_governor_inv g \<Longrightarrow> dr_governor_inv (snd (dr_should_skip_table t g))"
    and "dr_governor_inv g \<Longrightarrow> dr_governor_inv (snd (dr_check_tenant_id t g))"
    by (simp_all add: dr_governor_inv_def dr_should_skip_table_eq frame_simps)
next
  fix g g' t
  assume "dr_rules g = dr_rules g'"
  then show "fst (dr_should_skip_table t g) = fst (dr_should_skip_table t g')"
    and "fst (dr_check_tenant_id t g) = fst (dr_check_tenant_id t g')"
    and "dr_is_enabled g = dr_is_enabled g'"
    by (simp_all add: dr_rules_def dr_should_skip_table_eq dr_decide_def dr_check_tenant_id_def
        dr_is_enabled_def Let_def)
qed

lemma dr_governor_run_inv:
  "dr_governor_inv (dr_governor_run ops (dr_governor_new cfg))"
  unfolding dr_governor_run_def using dr_gov.run_keeps [OF dr_governor_inv_new] by blast

lemma dr_governor_run_config [simp]:
  "dr_gov_config (dr_governor_run ops g) = dr_gov_config g"
proof (induction ops arbitrary: g)
  case (Cons op ops)
  then show ?case
    by (cases op) (simp_all add: dr_governor_run_def dr_should_skip_table_eq frame_simps
        dr_reload_config_def)
qed (simp add: dr_governor_run_def)

lemma dr_decide_gate:
  "dr_governor_inv g \<Longrightarrow>
   fst (dr_decide t dmn g) =
     (if and_gate (dr_gov_config g) t dmn then DualRead else ReadSourceOnly)"
  by (auto simp: dr_governor_inv_def dr_decide_def and_gate_def Let_def)

lemma dr_decide_all_counts:
  "dr_dual_reads (dr_gov_stats (dr_decide_all qs g)) +
     dr_source_only_reads (dr_gov_stats (dr_decide_all qs g)) =
   dr_dual_reads (dr_gov_stats g) + dr_source_only_reads (dr_gov_stats g) + of_nat (length qs)"
  "dr_source_only_reads (dr_gov_stats (dr_decide_all qs g)) -
     dr_tables_filtered (dr_gov_stats (dr_decide_all qs g)) -
     dr_domains_filtered (dr_gov_stats (dr_decide_all qs g)) =
   dr_source_only_reads (dr_gov_stats g) - dr_tables_filtered (dr_gov_stats g) -
     dr_domains_filtered (dr_gov_stats g)"
  by (induction qs g rule: dr_decide_all.induct)
    (auto simp: dr_decide_def Let_def algebra_simps)

section \<open>Decisions\<close>

text \<open>At any point of a governor's life, \<open>decide\<close> allows a dual read exactly when the
  AND gate of its configuration passes: filtering is off, or the table and the domain (when
  one is given) are each in their whitelist or that whitelist is empty.\<close>

lemma dr_decide_and_gate:
  "fst (dr_decide table domain_id (dr_governor_run ops (dr_governor_new cfg))) =
     (if and_gate cfg table domain_id then DualRead else ReadSourceOnly)"
  by (simp add: dr_decide_gate [OF dr_governor_run_inv]) (simp add: dr_governor_new_def)

text \<open>The statistics account for every read: over any sequence of reads the dual and the
  source-only reads add up to the number of reads, and every source-only read is put down to
  the table filter or to the domain filter.\<close>

lemma dr_stats_account_for_reads:
  "let st = dr_gov_stats (dr_decide_all queries (dr_governor_new cfg)) in
   dr_dual_reads st + dr_source_only_reads st = of_nat (length queries) \<and>
   dr_tables_filtered st + dr_domains_filtered st = dr_source_only_reads st"
  using dr_decide_all_counts [of queries "dr_governor_new cfg"]
  by (simp add: dr_governor_new_def Let_def algebra_simps)

end
