(* ===== verification/Dual_Reader_Config.thy ===== *)
theory Dual_Reader_Config
  imports Svckit_Config Dual_Reader_Filter
begin

text \<open>
  \<open>DualReaderConfig\<close> (\<open>services/dual-reader/include/dual_reader/config.hpp\<close>,
  \<open>src/config.cpp\<close>): the reader and filter sections and their YAML parser.
\<close>

section \<open>Definitions\<close>

datatype reconciliation_mode = SourceWins | NewestWins | Manual

record reader_config =
  rc_tables :: "string list"
  rc_validation_interval_secs :: u64
  rc_sample_rate :: real
  rc_max_concurrent_reads :: u32
  rc_batch_size :: u32
  rc_max_discrepancies_to_report :: u32
  rc_auto_reconcile :: bool
  rc_reconciliation_mode :: reconciliation_mode

text \<open>\<open>0.01f\<close> is the float nearest to one hundredth; \<open>rate\<close> is its value.\<close>

definition default_reader_config :: "real \<Rightarrow> reader_config" where
  "default_reader_config rate =
     \<lparr>rc_tables = [], rc_validation_interval_secs = 300, rc_sample_rate = rate,
      rc_max_concurrent_reads = 10, rc_batch_size = 1000, rc_max_discrepancies_to_report = 100,
      rc_auto_reconcile = False, rc_reconciliation_mode = SourceWins\<rparr>"

definition parse_reconciliation_mode :: "string \<Rightarrow> reconciliation_mode" where
  "parse_reconciliation_mode mode =
     (if mode = ''newest_wins'' then NewestWins
      else if mode = ''manual'' then Manual else SourceWins)"

definition parse_reader_config :: "real \<Rightarrow> 'n yaml_api \<Rightarrow> 'n \<Rightarrow> reader_config option" where
  "parse_reader_config rate y n =
     (let c = default_reader_config rate; mode = y_child y n ''reconciliation_mode'' in
      if \<not> y_defined y n \<or> \<not> y_is_map y n then Some c
      else
        case y_string_seq y n ''tables'' of None \<Rightarrow> None | Some tables \<Rightarrow>
        Some
          \<lparr>rc_tables = tables,
           rc_validation_interval_secs =
             y_field y (y_u64 y) n ''validation_interval_secs'' 300 (rc_validation_interval_secs c),
           rc_sample_rate = y_field y (y_float y) n ''sample_rate'' rate (rc_sample_rate c),
           rc_max_concurrent_reads =
             y_field y (y_u32 y) n ''max_concurrent_reads'' 10 (rc_max_concurrent_reads c),
           rc_batch_size = y_field y (y_u32 y) n ''batch_size'' 1000 (rc_batch_size c),
           rc_max_discrepancies_to_report =
             y_field y (y_u32 y) n ''max_discrepancies_to_report'' 100
               (rc_max_discrepancies_to_report c),
           rc_auto_reconcile = y_field y (y_bool y) n ''auto_reconcile'' False (rc_auto_reconcile c),
           rc_reconciliation_mode =
             (if y_defined y mode
              then parse_reconciliation_mode
                     (case y_string y mode of Some s \<Rightarrow> s | None \<Rightarrow> ''source_wins'')
              else rc_reconciliation_mode c)\<rparr>)"

definition dr_parse_filter_config :: "'n yaml_api \<Rightarrow> 'n \<Rightarrow> dr_filter_config option" where
  "dr_parse_filter_config y n =
     (let c = default_dr_filter_config in
      if \<not> y_defined y n \<or> \<not> y_is_map y n then Some c
      else
        case y_string_seq y n ''compare_tables'' of None \<Rightarrow> None | Some tables \<Rightarrow>
        case y_string_seq y n ''compare_system_domain_ids'' of None \<Rightarrow> None | Some domains \<Rightarrow>
        Some
          \<lparr>dr_cfg_enabled = y_field y (y_bool y) n ''enabled'' False (dr_cfg_enabled c),
           dr_cfg_compare_tables = tables,
           dr_cfg_compare_system_domain_ids = domains,
           dr_cfg_system_domain_id_column =
             y_field y (y_string y) n ''system_domain_id_column'' ''system_domain_id''
               (dr_cfg_system_domain_id_column c),
           dr_cfg_log_discrepancies =
             y_field y (y_bool y) n ''log_discrepancies'' True (dr_cfg_log_discrepancies c),
           dr_cfg_discrepancy_log_path =
             y_field y (y_string y) n ''discrepancy_log_path'' ''discrepancies.jsonl''
               (dr_cfg_discrepancy_log_path c)\<rparr>)"

record dual_reader_config =
  drc_source :: database_config
  drc_target :: database_config
  drc_reader :: reader_config
  drc_filter :: dr_filter_config
  drc_observability :: observability_config

definition dual_reader_from_yaml ::
  "real \<Rightarrow> 'n host_env \<Rightarrow> 'n yaml_api \<Rightarrow> string \<Rightarrow> load_error + dual_reader_config" where
  "dual_reader_from_yaml rate h y path =
     (case load_yaml_root h y path of
        Inl e \<Rightarrow> Inl (LoadSync e)
      | Inr doc \<Rightarrow>
          if y_is_scalar y doc then Inl LoadYaml
          else
            case parse_database_config y (y_child y doc ''source'') of
              None \<Rightarrow> Inl LoadYaml | Some source \<Rightarrow>
            case parse_database_config y (y_child y doc ''target'') of
              None \<Rightarrow> Inl LoadYaml | Some target \<Rightarrow>
            case parse_reader_config rate y (y_child y doc ''reader'') of
              None \<Rightarrow> Inl LoadYaml | Some reader \<Rightarrow>
            case dr_parse_filter_config y (y_child y doc ''filter'') of
              None \<Rightarrow> Inl LoadYaml | Some flt \<Rightarrow>
            case parse_observability_config y (y_child y doc ''observability'') of
              None \<Rightarrow> Inl LoadYaml | Some obs \<Rightarrow>
            Inr \<lparr>drc_source = env_credentials h ''DUAL_READER_SOURCE'' source,
                 drc_target = env_credentials h ''DUAL_READER_TARGET'' target,
                 drc_reader = reader, drc_filter = flt, drc_observability = obs\<rparr>)"

end
