(* ===== verification/Reconciliation.thy ===== *)
theory Reconciliation
  imports Svckit_Database
begin

text \<open>
  The reconciliation strategies of the dual reader (\<open>ReconciliationStrategyBase\<close> of
  \<open>services/dual-reader/include/dual_reader/reader.hpp\<close>, \<open>src/reconciliation.cpp\<close>), and the
  interface the reader relies on as a locale.
\<close>

section \<open>Definitions\<close>

record reconciliation_result =
  rr_success :: bool
  rr_action :: string
  rr_error_message :: string

definition no_action_needed :: reconciliation_result where
  "no_action_needed =
     \<lparr>rr_success = True, rr_action = ''NoActionNeeded'', rr_error_message = []\<rparr>"

definition copy_query :: "string \<Rightarrow> string" where
  "copy_query table = ''INSERT INTO '' @ table @ '' JSON ?''"

text \<open>The row is not bound: only the statement text reaches the target.\<close>

definition copy_row_to_target ::
  "'w driver \<Rightarrow> scylla_connection \<Rightarrow> string \<Rightarrow> string \<Rightarrow> 'w io \<Rightarrow> unit outcome \<times> 'w io" where
  "copy_row_to_target d target table json_row s = conn_execute d target (copy_query table) s"

text \<open>The copy branch that three of the cases share.\<close>

definition copy_or_skip ::
  "'w driver \<Rightarrow> scylla_connection \<Rightarrow> discrepancy \<Rightarrow> 'w io \<Rightarrow> reconciliation_result \<times> 'w io" where
  "copy_or_skip d target disc s =
     (case disc_source_value disc of
        None \<Rightarrow> (no_action_needed, s)
      | Some row \<Rightarrow>
          (case copy_row_to_target d target (disc_table disc) row s of
             (Inr _, s') \<Rightarrow>
               (\<lparr>rr_success = True, rr_action = ''CopiedToTarget'', rr_error_message = []\<rparr>, s')
           | (Inl e, s') \<Rightarrow>
               (\<lparr>rr_success = False, rr_action = [], rr_error_message = what e\<rparr>, s')))"

definition source_wins_reconcile ::
  "'w driver \<Rightarrow> scylla_connection \<Rightarrow> discrepancy \<Rightarrow> 'w io \<Rightarrow> reconciliation_result \<times> 'w io" where
  "source_wins_reconcile d target disc s =
     (case disc_type disc of
        MissingInTarget \<Rightarrow> copy_or_skip d target disc s
      | DataMismatch \<Rightarrow> copy_or_skip d target disc s
      | MissingInSource \<Rightarrow> (no_action_needed, s)
      | TimestampMismatch \<Rightarrow> (no_action_needed, s))"

definition newest_wins_reconcile ::
  "'w driver \<Rightarrow> scylla_connection \<Rightarrow> discrepancy \<Rightarrow> 'w io \<Rightarrow> reconciliation_result \<times> 'w io" where
  "newest_wins_reconcile d target disc s =
     (if disc_type disc = TimestampMismatch then copy_or_skip d target disc s
      else (no_action_needed, s))"

definition manual_reconcile ::
  "'w driver \<Rightarrow> scylla_connection \<Rightarrow> discrepancy \<Rightarrow> 'w io \<Rightarrow> reconciliation_result \<times> 'w io" where
  "manual_reconcile d target disc s =
     (\<lparr>rr_success = True, rr_action = ''ManualReviewRequired'', rr_error_message = []\<rparr>, s)"

datatype strategy = SourceAuthoritativeStrategy | NewestTimestampStrategy | ManualReviewStrategy

fun reconcile_name :: "strategy \<Rightarrow> string" where
  "reconcile_name SourceAuthoritativeStrategy = ''source_wins''"
| "reconcile_name NewestTimestampStrategy = ''newest_wins''"
| "reconcile_name ManualReviewStrategy = ''manual''"

fun reconcile ::
  "strategy \<Rightarrow> 'w driver \<Rightarrow> scylla_connection \<Rightarrow> discrepancy \<Rightarrow> 'w io \<Rightarrow> reconciliation_result \<times> 'w io" where
  "reconcile SourceAuthoritativeStrategy d target disc s = source_wins_reconcile d target disc s"
| "reconcile NewestTimestampStrategy d target disc s = newest_wins_reconcile d target disc s"
| "reconcile ManualReviewStrategy d target disc s = manual_reconcile d target disc s"

section \<open>The interface\<close>

text \<open>
  What the reader relies on: a strategy either leaves the clusters alone and succeeds, or
  makes the copy of its discrepancy's table and succeeds exactly when the copy does.
\<close>

locale reconciliation_strategy =
  fixes reconcile_op :: "discrepancy \<Rightarrow> 's \<Rightarrow> reconciliation_result \<times> 's"
    and copy_op :: "string \<Rightarrow> 's \<Rightarrow> unit outcome \<times> 's"
    and copies :: "discrepancy \<Rightarrow> bool"
  assumes leaves: "\<not> copies disc \<Longrightarrow> \<exists>r. reconcile_op disc s = (r, s) \<and> rr_success r"
    and makes_copy: "copies disc \<Longrightarrow> copy_op (disc_table disc) s = (out, s') \<Longrightarrow>
      \<exists>r. reconcile_op disc s = (r, s') \<and> rr_success r = (\<not> isl out)"
begin

lemma failure_is_copy:
  assumes "reconcile_op disc s = (r, s')" "\<not> rr_success r"
  shows "copies disc \<and> (\<exists>e. copy_op (disc_table disc) s = (Inl e, s'))"
proof -
  have "copies disc" using assms leaves [of disc s] by auto
  moreover obtain out s1 where out: "copy_op (disc_table disc) s = (out, s1)" by force
  ultimately show ?thesis
    using makes_copy [of disc s out s1] assms by (cases out) auto
qed

lemma without_copy: "\<not> copies disc \<Longrightarrow> snd (reconcile_op disc s) = s"
  using leaves [of disc s] by auto

end

section \<open>Lemmas\<close>

text \<open>When a strategy copies.\<close>

definition strategy_copies :: "strategy \<Rightarrow> discrepancy \<Rightarrow> bool" where
  "strategy_copies st disc \<longleftrightarrow>
     disc_source_value disc \<noteq> None \<and>
     (st = SourceAuthoritativeStrategy \<and> disc_type disc \<in> {MissingInTarget, DataMismatch} \<or>
      st = NewestTimestampStrategy \<and> disc_type disc = TimestampMismatch)"

lemma copy_or_skip_cases:
  "copy_or_skip d target disc s =
     (if disc_source_value disc = None then (no_action_needed, s)
      else case conn_execute d target (copy_query (disc_table disc)) s of
        (Inr _, s') \<Rightarrow> (\<lparr>rr_success = True, rr_action = ''CopiedToTarget'', rr_error_message = []\<rparr>, s')
      | (Inl e, s') \<Rightarrow> (\<lparr>rr_success = False, rr_action = [], rr_error_message = what e\<rparr>, s'))"
  by (auto simp: copy_or_skip_def copy_row_to_target_def split: option.splits)

interpretation rec: reconciliation_strategy "reconcile st d target"
    "\<lambda>table. conn_execute d target (copy_query table)" "strategy_copies st"
  for st and d :: "'w driver" and target
proof unfold_locales
  fix disc and s :: "'w io"
  assume "\<not> strategy_copies st disc"
  then show "\<exists>r. reconcile st d target disc s = (r, s) \<and> rr_success r"
    by (cases st; cases "disc_type disc")
      (auto simp: strategy_copies_def source_wins_reconcile_def newest_wins_reconcile_def
        manual_reconcile_def copy_or_skip_cases no_action_needed_def)
next
  fix disc and s s' :: "'w io" and out
  assume "strategy_copies st disc" "conn_execute d target (copy_query (disc_table disc)) s = (out, s')"
  then show "\<exists>r. reconcile st d target disc s = (r, s') \<and> rr_success r = (\<not> isl out)"
    by (cases st; cases out)
      (auto simp: strategy_copies_def source_wins_reconcile_def newest_wins_reconcile_def
        copy_or_skip_cases)
qed

end
