(* ===== verification/Dual_Reader.thy ===== *)
theory Dual_Reader
  imports Dual_Reader_Config Reconciliation
begin

text \<open>
  \<open>DualReader\<close> (\<open>services/dual-reader/include/dual_reader/reader.hpp\<close>, \<open>src/reader.cpp\<close>) and
  \<open>make_strategy\<close> of \<open>src/main.cpp\<close>: validation through the filter gate, the map of
  discrepancies, reconciliation and the strategy swap.

  Clock readings are arguments (\<open>now\<close>, and \<open>secs\<close> for a measured duration in seconds). The
  continuous loop repeats \<open>validate_all_tables\<close> for ever; \<open>reader_op\<close> lists what can act on
  a reader, so that a run of the service is a sequence of these.
\<close>

section \<open>Definitions\<close>

record dual_reader =
  rd_config :: dual_reader_config
  rd_source :: scylla_connection
  rd_target :: scylla_connection
  rd_filter :: "dr_governor option"
  rd_strategy :: strategy
  rd_metrics :: "metrics_registry option"
  rd_discrepancies :: "(string \<times> discrepancy) list"

fun make_strategy :: "reconciliation_mode \<Rightarrow> strategy" where
  "make_strategy SourceWins = SourceAuthoritativeStrategy"
| "make_strategy NewestWins = NewestTimestampStrategy"
| "make_strategy Manual = ManualReviewStrategy"

definition dual_reader_new ::
  "dual_reader_config \<Rightarrow> scylla_connection \<Rightarrow> scylla_connection \<Rightarrow> dr_governor option \<Rightarrow> strategy
   \<Rightarrow> metrics_registry option \<Rightarrow> dual_reader" where
  "dual_reader_new cfg src tgt flt st mtr =
     \<lparr>rd_config = cfg, rd_source = src, rd_target = tgt, rd_filter = flt, rd_strategy = st,
      rd_metrics = mtr, rd_discrepancies = []\<rparr>"

subsection \<open>Validation\<close>

text \<open>\<open>filter_ && filter_->decide(table, domain_id) == SourceOnly\<close>.\<close>

definition reader_gate :: "string \<Rightarrow> string \<Rightarrow> dual_reader \<Rightarrow> bool \<times> dual_reader" where
  "reader_gate table domain_id r =
     (case rd_filter r of
        None \<Rightarrow> (False, r)
      | Some g \<Rightarrow>
          let (decision, g') = dr_decide table domain_id g
          in (decision = ReadSourceOnly, r\<lparr>rd_filter := Some g'\<rparr>))"

definition source_only_result :: "nat \<Rightarrow> string \<Rightarrow> validation_result" where
  "source_only_result now table =
     (new_validation_result now)\<lparr>vr_table := table, vr_rows_checked := 0, vr_rows_matched := 0,
        vr_consistency_percentage := 100, vr_validation_time := now, vr_source_only := True\<rparr>"

definition store_discrepancies ::
  "discrepancy list \<Rightarrow> (string \<times> discrepancy) list \<Rightarrow> (string \<times> discrepancy) list" where
  "store_discrepancies ds m = fold (\<lambda>disc. umap_assign (disc_id disc) disc) ds m"

definition select_all :: "string \<Rightarrow> string" where
  "select_all table = ''SELECT * FROM '' @ table"

definition reader_validate_table ::
  "nat \<Rightarrow> real \<Rightarrow> 'w driver \<Rightarrow> string \<Rightarrow> dual_reader \<Rightarrow> 'w io
   \<Rightarrow> validation_result outcome \<times> dual_reader \<times> 'w io" where
  "reader_validate_table now secs d table r s =
     (let (skip, r1) = reader_gate table [] r in
      if skip then (Inr (source_only_result now table), r1, s)
      else
        let result = (new_validation_result now)\<lparr>vr_table := table, vr_validation_time := now,
                       vr_source_only := False\<rparr> in
        case conn_execute d (rd_source r1) (select_all table) s of
          (Inl e, s1) \<Rightarrow> (Inl e, r1, s1)
        | (Inr _, s1) \<Rightarrow>
            (case conn_execute d (rd_target r1) (select_all table) s1 of
               (Inl e, s2) \<Rightarrow> (Inl e, r1, s2)
             | (Inr _, s2) \<Rightarrow>
                 let result' = result\<lparr>vr_rows_checked := 0, vr_rows_matched := 0,
                                 vr_consistency_percentage := 100\<rparr>;
                     r2 = r1\<lparr>rd_discrepancies :=
                            store_discrepancies (vr_discrepancies result') (rd_discrepancies r1)\<rparr>;
                     r3 = r2\<lparr>rd_metrics := map_option (record_operation ''validation'' table
                            (vr_discrepancies result' = []) secs) (rd_metrics r2)\<rparr>
                 in (Inr result', r3, s2)))"

definition validate_table_for_domain ::
  "nat \<Rightarrow> real \<Rightarrow> 'w driver \<Rightarrow> string \<Rightarrow> string \<Rightarrow> dual_reader \<Rightarrow> 'w io
   \<Rightarrow> validation_result outcome \<times> dual_reader \<times> 'w io" where
  "validate_table_for_domain now secs d table domain_id r s =
     (let (skip, r1) = reader_gate table domain_id r in
      if skip then (Inr (source_only_result now table), r1, s)
      else reader_validate_table now secs d table r1 s)"

text \<open>A table that throws is logged and left out of the results.\<close>

fun validate_tables ::
  "nat \<Rightarrow> real \<Rightarrow> 'w driver \<Rightarrow> string list \<Rightarrow> dual_reader \<Rightarrow> 'w io
   \<Rightarrow> validation_result list \<times> dual_reader \<times> 'w io" where
  "validate_tables now secs d [] r s = ([], r, s)"
| "validate_tables now secs d (t # ts) r s =
     (case reader_validate_table now secs d t r s of
        (out, r1, s1) \<Rightarrow>
          (case validate_tables now secs d ts r1 s1 of
             (results, r2, s2) \<Rightarrow>
               ((case out of Inr v \<Rightarrow> v # results | Inl _ \<Rightarrow> results), r2, s2)))"

definition validate_all_tables ::
  "nat \<Rightarrow> real \<Rightarrow> 'w driver \<Rightarrow> dual_reader \<Rightarrow> 'w io \<Rightarrow> validation_result list \<times> dual_reader \<times> 'w io" where
  "validate_all_tables now secs d r s =
     validate_tables now secs d (rc_tables (drc_reader (rd_config r))) r s"

text \<open>One round of \<open>continuous_validation_loop\<close>, with the figures of its log line; a loop of as many
  rounds as there are clock readings.\<close>

record cycle_report =
  cy_tables :: nat
  cy_compared :: nat
  cy_source_only :: nat
  cy_discrepancies :: nat

definition report_cycle :: "validation_result list \<Rightarrow> cycle_report" where
  "report_cycle results =
     (let discrepancies = sum_list (map (\<lambda>r. length (vr_discrepancies r)) results);
          source_only_count = length (filter vr_source_only results)
      in \<lparr>cy_tables = length results, cy_compared = length results - source_only_count,
          cy_source_only = source_only_count, cy_discrepancies = discrepancies\<rparr>)"

definition validation_cycle ::
  "nat \<Rightarrow> real \<Rightarrow> 'w driver \<Rightarrow> dual_reader \<Rightarrow> 'w io \<Rightarrow> cycle_report \<times> dual_reader \<times> 'w io" where
  "validation_cycle now secs d r s =
     (let (results, r', s') = validate_all_tables now secs d r s in (report_cycle results, r', s'))"

fun continuous_validation ::
  "'w driver \<Rightarrow> (nat \<times> real) list \<Rightarrow> dual_reader \<Rightarrow> 'w io \<Rightarrow> cycle_report list \<times> dual_reader \<times> 'w io" where
  "continuous_validation d [] r s = ([], r, s)"
| "continuous_validation d ((now, secs) # cycles) r s =
     (let (c, r1, s1) = validation_cycle now secs d r s;
          (cs, r2, s2) = continuous_validation d cycles r1 s1
      in (c # cs, r2, s2))"

subsection \<open>Discrepancies and reconciliation\<close>

definition get_discrepancies :: "dual_reader \<Rightarrow> discrepancy list" where
  "get_discrepancies r = map snd (rd_discrepancies r)"

definition get_discrepancies_for_table :: "string \<Rightarrow> dual_reader \<Rightarrow> discrepancy list" where
  "get_discrepancies_for_table table r =
     filter (\<lambda>disc. disc_table disc = table) (map snd (rd_discrepancies r))"

definition clear_discrepancies :: "dual_reader \<Rightarrow> dual_reader" where
  "clear_discrepancies r = r\<lparr>rd_discrepancies := []\<rparr>"

definition reconcile_discrepancy ::
  "'w driver \<Rightarrow> string \<Rightarrow> dual_reader \<Rightarrow> 'w io \<Rightarrow> unit outcome \<times> dual_reader \<times> 'w io" where
  "reconcile_discrepancy d i r s =
     (case map_of (rd_discrepancies r) i of
        None \<Rightarrow> (Inl (ValidationError (''Discrepancy not found: '' @ i)), r, s)
      | Some disc \<Rightarrow>
          let (res, s') = reconcile (rd_strategy r) d (rd_target r) disc s
          in (Inr (),
              if rr_success res then r\<lparr>rd_discrepancies := umap_erase i (rd_discrepancies r)\<rparr> else r,
              s'))"

definition set_strategy :: "strategy \<Rightarrow> dual_reader \<Rightarrow> dual_reader" where
  "set_strategy st r = r\<lparr>rd_strategy := st\<rparr>"

definition reader_health_check :: "'w driver \<Rightarrow> dual_reader \<Rightarrow> 'w io \<Rightarrow> bool \<times> 'w io" where
  "reader_health_check d r s =
     (let (source_up, s1) = conn_ping d (rd_source r) s;
          (target_up, s2) = conn_ping d (rd_target r) s1
      in (source_up \<and> target_up, s2))"

text \<open>\<open>filter_stats()\<close> dereferences the filter: \<^term>\<open>None\<close> is a null dereference.\<close>

definition reader_filter_stats :: "dual_reader \<Rightarrow> dr_filter_stats option" where
  "reader_filter_stats r = map_option dr_gov_stats (rd_filter r)"

definition filter_enabled :: "dual_reader \<Rightarrow> bool" where
  "filter_enabled r = (case rd_filter r of None \<Rightarrow> False | Some g \<Rightarrow> dr_is_enabled g)"

subsection \<open>Runs of the service\<close>

datatype reader_op =
    OpValidate nat real string
  | OpValidateDomain nat real string string
  | OpValidateAll nat real
  | OpClear
  | OpReconcile string
  | OpSetStrategy strategy
  | OpHealth

fun reader_step :: "'w driver \<Rightarrow> reader_op \<Rightarrow> dual_reader \<times> 'w io \<Rightarrow> dual_reader \<times> 'w io" where
  "reader_step d (OpValidate now secs t) (r, s) = snd (reader_validate_table now secs d t r s)"
| "reader_step d (OpValidateDomain now secs t i) (r, s) = snd (validate_table_for_domain now secs d t i r s)"
| "reader_step d (OpValidateAll now secs) (r, s) = snd (validate_all_tables now secs d r s)"
| "reader_step d OpClear (r, s) = (clear_discrepancies r, s)"
| "reader_step d (OpReconcile i) (r, s) = snd (reconcile_discrepancy d i r s)"
| "reader_step d (OpSetStrategy st) (r, s) = (set_strategy st r, s)"
| "reader_step d OpHealth (r, s) = (r, snd (reader_health_check d r s))"

section \<open>Lemmas\<close>

definition gate_skips :: "dual_reader \<Rightarrow> string \<Rightarrow> string \<Rightarrow> bool" where
  "gate_skips r table domain_id \<longleftrightarrow>
     (case rd_filter r of
        None \<Rightarrow> False
      | Some g \<Rightarrow> dr_is_enabled g \<and>
          (dr_compare_tables g \<noteq> [] \<and> table \<notin> set (dr_compare_tables g) \<or>
           domain_id \<noteq> [] \<and> dr_compare_domains g \<noteq> [] \<and> domain_id \<notin> set (dr_compare_domains g)))"

lemma reader_gate_decides: "fst (reader_gate t i r) = gate_skips r t i"
  by (auto simp: reader_gate_def gate_skips_def dr_decide_def dr_is_enabled_def Let_def split: option.splits)

lemma reader_gate_frame [frame_simps]:
  "rd_config (snd (reader_gate t i r)) = rd_config r" "rd_source (snd (reader_gate t i r)) = rd_source r"
  "rd_target (snd (reader_gate t i r)) = rd_target r" "rd_metrics (snd (reader_gate t i r)) = rd_metrics r"
  "rd_discrepancies (snd (reader_gate t i r)) = rd_discrepancies r"
  by (simp_all add: reader_gate_def case_prod_beta split: option.splits)

lemma gate_skips_gate [frame_simps]: "gate_skips (snd (reader_gate t i r)) u j = gate_skips r u j"
  by (auto simp: gate_skips_def reader_gate_def dr_decide_def dr_is_enabled_def Let_def split: option.splits)

lemma validate_keeps_discrepancies:
  "rd_discrepancies (fst (snd (reader_validate_table now secs d t r s))) = rd_discrepancies r"
  by (simp add: reader_validate_table_def Let_def case_prod_beta frame_simps store_discrepancies_def
      new_validation_result_def split: sum.splits)

lemma validate_tables_keep_discrepancies:
  "rd_discrepancies (fst (snd (validate_tables now secs d ts r s))) = rd_discrepancies r"
proof (induction ts arbitrary: r s)
  case (Cons t ts)
  then show ?case
    using validate_keeps_discrepancies [of now secs d t r s] by (simp add: case_prod_beta)
qed simp

lemma reader_step_keeps_empty:
  assumes "rd_discrepancies (fst st) = []"
  shows "rd_discrepancies (fst (reader_step d op st)) = []"
proof -
  obtain r s where st: "st = (r, s)" by force
  show ?thesis
    using assms unfolding st
    by (cases op) (simp_all add: validate_keeps_discrepancies validate_table_for_domain_def
        validate_all_tables_def validate_tables_keep_discrepancies clear_discrepancies_def
        reconcile_discrepancy_def set_strategy_def case_prod_beta Let_def frame_simps)
qed

lemma reader_run_keeps_empty:
  "rd_discrepancies (fst st) = [] \<Longrightarrow> rd_discrepancies (fst (fold (reader_step d) ops st)) = []"
  by (induction ops arbitrary: st) (simp_all add: reader_step_keeps_empty)

lemma gate_weaken: "\<not> gate_skips r t i \<Longrightarrow> \<not> gate_skips r t []"
  by (auto simp: gate_skips_def split: option.splits)

lemma reader_gate_counts:
  assumes "rd_filter r = Some g" "\<not> gate_skips r t i"
  shows "\<exists>g'. rd_filter (snd (reader_gate t i r)) = Some g' \<and>
    dr_dual_reads (dr_gov_stats g') = dr_dual_reads (dr_gov_stats g) + 1"
  using assms
  by (auto simp: reader_gate_def gate_skips_def dr_decide_def dr_is_enabled_def Let_def)

lemma validate_filter:
  "rd_filter (fst (snd (reader_validate_table now secs d t r s))) = rd_filter (snd (reader_gate t [] r))"
  by (simp add: reader_validate_table_def Let_def case_prod_beta split: sum.splits)

lemma validate_result:
  "case fst (reader_validate_table now secs d t r s) of
     Inl _ \<Rightarrow> \<not> gate_skips r t []
   | Inr v \<Rightarrow> vr_source_only v = gate_skips r t [] \<and> vr_discrepancies v = []"
  using reader_gate_decides [of t "[]" r]
  by (auto simp: reader_validate_table_def Let_def case_prod_beta source_only_result_def new_validation_result_def
      split: sum.splits)

lemma validate_keeps_gate [frame_simps]:
  "gate_skips (fst (snd (reader_validate_table now secs d t r s))) u j = gate_skips r u j"
  using validate_filter [of now secs d t r s] gate_skips_gate [of t "[]" r u j] by (simp add: gate_skips_def)

lemma validate_keeps_config [frame_simps]:
  "rd_config (fst (snd (reader_validate_table now secs d t r s))) = rd_config r"
  by (simp add: reader_validate_table_def Let_def case_prod_beta reader_gate_def store_discrepancies_def
      split: sum.splits option.splits)

lemma validate_tables_results:
  assumes "validate_tables now secs d ts r s = (results, r', s')"
  shows "length (filter vr_source_only results) = length (filter (\<lambda>t. gate_skips r t []) ts) \<and>
    length results \<le> length ts \<and> (\<forall>v \<in> set results. vr_discrepancies v = []) \<and>
    rd_config r' = rd_config r \<and> (\<forall>u j. gate_skips r' u j = gate_skips r u j)"
  using assms
proof (induction ts arbitrary: r s results r' s')
  case (Cons t ts)
  obtain out r1 s1 where head: "reader_validate_table now secs d t r s = (out, r1, s1)" by (metis prod_cases3)
  obtain results1 r2 s2 where rest: "validate_tables now secs d ts r1 s1 = (results1, r2, s2)" by (metis prod_cases3)
  have frame: "gate_skips r1 u j = gate_skips r u j" "rd_config r1 = rd_config r" for u j
    using validate_keeps_gate [of now secs d t r s] validate_keeps_config [of now secs d t r s] head by simp_all
  show ?case
    using Cons.IH [OF rest] Cons.prems head rest frame validate_result [where now = now and secs = secs and d = d and t = t and r = r and s = s]
    by (cases out) (auto simp: frame)
qed simp

lemma validation_cycle_report:
  assumes "validation_cycle now secs d r s = (c, r', s')"
  defines "tables \<equiv> rc_tables (drc_reader (rd_config r))"
  shows "cy_source_only c = length (filter (\<lambda>t. gate_skips r t []) tables) \<and>
    cy_compared c \<le> length (filter (\<lambda>t. \<not> gate_skips r t []) tables) \<and>
    cy_tables c = cy_compared c + cy_source_only c \<and> cy_discrepancies c = 0" (is ?report)
    "rd_discrepancies r' = rd_discrepancies r \<and> rd_config r' = rd_config r \<and>
     (\<forall>u j. gate_skips r' u j = gate_skips r u j)" (is ?frame)
proof -
  obtain results where run: "validate_tables now secs d tables r s = (results, r', s')"
      "c = report_cycle results"
    using assms(1) by (auto simp: validation_cycle_def validate_all_tables_def tables_def split: prod.splits)
  note res = validate_tables_results [OF run(1)]
  have "sum_list (map (\<lambda>v. length (vr_discrepancies v)) results) = 0"
    using res by (simp add: sum_list_eq_0_iff)
  moreover have "length (filter vr_source_only results) \<le> length results" by simp
  ultimately show ?report
    using res sum_length_filter_compl [of "\<lambda>t. gate_skips r t []" tables]
    by (simp add: run(2) report_cycle_def Let_def) linarith
  show ?frame
    using res validate_tables_keep_discrepancies [of now secs d tables r s] run(1) by simp
qed

subsection \<open>Example\<close>

definition example_reader_config :: dual_reader_config where
  "example_reader_config =
     \<lparr>drc_source = default_database_config, drc_target = default_database_config,
      drc_reader = default_reader_config (1 / 100), drc_filter = default_dr_filter_config,
      drc_observability = default_observability_config\<rparr>"

definition example_disc :: discrepancy where
  "example_disc = (new_discrepancy 0)\<lparr>disc_id := ''d1'', disc_table := ''ks.t'',
     disc_type := MissingInTarget, disc_source_value := Some ''{}''\<rparr>"

definition example_reader :: "strategy \<Rightarrow> dual_reader" where
  "example_reader st =
     (dual_reader_new example_reader_config (example_connection 1) (example_connection 2)
        (Some (dr_governor_new default_dr_filter_config)) st None)
       \<lparr>rd_discrepancies := [(''d1'', example_disc)]\<rparr>"

section \<open>Properties\<close>

text \<open>Validation goes through the filter gate: a table the gate filters out yields a
  source-only result with no row checked, and no cluster is contacted. Any other table is
  selected once on the source and, when the source answers, once on the target; the
  validation throws exactly when one of the two fails, and otherwise reports a comparison.\<close>

lemma validate_table_gate:
  "let (out, r', s') = reader_validate_table now secs d table r s;
       q = ''SELECT * FROM '' @ table;
       (src, s1) = conn_execute d (rd_source r) q s;
       (tgt, s2) = conn_execute d (rd_target r) q s1
   in if gate_skips r table []
      then s' = s \<and> (\<exists>v. out = Inr v \<and> vr_source_only v \<and> vr_rows_checked v = 0)
      else io_calls s' = io_calls s @ exec_calls (rd_source r) q @
             (if isl src then [] else exec_calls (rd_target r) q) \<and>
           isl out = (isl src \<or> isl tgt) \<and> (case out of Inl _ \<Rightarrow> True | Inr v \<Rightarrow> \<not> vr_source_only v)"
proof -
  obtain src s1 where src: "conn_execute d (rd_source r) (''SELECT * FROM '' @ table) s = (src, s1)" by force
  obtain tgt s2 where tgt: "conn_execute d (rd_target r) (''SELECT * FROM '' @ table) s1 = (tgt, s2)" by force
  show ?thesis
    using io_calls_executeD [OF src] io_calls_executeD [OF tgt] src tgt
    by (cases src; cases tgt)
      (simp_all add: reader_validate_table_def Let_def case_prod_beta reader_gate_decides frame_simps
        source_only_result_def new_validation_result_def select_all_def)
qed

text \<open>C37. What a reconciliation does: an unknown id throws and changes nothing; for a known one
  the target receives the copy statement of its table exactly when the strategy copies this
  kind of discrepancy, the discrepancy stays in the map exactly when that copy was made and
  failed, and every other discrepancy stays as it is. A discrepancy that the strategy takes no
  action on, such as every one under manual review, is removed all the same.\<close>

theorem reconcile_effect:
  "let (out, r', s') = reconcile_discrepancy d i r s in
   (case map_of (rd_discrepancies r) i of
      None \<Rightarrow> isl out \<and> r' = r \<and> s' = s
    | Some disc \<Rightarrow>
        let copies = strategy_copies (rd_strategy r) disc;
            q = ''INSERT INTO '' @ disc_table disc @ '' JSON ?''
        in io_calls s' = io_calls s @ (if copies then exec_calls (rd_target r) q else []) \<and>
           map_of (rd_discrepancies r') =
             (if copies \<and> isl (fst (conn_execute d (rd_target r) q s)) then map_of (rd_discrepancies r)
              else (map_of (rd_discrepancies r))(i := None)))"
proof (cases "map_of (rd_discrepancies r) i")
  case None
  then show ?thesis by (simp add: reconcile_discrepancy_def)
next
  case (Some disc)
  show ?thesis
  proof (cases "strategy_copies (rd_strategy r) disc")
    case False
    with Some show ?thesis
      using rec.leaves [of "rd_strategy r" disc d "rd_target r" s]
      by (auto simp: reconcile_discrepancy_def)
  next
    case True
    obtain out s1 where ex: "conn_execute d (rd_target r) (copy_query (disc_table disc)) s = (out, s1)"
      by force
    then obtain res where "reconcile (rd_strategy r) d (rd_target r) disc s = (res, s1)"
      "rr_success res = (\<not> isl out)"
      using rec.makes_copy [OF True ex] by blast
    with Some True ex show ?thesis
      using io_calls_executeD [OF ex] by (simp add: reconcile_discrepancy_def copy_query_def)
  qed
qed

text \<open>The reader never reports a discrepancy: whatever validations, reconciliations and
  strategy changes are run on a new reader, in whatever order and however the clusters answer,
  the map of discrepancies is empty, because the comparison of rows is not implemented.\<close>

lemma reader_never_reports:
  "get_discrepancies (fst (fold (reader_step d) ops (dual_reader_new cfg src tgt flt st mtr, s))) = []"
  using reader_run_keeps_empty [of "(dual_reader_new cfg src tgt flt st mtr, s)" d ops]
  by (simp add: get_discrepancies_def dual_reader_new_def)

text \<open>A domain-scoped validation that passes the gate is counted as two dual reads, because
  \<open>validate_table_for_domain\<close> asks the governor and then calls \<open>validate_table\<close>, which asks it
  again.\<close>

lemma domain_validation_counts_twice:
  assumes "rd_filter r = Some g" "\<not> gate_skips r table domain_id"
  shows "\<exists>g'. rd_filter (fst (snd (validate_table_for_domain now secs d table domain_id r s))) = Some g' \<and>
    dr_dual_reads (dr_gov_stats g') = dr_dual_reads (dr_gov_stats g) + 2"
proof -
  let ?r1 = "snd (reader_gate table domain_id r)"
  obtain g1 where g1: "rd_filter ?r1 = Some g1"
    "dr_dual_reads (dr_gov_stats g1) = dr_dual_reads (dr_gov_stats g) + 1"
    using reader_gate_counts [OF assms] by blast
  have "\<not> gate_skips ?r1 table []"
    using gate_weaken [OF assms(2)] by (simp add: frame_simps)
  then obtain g2 where "rd_filter (snd (reader_gate table [] ?r1)) = Some g2"
    "dr_dual_reads (dr_gov_stats g2) = dr_dual_reads (dr_gov_stats g1) + 1"
    using reader_gate_counts [OF g1(1)] by blast
  then show ?thesis
    using g1(2) assms(2)
    by (simp add: validate_table_for_domain_def Let_def case_prod_beta reader_gate_decides validate_filter)
qed

text \<open>C36. What continuous validation reports, round after round and whatever the clusters answer:
  every round counts as source-only exactly the configured tables that the filter gate
  excludes, compares at most the others (those that fail are left out), reports no
  discrepancy, and leaves the stored discrepancies as they are.\<close>

theorem continuous_validation_reports:
  assumes "continuous_validation d cycles r s = (reports, r', s')"
  shows "length reports = length cycles \<and>
    list_all (\<lambda>c. let tables = rc_tables (drc_reader (rd_config r)) in
        cy_source_only c = length (filter (\<lambda>t. gate_skips r t []) tables) \<and>
        cy_compared c \<le> length (filter (\<lambda>t. \<not> gate_skips r t []) tables) \<and>
        cy_tables c = cy_compared c + cy_source_only c \<and> cy_discrepancies c = 0) reports \<and>
    get_discrepancies r' = get_discrepancies r"
  using assms
proof (induction d cycles r s arbitrary: reports r' s' rule: continuous_validation.induct)
  case (2 d now secs cycles r s)
  obtain c r1 s1 where cyc: "validation_cycle now secs d r s = (c, r1, s1)" by (metis prod_cases3)
  obtain cs where rest: "continuous_validation d cycles r1 s1 = (cs, r', s')" "reports = c # cs"
    using 2(2) cyc by (auto simp: Let_def case_prod_beta prod_eq_iff)
  show ?case
    using 2(1) [OF refl cyc [symmetric] refl rest(1)] validation_cycle_report [OF cyc]
    by (simp add: rest(2) Let_def get_discrepancies_def)
qed (simp add: get_discrepancies_def)

theorem continuous_validation_reports_witness:
  "length (fst (continuous_validation (scripted_driver (\<lambda>_ _ _. None)) [(0, 1), (60, 1)] (example_reader ManualReviewStrategy) io_start)) = 2"
proof -
  let ?run = "continuous_validation (scripted_driver (\<lambda>_ _ _. None)) [(0, 1), (60, 1)] (example_reader ManualReviewStrategy) io_start"
  obtain reports r' s' where run: "?run = (reports, r', s')" by (metis prod_cases3)
  show ?thesis using continuous_validation_reports [OF run] unfolding run by simp
qed

end
