(* ===== verification/Service_Startup.thy ===== *)
theory Service_Startup
  imports Command_Line Proxy_Server Sstable_Loader Dual_Reader
begin

text \<open>
  The start-up of the three services (\<open>main\<close> of \<open>services/dual-writer\<close>,
  \<open>services/sstable-loader\<close> and \<open>services/dual-reader\<close>): command line, configuration, filter
  rules, the two cluster connections and the service object, up to the event loop.

  Every exception after the command line ends in the handlers of \<open>main\<close> and exit status 1;
  the objects built before it are destroyed. The API and reload threads, the signal handler
  and the event loop come after the part modelled here; what runs in them is in the theories
  of the services.
\<close>

section \<open>Definitions\<close>

text \<open>\<open>Terminates\<close> is the uncaught exception of the command line, \<open>ExitFailure\<close> exit status 1.\<close>

datatype 'a startup = Terminates | ExitFailure | Serving 'a

text \<open>The two \<open>make_shared<ScyllaConnection>\<close>: when the second throws, the first is destroyed.\<close>

definition connect_clusters ::
  "'w driver \<Rightarrow> database_config \<Rightarrow> database_config \<Rightarrow> 'w io
   \<Rightarrow> (scylla_connection \<times> scylla_connection) outcome \<times> 'w io" where
  "connect_clusters d source target s =
     (case conn_new d source s of
        (Inl e, s1) \<Rightarrow> (Inl e, s1)
      | (Inr source_conn, s1) \<Rightarrow>
          (case conn_new d target s1 of
             (Inl e, s2) \<Rightarrow> (Inl e, conn_destroy d source_conn s2)
           | (Inr target_conn, s2) \<Rightarrow> (Inr (source_conn, target_conn), s2)))"

subsection \<open>dual-writer\<close>

record writer_service =
  ws_args :: writer_args
  ws_writer :: dual_writer
  ws_source_host :: string
  ws_source_port :: u16

definition dual_writer_main ::
  "'n host_env \<Rightarrow> 'n yaml_api \<Rightarrow> 'w driver \<Rightarrow> string list \<Rightarrow> 'w io \<Rightarrow> writer_service startup \<times> 'w io" where
  "dual_writer_main h y d argv s =
     (case parse_writer_args argv of
        None \<Rightarrow> (Terminates, s)
      | Some args \<Rightarrow>
          (case dual_writer_from_yaml h y (wa_config_path args) of
             Inl _ \<Rightarrow> (ExitFailure, s)
           | Inr config \<Rightarrow>
               (case dw_load_filter_config h y (wa_filter_config_path args) of
                  Inl _ \<Rightarrow> (ExitFailure, s)
                | Inr filter_config \<Rightarrow>
                    (case connect_clusters d (dwc_source config) (dwc_target config) s of
                       (Inl _, s') \<Rightarrow> (ExitFailure, s')
                     | (Inr (source_conn, target_conn), s') \<Rightarrow>
                         (Serving
                            \<lparr>ws_args = args,
                             ws_writer = dual_writer_new config source_conn target_conn
                               (Some (dw_governor_new filter_config))
                               (Some (new_metrics_registry ''dual_writer'')),
                             ws_source_host =
                               (if db_hosts (dwc_source config) = [] then ''127.0.0.1''
                                else hd (db_hosts (dwc_source config))),
                             ws_source_port = db_port (dwc_source config)\<rparr>, s')))))"

text \<open>One round of the hot-reload thread.\<close>

definition reload_round :: "dual_writer \<Rightarrow> dual_writer" where
  "reload_round w = w\<lparr>dw_filter := map_option dw_reload_config (dw_filter w)\<rparr>"

subsection \<open>sstable-loader\<close>

definition empty_ss_filter :: ss_filter_config where
  "empty_ss_filter =
     \<lparr>ss_cfg_tenant_blacklist = [], ss_cfg_table_blacklist = [], ss_cfg_tenant_id_columns = []\<rparr>"

text \<open>Rules that cannot be loaded are replaced by none.\<close>

definition loader_filter :: "'n host_env \<Rightarrow> 'n yaml_api \<Rightarrow> loader_args \<Rightarrow> ss_governor" where
  "loader_filter h y args =
     (if la_skip_filters args then ss_governor_new empty_ss_filter
      else
        case ss_load_filter_config h y (la_filter_config_path args) of
          Inr filter_config \<Rightarrow> ss_governor_new filter_config
        | Inl _ \<Rightarrow> ss_governor_new empty_ss_filter)"

record loader_service =
  lv_args :: loader_args
  lv_loader :: sstable_loader

definition sstable_loader_main ::
  "'n host_env \<Rightarrow> 'n yaml_api \<Rightarrow> 'w driver \<Rightarrow> string list \<Rightarrow> 'w io \<Rightarrow> loader_service startup \<times> 'w io" where
  "sstable_loader_main h y d argv s =
     (case parse_loader_args argv of
        None \<Rightarrow> (Terminates, s)
      | Some args \<Rightarrow>
          (case sstable_loader_from_yaml h y (la_config_path args) of
             Inl _ \<Rightarrow> (ExitFailure, s)
           | Inr config \<Rightarrow>
               let flt = loader_filter h y args in
               (case connect_clusters d (slc_source config) (slc_target config) s of
                  (Inl _, s') \<Rightarrow> (ExitFailure, s')
                | (Inr (source_conn, target_conn), s') \<Rightarrow>
                    (Serving
                       \<lparr>lv_args = args,
                        lv_loader = sstable_loader_new config source_conn target_conn (Some flt)
                          (Some (new_metrics_registry ''sstable_loader''))\<rparr>, s'))))"

text \<open>\<open>--auto-start\<close> begins a migration of all tables in the event loop.\<close>

definition auto_start ::
  "'w driver \<Rightarrow> (token_range list \<Rightarrow> token_range list) \<Rightarrow> (real \<Rightarrow> real) \<Rightarrow> (real \<Rightarrow> real) \<Rightarrow> int
   \<Rightarrow> inbox \<Rightarrow> loader_service \<Rightarrow> 'w io \<Rightarrow> (inbox \<times> loader_service \<times> 'w io) run" where
  "auto_start d sched fl fl64 ms box sv s =
     (if la_auto_start (lv_args sv)
      then run_bind (start_migration d sched fl fl64 ms [] box (lv_loader sv) s)
             (\<lambda>(_, box', l, s'). Returned (box', sv\<lparr>lv_loader := l\<rparr>, s'))
      else Returned (box, sv, s))"

text \<open>The handler of \<open>SIGINT\<close> and \<open>SIGTERM\<close>.\<close>

definition loader_shutdown :: "loader_service \<Rightarrow> loader_service" where
  "loader_shutdown sv = sv\<lparr>lv_loader := loader_stop (lv_loader sv)\<rparr>"

subsection \<open>dual-reader\<close>

record reader_service =
  rv_args :: reader_args
  rv_reader :: dual_reader

definition dual_reader_main ::
  "real \<Rightarrow> 'n host_env \<Rightarrow> 'n yaml_api \<Rightarrow> 'w driver \<Rightarrow> string list \<Rightarrow> 'w io
   \<Rightarrow> reader_service startup \<times> 'w io" where
  "dual_reader_main rate h y d argv s =
     (case parse_reader_args argv of
        None \<Rightarrow> (Terminates, s)
      | Some args \<Rightarrow>
          (case dual_reader_from_yaml rate h y (ra_config_path args) of
             Inl _ \<Rightarrow> (ExitFailure, s)
           | Inr config \<Rightarrow>
               let flt = dr_governor_new (drc_filter config) in
               (case connect_clusters d (drc_source config) (drc_target config) s of
                  (Inl _, s') \<Rightarrow> (ExitFailure, s')
                | (Inr (source_conn, target_conn), s') \<Rightarrow>
                    (Serving
                       \<lparr>rv_args = args,
                        rv_reader = dual_reader_new config source_conn target_conn (Some flt)
                          (make_strategy (rc_reconciliation_mode (drc_reader config)))
                          (Some (new_metrics_registry ''dual_reader''))\<rparr>, s'))))"

section \<open>Lemmas\<close>

text \<open>What a service owns after its start-up.\<close>

fun startup_owns :: "('a \<Rightarrow> scylla_connection) \<Rightarrow> ('a \<Rightarrow> scylla_connection) \<Rightarrow> 'a startup \<Rightarrow> cass_call multiset" where
  "startup_owns source target (Serving sv) = owned (source sv) + owned (target sv)"
| "startup_owns source target _ = {#}"

lemma connect_clusters_balanced:
  assumes "connect_clusters d source target s = (r, s')"
  shows "balanced s {#} s' (case r of Inl _ \<Rightarrow> {#} | Inr (a, b) \<Rightarrow> owned a + owned b)"
proof -
  obtain r1 s1 where c1: "conn_new d source s = (r1, s1)" by force
  note b1 = balanced_new [OF c1, of "{#}"]
  show ?thesis
  proof (cases r1)
    case (Inl e)
    with assms c1 b1 show ?thesis by (auto simp: connect_clusters_def)
  next
    case (Inr a)
    obtain r2 s2 where c2: "conn_new d target s1 = (r2, s2)" by force
    note b2 = balanced_new [OF c2, of "owned a"]
    have b12: "balanced s {#} s2 ((case r2 of Inl _ \<Rightarrow> {#} | Inr c \<Rightarrow> owned c) + owned a)"
      using balanced_trans [OF _ b2] b1 Inr by simp
    show ?thesis
      using assms c1 c2 Inr b12 balanced_trans [OF _ balanced_destroy [of s2 a "{#}" d]]
      by (cases r2) (auto simp: connect_clusters_def add.commute)
  qed
qed

lemma balanced_from_start: "io_calls s = [] \<Longrightarrow> balanced s {#} s' own \<longleftrightarrow> owed s' = freed s' + own"
  by (simp add: balanced_def owed_def freed_def)


lemma writer_main_balanced:
  assumes "dual_writer_main h y d argv s = (r, s')"
  shows "balanced s {#} s' (startup_owns (dw_source \<circ> ws_writer) (dw_target \<circ> ws_writer) r)"
  using assms
  by (auto simp: dual_writer_main_def dual_writer_new_def dest: connect_clusters_balanced
      split: option.splits sum.splits prod.splits)

lemma loader_main_balanced:
  assumes "sstable_loader_main h y d argv s = (r, s')"
  shows "balanced s {#} s' (startup_owns (ld_source \<circ> lv_loader) (ld_target \<circ> lv_loader) r)"
  using assms
  by (auto simp: sstable_loader_main_def sstable_loader_new_def Let_def dest: connect_clusters_balanced
      split: option.splits sum.splits prod.splits)

lemma reader_main_balanced:
  assumes "dual_reader_main rate h y d argv s = (r, s')"
  shows "balanced s {#} s' (startup_owns (rd_source \<circ> rv_reader) (rd_target \<circ> rv_reader) r)"
  using assms
  by (auto simp: dual_reader_main_def dual_reader_new_def Let_def dest: connect_clusters_balanced
      split: option.splits sum.splits prod.splits)

lemma writer_main_filter:
  assumes "dual_writer_main h y d argv s = (Serving ws, s')"
  obtains fc where "dw_load_filter_config h y (wa_filter_config_path (ws_args ws)) = Inr fc"
    "dw_filter (ws_writer ws) = Some (dw_governor_new fc)"
  using assms
  by (auto simp: dual_writer_main_def dual_writer_new_def split: option.splits sum.splits prod.splits)

text \<open>No round of the hot-reload thread changes the writer.\<close>

lemma reload_round_noop:
  assumes "dw_filter w = Some (dw_governor_run ops (dw_governor_new cfg))"
  shows "(reload_round ^^ n) w = w"
proof (induction n)
  case (Suc n)
  then show ?case using assms dw_reload_config_noop [of ops cfg] by (simp add: reload_round_def)
qed simp

lemma loader_main_filter:
  assumes "sstable_loader_main h y d argv s = (Serving lv, s')"
  shows "ld_filter (lv_loader lv) = Some (loader_filter h y (lv_args lv))"
  using assms
  by (auto simp: sstable_loader_main_def sstable_loader_new_def Let_def split: option.splits sum.splits prod.splits)

text \<open>The tables that the loader's rules exclude: none with \<open>--skip-filters\<close> or when the rules file
  cannot be read.\<close>

definition loader_rules :: "'n host_env \<Rightarrow> 'n yaml_api \<Rightarrow> loader_args \<Rightarrow> string \<Rightarrow> bool" where
  "loader_rules h y args =
     (if la_skip_filters args then (\<lambda>_. False)
      else case ss_load_filter_config h y (la_filter_config_path args) of
             Inl _ \<Rightarrow> (\<lambda>_. False)
           | Inr fc \<Rightarrow> table_blacklisted (set (ss_cfg_table_blacklist fc)))"

lemma loader_main_blacklists:
  assumes "sstable_loader_main h y d argv s = (Serving lv, s')"
  shows "ld_blacklists (lv_loader lv) = loader_rules h y (lv_args lv)"
proof
  fix t
  show "ld_blacklists (lv_loader lv) t = loader_rules h y (lv_args lv) t"
    using loader_main_filter [OF assms]
    by (auto simp: ld_blacklists_def loader_rules_def loader_filter_def ss_governor_new_def empty_ss_filter_def
        table_blacklisted_def split: sum.splits)
qed

subsection \<open>Statements executed\<close>

text \<open>Between start-up and the end of \<open>main\<close>, the threads of a service only execute statements.\<close>

definition executes :: "'w io \<Rightarrow> 'w io \<Rightarrow> bool" where
  "executes s s' \<longleftrightarrow>
     (\<exists>new. io_calls s' = io_calls s @ new \<and> (\<forall>c \<in> set new. \<exists>x q. c = SessionExecute x q))"

lemma executes_refl [simp]: "executes s s"
  by (simp add: executes_def)

lemma executes_trans: "executes s s' \<Longrightarrow> executes s' s'' \<Longrightarrow> executes s s''"
  by (fastforce simp: executes_def)

lemma executesI: "io_calls s' = io_calls s @ new \<Longrightarrow> \<forall>c \<in> set new. \<exists>x q. c = SessionExecute x q \<Longrightarrow> executes s s'"
  by (auto simp: executes_def)

lemma executes_balanced:
  assumes "executes s s'"
  shows "balanced s own s' own"
proof -
  obtain new where new: "io_calls s' = io_calls s @ new" "\<forall>c \<in> set new. \<exists>x q. c = SessionExecute x q"
    using assms by (auto simp: executes_def)
  have "concat (map owed_by new) = []" "filter is_free new = []"
    using new(2) by (fastforce simp: filter_empty_conv)+
  then show ?thesis using new(1) by (intro balanced_calls [OF new(1)]) simp
qed

text \<open>Start-up executes none.\<close>

definition makes_no_execute :: "'w io \<Rightarrow> 'w io \<Rightarrow> bool" where
  "makes_no_execute s s' \<longleftrightarrow>
     (\<forall>x q. SessionExecute x q \<in> set (io_calls s') \<longrightarrow> SessionExecute x q \<in> set (io_calls s))"

lemma conn_new_facts:
  assumes "conn_new d cfg s = (r, s')"
  shows "makes_no_execute s s'" "r = Inr c \<Longrightarrow> conn_session c \<noteq> None"
  using assms
  by (auto simp: makes_no_execute_def conn_new_def conn_connect_def Let_def free_members_def free_session_def
      free_cluster_def split: prod.splits option.splits)

lemma connect_clusters_facts:
  assumes "connect_clusters d source target s = (Inr (a, b), s')"
  shows "conn_session a \<noteq> None \<and> conn_session b \<noteq> None \<and> makes_no_execute s s'"
proof -
  obtain s1 where new: "conn_new d source s = (Inr a, s1)" "conn_new d target s1 = (Inr b, s')"
    using assms by (auto simp: connect_clusters_def split: prod.splits sum.splits)
  show ?thesis
    using conn_new_facts [OF new(1)] conn_new_facts [OF new(2)] by (auto simp: makes_no_execute_def)
qed

subsection \<open>Example\<close>

text \<open>An environment where the file \<open>missing\<close> does not exist and every other file has only
  default values.\<close>

definition example_host :: "unit host_env" where
  "example_host = \<lparr>file_exists = (\<lambda>p. p \<noteq> ''missing''), load_file = (\<lambda>_. Inr ()), getenv = (\<lambda>_. None)\<rparr>"

definition example_yaml :: "unit yaml_api" where
  "example_yaml =
     \<lparr>y_defined = (\<lambda>_. True), y_is_map = (\<lambda>_. False), y_is_sequence = (\<lambda>_. False), y_is_scalar = (\<lambda>_. False),
      y_is_null = (\<lambda>_. False), y_child = (\<lambda>_ _. ()), y_items = (\<lambda>_. []), y_string = (\<lambda>_. None),
      y_u16 = (\<lambda>_. None), y_u32 = (\<lambda>_. None), y_u64 = (\<lambda>_. None), y_bool = (\<lambda>_. None), y_float = (\<lambda>_. None)\<rparr>"

lemmas example_startup_simps =
  example_host_def example_yaml_def load_yaml_root_def parse_database_config_def
  parse_observability_config_def env_credentials_def env_override_def connect_clusters_def conn_new_def
  conn_connect_def scripted_driver_def io_start_def Let_def

section \<open>Properties\<close>

text \<open>C15. Start-up does not leak: whatever the command line, the files and the clusters answer,
  when a service is up, the driver handles it has allocated and not freed are exactly those of
  its two connections, and when it ends with a failure, for whatever reason, every handle that
  it allocated has been freed.\<close>

theorem startup_handles:
  assumes "io_calls s = []"
  shows "(let (r, s') = dual_writer_main h y d argv s in
      owed s' = freed s' + startup_owns (dw_source \<circ> ws_writer) (dw_target \<circ> ws_writer) r) \<and>
    (let (r, s') = sstable_loader_main h y d argv s in
      owed s' = freed s' + startup_owns (ld_source \<circ> lv_loader) (ld_target \<circ> lv_loader) r) \<and>
    (let (r, s') = dual_reader_main rate h y d argv s in
      owed s' = freed s' + startup_owns (rd_source \<circ> rv_reader) (rd_target \<circ> rv_reader) r)"
proof -
  obtain rw sw rl sl rr sr where
    m: "dual_writer_main h y d argv s = (rw, sw)" "sstable_loader_main h y d argv s = (rl, sl)"
      "dual_reader_main rate h y d argv s = (rr, sr)"
    by (metis prod.exhaust)
  show ?thesis
    using writer_main_balanced [OF m(1)] loader_main_balanced [OF m(2)] reader_main_balanced [OF m(3)]
    by (simp add: m balanced_from_start [OF assms])
qed


definition second_refused :: "nat driver" where
  "second_refused = (scripted_driver (\<lambda>_ _ _. None))
     \<lparr>cass_session_connect := (\<lambda>se cl ks w. (if se = 1 then None else Some ''refused'', Suc w))\<rparr>"

theorem startup_handles_witness:
  "let (r, s') = dual_writer_main example_host example_yaml second_refused [] io_start
   in r = ExitFailure \<and> owed s' = freed s' \<and> {#SessionFree 1, ClusterFree 0#} \<subseteq># freed s'"
proof -
  obtain r s' where m: "dual_writer_main example_host example_yaml second_refused [] io_start = (r, s')"
    by force
  have r: "r = ExitFailure" "{#SessionFree 1, ClusterFree 0#} \<subseteq># freed s'"
    using m
    by (auto simp: dual_writer_main_def parse_writer_args_def default_writer_args_def dual_writer_from_yaml_def
        dw_load_filter_config_def dw_parse_filter_config_def example_startup_simps second_refused_def
        conn_destroy_def conn_close_def free_members_def free_session_def free_cluster_def freed_def did_call_def)
  show ?thesis
    using startup_handles [of io_start example_host example_yaml second_refused "[]"] m r
    by (simp add: io_start_def)
qed

text \<open>C29. Which rules a service starts with. Suppose its arguments parse, its configuration loads and
  both clusters accept the connection. Then the dual writer serves if its rules file can be
  read, and blacklists exactly what the file says; if the file cannot be read it exits with
  status 1 before any driver call. The loader serves in either case: with \<open>--skip-filters\<close> or
  unreadable rules it fails open and blacklists nothing, otherwise it blacklists what the file
  says.\<close>

theorem filters_at_startup:
  assumes "parse_writer_args argv = Some args" "dual_writer_from_yaml h y (wa_config_path args) = Inr config"
    and "connect_clusters d (dwc_source config) (dwc_target config) s = (Inr conns, s1)"
    and "parse_loader_args argv' = Some args'" "sstable_loader_from_yaml h y (la_config_path args') = Inr config'"
    and "connect_clusters d' (slc_source config') (slc_target config') s' = (Inr conns', s2)"
  shows "(case dw_load_filter_config h y (wa_filter_config_path args) of
      Inl _ \<Rightarrow> dual_writer_main h y d argv s = (ExitFailure, s)
    | Inr fc \<Rightarrow> \<exists>ws. dual_writer_main h y d argv s = (Serving ws, s1) \<and>
        (dw_source (ws_writer ws), dw_target (ws_writer ws)) = conns \<and>
        blacklists (ws_writer ws) = table_blacklisted (set (dw_cfg_table_blacklist fc))) \<and>
    (\<exists>lv. sstable_loader_main h y d' argv' s' = (Serving lv, s2) \<and>
       (ld_source (lv_loader lv), ld_target (lv_loader lv)) = conns' \<and>
       ld_blacklists (lv_loader lv) =
         (if la_skip_filters args' then (\<lambda>_. False)
          else case ss_load_filter_config h y (la_filter_config_path args') of
                 Inl _ \<Rightarrow> (\<lambda>_. False)
               | Inr fc \<Rightarrow> table_blacklisted (set (ss_cfg_table_blacklist fc))))"
proof
  show "case dw_load_filter_config h y (wa_filter_config_path args) of
      Inl _ \<Rightarrow> dual_writer_main h y d argv s = (ExitFailure, s)
    | Inr fc \<Rightarrow> \<exists>ws. dual_writer_main h y d argv s = (Serving ws, s1) \<and>
        (dw_source (ws_writer ws), dw_target (ws_writer ws)) = conns \<and>
        blacklists (ws_writer ws) = table_blacklisted (set (dw_cfg_table_blacklist fc))"
    using assms(1-3)
    by (auto simp: dual_writer_main_def dual_writer_new_def blacklists_def dw_governor_new_def fun_eq_iff
        split: sum.splits prod.splits)
  obtain lv where lv: "sstable_loader_main h y d' argv' s' = (Serving lv, s2)" "lv_args lv = args'"
    "(ld_source (lv_loader lv), ld_target (lv_loader lv)) = conns'"
    using assms(4-6)
    by (cases conns') (simp add: sstable_loader_main_def sstable_loader_new_def Let_def)
  then show "\<exists>lv. sstable_loader_main h y d' argv' s' = (Serving lv, s2) \<and>
       (ld_source (lv_loader lv), ld_target (lv_loader lv)) = conns' \<and>
       ld_blacklists (lv_loader lv) =
         (if la_skip_filters args' then (\<lambda>_. False)
          else case ss_load_filter_config h y (la_filter_config_path args') of
                 Inl _ \<Rightarrow> (\<lambda>_. False)
               | Inr fc \<Rightarrow> table_blacklisted (set (ss_cfg_table_blacklist fc)))"
    using loader_main_blacklists [OF lv(1)] by (auto simp: loader_rules_def)
qed

theorem filters_at_startup_witness:
  "let d = scripted_driver (\<lambda>_ _ _. None); argv = [''--filter-config'', ''missing'']
   in dual_writer_main example_host example_yaml d argv io_start = (ExitFailure, io_start) \<and>
      (\<exists>lv s2. sstable_loader_main example_host example_yaml d argv io_start = (Serving lv, s2) \<and>
         ld_blacklists (lv_loader lv) = (\<lambda>_. False))"
proof -
  let ?d = "scripted_driver (\<lambda>_ _ _. None) :: nat driver" and ?argv = "[''--filter-config'', ''missing'']"
  let ?wargs = "default_writer_args\<lparr>wa_filter_config_path := ''missing''\<rparr>"
  let ?largs = "default_loader_args\<lparr>la_filter_config_path := ''missing''\<rparr>"
  have args: "parse_writer_args ?argv = Some ?wargs" "parse_loader_args ?argv = Some ?largs"
    by (simp_all add: parse_writer_args_def parse_loader_args_def)
  obtain wc conns s1 where w: "dual_writer_from_yaml example_host example_yaml (wa_config_path ?wargs) = Inr wc"
    "connect_clusters ?d (dwc_source wc) (dwc_target wc) io_start = (Inr conns, s1)"
    by (simp add: default_writer_args_def dual_writer_from_yaml_def dw_parse_filter_config_def example_startup_simps)
  obtain lc conns' s2 where l: "sstable_loader_from_yaml example_host example_yaml (la_config_path ?largs) = Inr lc"
    "connect_clusters ?d (slc_source lc) (slc_target lc) io_start = (Inr conns', s2)"
    by (simp add: default_loader_args_def sstable_loader_from_yaml_def parse_loader_config_def example_startup_simps)
  have missing: "dw_load_filter_config example_host example_yaml ''missing'' =
      Inl (LoadSync (ConfigError ''Config file not found: missing''))"
    "ss_load_filter_config example_host example_yaml ''missing'' =
      Inl (LoadSync (ConfigError ''Config file not found: missing''))"
    by (simp_all add: dw_load_filter_config_def ss_load_filter_config_def load_yaml_root_def example_host_def)
  show ?thesis
    using filters_at_startup [OF args(1) w args(2) l] missing by (auto simp: default_loader_args_def)
qed

end
