(* ===== verification/Service_Api.thy ===== *)
theory Service_Api
  imports Dual_Writer Sstable_Loader Dual_Reader
begin

text \<open>
  The HTTP endpoints of the three services (\<open>api.cpp\<close> of each, and \<open>health.cpp\<close> of the dual
  writer). A request is answered by the handler that \<open>start_api_server\<close> registers for its
  method and path; \<open>NoHandler\<close> stands for the paths that are left to the HTTP library.

  nlohmann's JSON library is a parameter: \<open>json_doc\<close> extends the parsing functions that the
  loader uses by those that build documents and read typed fields. What the proofs use of it is
  stated by \<open>json_laws\<close>. A handler whose \<open>dump()\<close> throws (text that is not UTF-8) is
  \<open>HandlerThrows\<close>. \<open>serialize\<close> is the text exposition of the prometheus client. A response with
  status \<^term>\<open>None\<close> leaves the status to the library, which answers 200.
\<close>

section \<open>Definitions\<close>

subsection \<open>JSON documents\<close>

record 'j json_doc = "'j json_api" +
  jd_null :: 'j
  jd_is_object :: "'j \<Rightarrow> bool"
  jd_put :: "'j \<Rightarrow> string \<Rightarrow> 'j \<Rightarrow> 'j"
  jd_string :: "string \<Rightarrow> 'j"
  jd_uint :: "u64 \<Rightarrow> 'j"
  jd_real :: "real \<Rightarrow> 'j"
  jd_bool :: "bool \<Rightarrow> 'j"
  jd_array :: "'j list \<Rightarrow> 'j"
  jd_strings :: "(string \<times> string) list \<Rightarrow> 'j"
  jd_parse_error :: "string \<Rightarrow> string"
  jd_value_u64 :: "'j \<Rightarrow> string \<Rightarrow> u64 \<Rightarrow> string + u64"
  jd_value_u32 :: "'j \<Rightarrow> string \<Rightarrow> u32 \<Rightarrow> string + u32"
  jd_value_real :: "'j \<Rightarrow> string \<Rightarrow> real \<Rightarrow> string + real"
  jd_value_bool :: "'j \<Rightarrow> string \<Rightarrow> bool \<Rightarrow> string + bool"

text \<open>\<open>body[k] = v\<close> for a list of keys, and \<open>body[sec][k] = v\<close>, which creates the section.\<close>

definition put_fields :: "('j, 'm) json_doc_scheme \<Rightarrow> (string \<times> 'j) list \<Rightarrow> 'j \<Rightarrow> 'j" where
  "put_fields js kvs body = fold (\<lambda>(k, v) b. jd_put js b k v) kvs body"

definition put_in :: "('j, 'm) json_doc_scheme \<Rightarrow> string \<Rightarrow> string \<times> 'j \<Rightarrow> 'j \<Rightarrow> 'j" where
  "put_in js sec = (\<lambda>(k, v) body.
     jd_put js body sec
       (jd_put js (if j_contains js body sec then j_at js body sec else jd_null js) k v))"

definition put_section :: "('j, 'm) json_doc_scheme \<Rightarrow> string \<Rightarrow> (string \<times> 'j) list \<Rightarrow> 'j \<Rightarrow> 'j" where
  "put_section js sec kvs body = fold (put_in js sec) kvs body"

subsection \<open>Responses\<close>

datatype http_request = GET string | POST string

record http_response =
  hr_status :: "int option"
  hr_content_type :: string
  hr_body :: string

datatype http_answer = Response http_response | HandlerThrows | NoHandler

definition json_response :: "('j, 'm) json_doc_scheme \<Rightarrow> int option \<Rightarrow> 'j \<Rightarrow> http_answer" where
  "json_response js status body =
     (case j_dump js body of
        None \<Rightarrow> HandlerThrows
      | Some t \<Rightarrow> Response \<lparr>hr_status = status, hr_content_type = ''application/json'', hr_body = t\<rparr>)"

definition metrics_endpoint :: "(metrics_registry \<Rightarrow> string) \<Rightarrow> metrics_registry option \<Rightarrow> http_answer" where
  "metrics_endpoint serialize mtr =
     Response (case mtr of
       Some m \<Rightarrow> \<lparr>hr_status = None, hr_content_type = ''text/plain; version=0.0.4'', hr_body = serialize m\<rparr>
     | None \<Rightarrow> \<lparr>hr_status = None, hr_content_type = ''text/plain'',
                hr_body = ''# no metrics'' @ [CHR 0x0A]\<rparr>)"

definition probe ::
  "'w driver \<Rightarrow> scylla_connection option \<Rightarrow> 'w io \<Rightarrow> bool \<times> 'w io" where
  "probe d conn s = (case conn of None \<Rightarrow> (False, s) | Some c \<Rightarrow> conn_ping d c s)"

definition health_body :: "('j, 'm) json_doc_scheme \<Rightarrow> string \<Rightarrow> bool \<Rightarrow> bool \<Rightarrow> 'j" where
  "health_body js service src_up tgt_up =
     put_fields js
       [(''status'', jd_string js (if src_up \<and> tgt_up then ''healthy'' else ''unhealthy'')),
        (''service'', jd_string js service),
        (''source'', jd_string js (if src_up then ''connected'' else ''disconnected'')),
        (''target'', jd_string js (if tgt_up then ''connected'' else ''disconnected''))]
       (jd_null js)"

subsection \<open>dual-writer\<close>

definition check_source_health :: "'w driver \<Rightarrow> scylla_connection option \<Rightarrow> 'w io \<Rightarrow> bool \<times> 'w io" where
  "check_source_health d conn s =
     (case conn of None \<Rightarrow> (False, s) | Some c \<Rightarrow> let (ok, s') = conn_ping d c s in (ok, s'))"

definition check_target_health :: "'w driver \<Rightarrow> scylla_connection option \<Rightarrow> 'w io \<Rightarrow> bool \<times> 'w io" where
  "check_target_health d conn s =
     (case conn of None \<Rightarrow> (False, s) | Some c \<Rightarrow> let (ok, s') = conn_ping d c s in (ok, s'))"

definition writer_health ::
  "('j, 'm) json_doc_scheme \<Rightarrow> 'w driver \<Rightarrow> scylla_connection option \<Rightarrow> scylla_connection option
   \<Rightarrow> 'w io \<Rightarrow> http_answer \<times> 'w io" where
  "writer_health js d source target s =
     (let (src_up, s1) = probe d source s;
          (tgt_up, s2) = probe d target s1
      in (json_response js (Some (if src_up \<and> tgt_up then 200 else 503))
            (health_body js ''dual-writer'' src_up tgt_up), s2))"

definition writer_status_body ::
  "('j, 'm) json_doc_scheme \<Rightarrow> dual_writer option \<Rightarrow> dw_governor option \<Rightarrow> 'j" where
  "writer_status_body js writer flt =
     (let body = put_fields js [(''service'', jd_string js ''dual-writer''),
                                (''status'', jd_string js ''running'')] (jd_null js);
          body1 =
            (case writer of
               None \<Rightarrow> body
             | Some w \<Rightarrow>
                 let stats = get_stats w in
                 put_section js ''writer''
                   [(''total_writes'', jd_uint js (total_writes stats)),
                    (''successful_writes'', jd_uint js (successful_writes stats)),
                    (''failed_writes'', jd_uint js (failed_writes stats)),
                    (''retried_writes'', jd_uint js (retried_writes stats)),
                    (''filtered_writes'', jd_uint js (filtered_writes stats)),
                    (''abandoned_writes'', jd_uint js (abandoned_writes stats)),
                    (''pending_retries'', jd_uint js (pending_retries stats))] body)
      in case flt of
           None \<Rightarrow> body1
         | Some g \<Rightarrow>
             put_section js ''filter''
               [(''enabled'', jd_bool js (dw_is_enabled g)),
                (''tables_skipped'', jd_uint js (dw_tables_skipped (dw_gov_stats g))),
                (''tenants_skipped'', jd_uint js (dw_tenants_skipped (dw_gov_stats g))),
                (''rows_allowed'', jd_uint js (dw_rows_allowed (dw_gov_stats g)))] body1)"

definition writer_api ::
  "('j, 'm) json_doc_scheme \<Rightarrow> (metrics_registry \<Rightarrow> string) \<Rightarrow> 'w driver \<Rightarrow> dual_writer option
   \<Rightarrow> scylla_connection option \<Rightarrow> scylla_connection option \<Rightarrow> dw_governor option
   \<Rightarrow> metrics_registry option \<Rightarrow> http_request \<Rightarrow> 'w io \<Rightarrow> http_answer \<times> 'w io" where
  "writer_api js serialize d writer source target flt mtr req s =
     (if req = GET ''/health'' then writer_health js d source target s
      else if req = GET ''/status'' then (json_response js None (writer_status_body js writer flt), s)
      else if req = GET ''/metrics'' then (metrics_endpoint serialize mtr, s)
      else (NoHandler, s))"

subsection \<open>sstable-loader\<close>

definition loader_health ::
  "('j, 'm) json_doc_scheme \<Rightarrow> 'w driver \<Rightarrow> scylla_connection option \<Rightarrow> scylla_connection option
   \<Rightarrow> 'w io \<Rightarrow> http_answer \<times> 'w io" where
  "loader_health js d source target s =
     (let (src_up, s1) = probe d source s;
          (tgt_up, s2) = probe d target s1
      in (json_response js (Some (if src_up \<and> tgt_up then 200 else 503))
            (health_body js ''sstable-loader'' src_up tgt_up), s2))"

definition migration_fields :: "('j, 'm) json_doc_scheme \<Rightarrow> migration_stats \<Rightarrow> (string \<times> 'j) list" where
  "migration_fields js stats =
     [(''total_rows'', jd_uint js (ms_total_rows stats)),
      (''migrated_rows'', jd_uint js (ms_migrated_rows stats)),
      (''failed_rows'', jd_uint js (ms_failed_rows stats)),
      (''filtered_rows'', jd_uint js (ms_filtered_rows stats)),
      (''tables_completed'', jd_uint js (ms_tables_completed stats)),
      (''tables_total'', jd_uint js (ms_tables_total stats)),
      (''tables_skipped'', jd_uint js (ms_tables_skipped stats)),
      (''progress_percent'', jd_real js (ms_progress_percent stats)),
      (''is_running'', jd_bool js (ms_is_running stats)),
      (''is_paused'', jd_bool js (ms_is_paused stats))]"

definition loader_status_body ::
  "('j, 'm) json_doc_scheme \<Rightarrow> migration_stats \<Rightarrow> ss_governor option \<Rightarrow> 'j" where
  "loader_status_body js stats flt =
     (let body = put_section js ''migration'' (migration_fields js stats)
                   (put_fields js [(''status'', jd_string js ''ok'')] (jd_null js))
      in case flt of
           None \<Rightarrow> body
         | Some g \<Rightarrow>
             put_section js ''filter''
               [(''enabled'', jd_bool js (ss_is_enabled g)),
                (''tables_skipped'', jd_uint js (ss_tables_skipped (ss_gov_stats g))),
                (''rows_skipped'', jd_uint js (ss_rows_skipped (ss_gov_stats g))),
                (''rows_allowed'', jd_uint js (ss_rows_allowed (ss_gov_stats g)))] body)"

definition success_body :: "('j, 'm) json_doc_scheme \<Rightarrow> string \<Rightarrow> 'j" where
  "success_body js message =
     put_fields js [(''status'', jd_string js ''success''), (''message'', jd_string js message)] (jd_null js)"

definition loader_api ::
  "('j, 'm) json_doc_scheme \<Rightarrow> (metrics_registry \<Rightarrow> string) \<Rightarrow> (real \<Rightarrow> real) \<Rightarrow> 'w driver
   \<Rightarrow> scylla_connection option \<Rightarrow> scylla_connection option \<Rightarrow> ss_governor option
   \<Rightarrow> metrics_registry option \<Rightarrow> http_request \<Rightarrow> sstable_loader \<Rightarrow> 'w io
   \<Rightarrow> http_answer \<times> sstable_loader \<times> 'w io" where
  "loader_api js serialize fl d source target flt mtr req l s =
     (if req = GET ''/health'' then let (a, s') = loader_health js d source target s in (a, l, s')
      else if req = GET ''/status''
      then (json_response js None (loader_status_body js (loader_get_stats fl l) flt), l, s)
      else if req = GET ''/metrics'' then (metrics_endpoint serialize mtr, l, s)
      else if req = POST ''/stop''
      then (json_response js None (success_body js ''Migration stop signal sent''), loader_stop l, s)
      else if req = POST ''/pause''
      then (json_response js None (success_body js ''Migration paused''), loader_pause l, s)
      else if req = POST ''/resume''
      then (json_response js None (success_body js ''Migration resumed''), loader_resume l, s)
      else (NoHandler, l, s))"

subsection \<open>dual-reader\<close>

definition discrepancy_to_json :: "('j, 'm) json_doc_scheme \<Rightarrow> discrepancy \<Rightarrow> 'j" where
  "discrepancy_to_json js disc =
     put_fields js
       [(''id'', jd_string js (disc_id disc)),
        (''table'', jd_string js (disc_table disc)),
        (''type'', jd_string js (discrepancy_type_to_string (disc_type disc))),
        (''source_value'', jd_string js (case disc_source_value disc of None \<Rightarrow> [] | Some v \<Rightarrow> v)),
        (''target_value'', jd_string js (case disc_target_value disc of None \<Rightarrow> [] | Some v \<Rightarrow> v)),
        (''key'', jd_strings js (disc_key disc))] (jd_null js)"

definition validation_result_to_json :: "('j, 'm) json_doc_scheme \<Rightarrow> validation_result \<Rightarrow> 'j" where
  "validation_result_to_json js r =
     put_fields js
       [(''table'', jd_string js (vr_table r)),
        (''rows_checked'', jd_uint js (vr_rows_checked r)),
        (''rows_matched'', jd_uint js (vr_rows_matched r)),
        (''consistency_percentage'', jd_real js (vr_consistency_percentage r)),
        (''source_only'', jd_bool js (vr_source_only r)),
        (''discrepancies_count'', jd_uint js (of_nat (length (vr_discrepancies r))))] (jd_null js)"

definition reader_health :: "('j, 'm) json_doc_scheme \<Rightarrow> http_answer" where
  "reader_health js =
     json_response js None
       (put_fields js [(''status'', jd_string js ''healthy''), (''service'', jd_string js ''dual-reader'')]
          (jd_null js))"

definition reader_status :: "('j, 'm) json_doc_scheme \<Rightarrow> dual_reader \<Rightarrow> http_answer" where
  "reader_status js r =
     json_response js None
       (put_fields js
          [(''service'', jd_string js ''dual-reader''), (''status'', jd_string js ''running''),
           (''total_discrepancies'', jd_uint js (of_nat (length (get_discrepancies r)))),
           (''filter_enabled'', jd_bool js (filter_enabled r))] (jd_null js))"

definition discrepancies_endpoint :: "('j, 'm) json_doc_scheme \<Rightarrow> dual_reader \<Rightarrow> http_answer" where
  "discrepancies_endpoint js r =
     (let discs = get_discrepancies r
      in json_response js None
           (put_fields js
              [(''total'', jd_uint js (of_nat (length discs))),
               (''discrepancies'', jd_array js (map (discrepancy_to_json js) discs))] (jd_null js)))"

text \<open>\<open>filter_stats()\<close> is only called when the filter is enabled, so it is present.\<close>

definition filter_stats_endpoint :: "('j, 'm) json_doc_scheme \<Rightarrow> dual_reader \<Rightarrow> http_answer" where
  "filter_stats_endpoint js r =
     (let body = put_fields js [(''filter_enabled'', jd_bool js (filter_enabled r))] (jd_null js)
      in json_response js None
           (case reader_filter_stats r of
              Some stats \<Rightarrow>
                if filter_enabled r
                then put_section js ''stats''
                       [(''dual_reads'', jd_uint js (dr_dual_reads stats)),
                        (''source_only_reads'', jd_uint js (dr_source_only_reads stats)),
                        (''tables_filtered'', jd_uint js (dr_tables_filtered stats)),
                        (''domains_filtered'', jd_uint js (dr_domains_filtered stats))] body
                else body
            | None \<Rightarrow> body))"

definition reader_api ::
  "('j, 'm) json_doc_scheme \<Rightarrow> (metrics_registry \<Rightarrow> string) \<Rightarrow> metrics_registry option \<Rightarrow> http_request
   \<Rightarrow> dual_reader \<Rightarrow> http_answer \<times> dual_reader" where
  "reader_api js serialize mtr req r =
     (if req = GET ''/health'' then (reader_health js, r)
      else if req = GET ''/status'' then (reader_status js r, r)
      else if req = GET ''/metrics'' then (metrics_endpoint serialize mtr, r)
      else if req = GET ''/discrepancies'' then (discrepancies_endpoint js r, r)
      else if req = POST ''/discrepancies/clear''
      then (json_response js None
              (put_fields js [(''success'', jd_bool js True),
                              (''message'', jd_string js ''Discrepancies cleared'')] (jd_null js)),
            clear_discrepancies r)
      else if req = GET ''/filter/stats'' then (filter_stats_endpoint js r, r)
      else (NoHandler, r))"

section \<open>Documented behaviour of the JSON library\<close>

text \<open>\<open>operator[]\<close> turns null into an object and adds or replaces one key; \<open>value(k, d)\<close> on an
  object gives the default for a missing key and the stored value, converted to the requested
  type, for a present one.\<close>

definition jd_writable :: "('j, 'm) json_doc_scheme \<Rightarrow> 'j \<Rightarrow> bool" where
  "jd_writable js j \<longleftrightarrow> j = jd_null js \<or> jd_is_object js j"

definition json_laws :: "('j, 'm) json_doc_scheme \<Rightarrow> bool" where
  "json_laws js \<longleftrightarrow>
     (\<forall>k. \<not> j_contains js (jd_null js) k) \<and>
     (\<forall>j k v. jd_writable js j \<longrightarrow> jd_is_object js (jd_put js j k v)) \<and>
     (\<forall>j k v k'. jd_writable js j \<longrightarrow>
        j_contains js (jd_put js j k v) k' = (k' = k \<or> j_contains js j k')) \<and>
     (\<forall>j k v k'. jd_writable js j \<longrightarrow> j_contains js (jd_put js j k v) k' \<longrightarrow>
        j_at js (jd_put js j k v) k' = (if k' = k then v else j_at js j k')) \<and>
     (\<forall>j k dflt. jd_is_object js j \<longrightarrow> \<not> j_contains js j k \<longrightarrow>
        jd_value_u64 js j k dflt = Inr dflt) \<and>
     (\<forall>j k dflt. jd_is_object js j \<longrightarrow> \<not> j_contains js j k \<longrightarrow>
        jd_value_real js j k dflt = Inr dflt) \<and>
     (\<forall>j k n dflt. jd_is_object js j \<longrightarrow> j_contains js j k \<longrightarrow> j_at js j k = jd_uint js n \<longrightarrow>
        jd_value_u64 js j k dflt = Inr n) \<and>
     (\<forall>j k n dflt. jd_is_object js j \<longrightarrow> j_contains js j k \<longrightarrow> j_at js j k = jd_uint js n \<longrightarrow>
        jd_value_u32 js j k dflt = Inr (ucast n)) \<and>
     (\<forall>j k x dflt. jd_is_object js j \<longrightarrow> j_contains js j k \<longrightarrow> j_at js j k = jd_real js x \<longrightarrow>
        jd_value_real js j k dflt = Inr x) \<and>
     (\<forall>j k b dflt. jd_is_object js j \<longrightarrow> j_contains js j k \<longrightarrow> j_at js j k = jd_bool js b \<longrightarrow>
        jd_value_bool js j k dflt = Inr b)"

section \<open>Lemmas\<close>

lemma json_null:
  assumes "json_laws js"
  shows "\<not> j_contains js (jd_null js) k" "jd_writable js (jd_null js)"
  using assms by (simp_all add: json_laws_def jd_writable_def)

lemma json_put:
  assumes "json_laws js" "jd_writable js j"
  shows "jd_is_object js (jd_put js j k v)" "jd_writable js (jd_put js j k v)"
    "j_contains js (jd_put js j k v) k' = (k' = k \<or> j_contains js j k')"
    "j_at js (jd_put js j k v) k = v"
    "k' \<noteq> k \<Longrightarrow> j_contains js j k' \<Longrightarrow> j_at js (jd_put js j k v) k' = j_at js j k'"
proof -
  show obj: "jd_is_object js (jd_put js j k v)"
    using assms by (simp add: json_laws_def)
  then show "jd_writable js (jd_put js j k v)"
    by (simp add: jd_writable_def)
qed (use assms in \<open>simp_all add: json_laws_def\<close>)

lemma put_fields_props:
  assumes "json_laws js" "jd_writable js j"
  shows "jd_writable js (put_fields js kvs j)"
    "kvs \<noteq> [] \<Longrightarrow> jd_is_object js (put_fields js kvs j)"
    "j_contains js (put_fields js kvs j) k = (k \<in> fst ` set kvs \<or> j_contains js j k)"
    "distinct (map fst kvs) \<Longrightarrow> map_of kvs k = Some v \<Longrightarrow> j_at js (put_fields js kvs j) k = v"
    "k \<notin> fst ` set kvs \<Longrightarrow> j_contains js j k \<Longrightarrow> j_at js (put_fields js kvs j) k = j_at js j k"
proof -
  have "jd_writable js (put_fields js kvs j) \<and> (kvs \<noteq> [] \<longrightarrow> jd_is_object js (put_fields js kvs j)) \<and>
     j_contains js (put_fields js kvs j) k = (k \<in> fst ` set kvs \<or> j_contains js j k) \<and>
     (distinct (map fst kvs) \<longrightarrow> map_of kvs k = Some v \<longrightarrow> j_at js (put_fields js kvs j) k = v) \<and>
     (k \<notin> fst ` set kvs \<longrightarrow> j_contains js j k \<longrightarrow> j_at js (put_fields js kvs j) k = j_at js j k)"
    using assms(2)
  proof (induction kvs rule: rev_induct)
    case (snoc kv kvs)
    have "put_fields js (kvs @ [kv]) j = jd_put js (put_fields js kvs j) (fst kv) (snd kv)"
      by (simp add: put_fields_def case_prod_beta)
    with snoc show ?case
      by (auto simp: json_put [OF assms(1)] map_add_def split: option.splits if_splits)
         (metis fst_conv image_eqI map_of_SomeD)+
  qed (simp add: put_fields_def)
  then show "jd_writable js (put_fields js kvs j)"
    "kvs \<noteq> [] \<Longrightarrow> jd_is_object js (put_fields js kvs j)"
    "j_contains js (put_fields js kvs j) k = (k \<in> fst ` set kvs \<or> j_contains js j k)"
    "distinct (map fst kvs) \<Longrightarrow> map_of kvs k = Some v \<Longrightarrow> j_at js (put_fields js kvs j) k = v"
    "k \<notin> fst ` set kvs \<Longrightarrow> j_contains js j k \<Longrightarrow> j_at js (put_fields js kvs j) k = j_at js j k"
    by blast+
qed

definition section_of :: "('j, 'm) json_doc_scheme \<Rightarrow> string \<Rightarrow> 'j \<Rightarrow> 'j" where
  "section_of js sec body = (if j_contains js body sec then j_at js body sec else jd_null js)"

lemma put_section_props:
  assumes "json_laws js" "jd_writable js body" "jd_writable js (section_of js sec body)"
  shows "jd_writable js (put_section js sec kvs body)"
    "section_of js sec (put_section js sec kvs body) = put_fields js kvs (section_of js sec body)"
    "j_contains js (put_section js sec kvs body) k = (k = sec \<and> kvs \<noteq> [] \<or> j_contains js body k)"
    "k \<noteq> sec \<Longrightarrow> j_contains js body k \<Longrightarrow> j_at js (put_section js sec kvs body) k = j_at js body k"
proof -
  have "jd_writable js (put_section js sec kvs body) \<and>
     section_of js sec (put_section js sec kvs body) = put_fields js kvs (section_of js sec body) \<and>
     j_contains js (put_section js sec kvs body) k = (k = sec \<and> kvs \<noteq> [] \<or> j_contains js body k) \<and>
     (k \<noteq> sec \<longrightarrow> j_contains js body k \<longrightarrow> j_at js (put_section js sec kvs body) k = j_at js body k)"
    using assms(2,3)
  proof (induction kvs arbitrary: body)
    case (Cons kv kvs)
    let ?b = "jd_put js body sec (jd_put js (section_of js sec body) (fst kv) (snd kv))"
    have b: "put_section js sec (kv # kvs) body = put_section js sec kvs ?b"
      by (simp add: put_section_def put_in_def section_of_def case_prod_beta)
    have sec: "section_of js sec ?b = jd_put js (section_of js sec body) (fst kv) (snd kv)"
      using Cons.prems by (simp add: section_of_def json_put [OF assms(1)])
    have "jd_writable js ?b" "jd_writable js (section_of js sec ?b)"
      using Cons.prems unfolding sec by (simp_all add: json_put [OF assms(1)])
    note IH = Cons.IH [OF this]
    show ?case
      unfolding b using IH Cons.prems
      by (auto simp: sec put_fields_def case_prod_beta json_put [OF assms(1)])
  qed (simp add: put_section_def put_fields_def)
  then show "jd_writable js (put_section js sec kvs body)"
    "section_of js sec (put_section js sec kvs body) = put_fields js kvs (section_of js sec body)"
    "j_contains js (put_section js sec kvs body) k = (k = sec \<and> kvs \<noteq> [] \<or> j_contains js body k)"
    "k \<noteq> sec \<Longrightarrow> j_contains js body k \<Longrightarrow> j_at js (put_section js sec kvs body) k = j_at js body k"
    by blast+
qed

text \<open>The migration section of the loader's status document.\<close>

lemma loader_status_section:
  assumes "json_laws js"
  shows "j_contains js (loader_status_body js stats flt) ''migration''"
    "j_at js (loader_status_body js stats flt) ''migration'' =
       put_fields js (migration_fields js stats) (jd_null js)"
proof -
  let ?b0 = "put_fields js [(''status'', jd_string js ''ok'')] (jd_null js)"
  let ?b1 = "put_section js ''migration'' (migration_fields js stats) ?b0"
  have b0: "jd_writable js ?b0" "section_of js ''migration'' ?b0 = jd_null js"
    using assms by (simp_all add: section_of_def put_fields_props json_null)
  note p = put_section_props [where sec = "''migration''" and kvs = "migration_fields js stats", OF assms b0(1),
      unfolded b0(2), OF json_null(2) [OF assms]]
  have b1: "j_contains js ?b1 ''migration''"
    "j_at js ?b1 ''migration'' = put_fields js (migration_fields js stats) (jd_null js)"
    "jd_writable js ?b1" "\<not> j_contains js ?b1 ''filter''"
    using p(1,2) p(3) [of "''migration''"] p(3) [of "''filter''"] assms
    by (simp_all add: section_of_def migration_fields_def put_fields_props json_null)
  then have sec: "jd_writable js (section_of js ''filter'' ?b1)"
    using assms by (simp add: section_of_def json_null)
  note q = put_section_props(3,4) [OF assms b1(3) sec, where k = "''migration''"]
  show "j_contains js (loader_status_body js stats flt) ''migration''"
    "j_at js (loader_status_body js stats flt) ''migration'' =
       put_fields js (migration_fields js stats) (jd_null js)"
    using b1(1,2) q by (simp_all add: loader_status_body_def Let_def split: option.split)
qed

lemma health_check_probes:
  "health_check d w s =
     (let (src_up, s1) = probe d (Some (dw_source w)) s; (tgt_up, s2) = probe d (Some (dw_target w)) s1
      in (src_up \<and> tgt_up, s2))"
  by (simp add: health_check_def probe_def)

lemma check_health_probes: "check_source_health d c s = probe d c s" "check_target_health d c s = probe d c s"
  by (simp_all add: check_source_health_def check_target_health_def probe_def split: option.split)

text \<open>The probe is the only statement an endpoint sends.\<close>

lemma io_calls_probe:
  "io_calls (snd (probe d c s)) =
     io_calls s @ (case c of None \<Rightarrow> [] | Some x \<Rightarrow> exec_calls x ''SELECT now() FROM system.local'')"
  by (auto simp: probe_def conn_ping_execute io_calls_execute split: option.split)

text \<open>The requests that arrive between two polls of a running migration are one entry of its inbox,
  so the properties of migrations, which hold for every inbox, hold for every use of the API.\<close>

definition controls_of :: "http_request \<Rightarrow> control list" where
  "controls_of req =
     (if req = POST ''/stop'' then [CtlStop] else if req = POST ''/pause'' then [CtlPause]
      else if req = POST ''/resume'' then [CtlResume] else [])"

lemma loader_api_controls:
  "fst (snd (loader_api js serialize fl d source target flt mtr req l s)) = fold apply_control (controls_of req) l"
  by (simp add: loader_api_def controls_of_def case_prod_beta)

lemma loader_requests_polled:
  "fst (fold (\<lambda>req (l, s). snd (loader_api js serialize fl d source target flt mtr req l s)) reqs (l, s)) =
   snd (poll (concat (map controls_of reqs) # box) l)"
proof -
  have "fst (fold (\<lambda>req (l, s). snd (loader_api js serialize fl d source target flt mtr req l s)) reqs (l, s)) =
      fold apply_control (concat (map controls_of reqs)) l"
  proof (induction reqs arbitrary: l s)
    case (Cons req reqs)
    obtain l' s' where "snd (loader_api js serialize fl d source target flt mtr req l s) = (l', s')" by fastforce
    moreover from this have "l' = fold apply_control (controls_of req) l"
      by (metis fst_conv loader_api_controls)
    ultimately show ?case using Cons.IH by simp
  qed simp
  then show ?thesis by simp
qed

lemma reader_clear_forgets:
  "get_discrepancies (snd (reader_api js serialize mtr (POST ''/discrepancies/clear'') r)) = []"
  by (simp add: reader_api_def clear_discrepancies_def get_discrepancies_def)

text \<open>The reader's health endpoint answers the same whatever the state of the clusters.\<close>

lemma reader_health_ignores_clusters:
  "reader_api js serialize mtr (GET ''/health'') r = (reader_health js, r)"
  by (simp add: reader_api_def)

section \<open>Endpoints\<close>

text \<open>The health endpoints of the dual writer and of the loader probe both clusters, also
  when the first probe fails, and answer 200 exactly when both statements succeed and 503
  otherwise; the body names the cluster that is down.\<close>

lemma health_endpoints:
  "let q = ''SELECT now() FROM system.local'';
       (r1, s1) = conn_execute d source q s;
       (r2, s2) = conn_execute d target q s1;
       answer = (\<lambda>service. json_response js (Some (if \<not> isl r1 \<and> \<not> isl r2 then 200 else 503))
                  (health_body js service (\<not> isl r1) (\<not> isl r2)))
   in writer_api js serialize d w (Some source) (Some target) flt mtr (GET ''/health'') s =
        (answer ''dual-writer'', s2) \<and>
      loader_api js serialize fl d (Some source) (Some target) flt' mtr (GET ''/health'') l s =
        (answer ''sstable-loader'', l, s2) \<and>
      io_calls s2 = io_calls s @ exec_calls source q @ exec_calls target q"
  by (simp add: writer_api_def loader_api_def writer_health_def loader_health_def probe_def
      conn_ping_execute case_prod_beta Let_def io_calls_execute)

text \<open>What HTTP requests can do to the loader: only \<open>/stop\<close>, \<open>/pause\<close> and \<open>/resume\<close> change it,
  each exactly as the control call of the same name that a running migration polls, and no
  request but \<open>/health\<close> contacts a cluster, which sends nothing but the probe.\<close>

lemma loader_api_effect:
  assumes "loader_api js serialize fl d source target flt mtr req l s = (answer, l', s')"
  shows "l' = (if req = POST ''/stop'' then apply_control CtlStop l
               else if req = POST ''/pause'' then apply_control CtlPause l
               else if req = POST ''/resume'' then apply_control CtlResume l else l) \<and>
    io_calls s' = io_calls s @
      (if req = GET ''/health''
       then concat (map (\<lambda>c. case c of None \<Rightarrow> [] | Some x \<Rightarrow> exec_calls x ''SELECT now() FROM system.local'')
              [source, target])
       else [])"
  using assms io_calls_probe [of d target "snd (probe d source s)"] io_calls_probe [of d source s]
  by (auto simp: loader_api_def loader_health_def Let_def case_prod_beta split: if_splits)

definition example_doc :: "unit json_doc" where
  "example_doc =
     \<lparr>j_parse = (\<lambda>_. Some ()), j_contains = (\<lambda>_ _. False), j_at = (\<lambda>_ _. ()), j_is_string = (\<lambda>_. False),
      j_get_string = (\<lambda>_. []), j_dump = (\<lambda>_. Some ''null''), jd_null = (), jd_is_object = (\<lambda>_. False),
      jd_put = (\<lambda>_ _ _. ()), jd_string = (\<lambda>_. ()), jd_uint = (\<lambda>_. ()), jd_real = (\<lambda>_. ()),
      jd_bool = (\<lambda>_. ()), jd_array = (\<lambda>_. ()), jd_strings = (\<lambda>_. ()), jd_parse_error = (\<lambda>_. []),
      jd_value_u64 = (\<lambda>_ _. Inr), jd_value_u32 = (\<lambda>_ _. Inr), jd_value_real = (\<lambda>_ _. Inr),
      jd_value_bool = (\<lambda>_ _. Inr)\<rparr>"

end
