(* ===== verification/Fair_Retry.thy ===== *)
theory Fair_Retry
  imports Dual_Writer_Retry
begin

text \<open>
  Fair runs of the dual writer: infinite sequences of client writes and steps of the retry
  thread (\<open>retry_failed_writes_loop\<close> in \<open>services/dual-writer/src/writer.cpp\<close>) in which the
  thread is scheduled again and again. \<open>thread_next\<close> is the next action of the thread as a
  function. Under fairness what \<open>Dual_Writer_Retry\<close> shows to be possible does happen: every
  queued write is settled and a stopped thread ends.
\<close>

section \<open>Definitions\<close>

text \<open>What the retry thread does next: one slice of its sleep, the snapshot, one entry of the
  snapshot, or the mutations.\<close>

definition thread_next :: "'w driver \<Rightarrow> 'w writer_system \<Rightarrow> 'w writer_system" where
  "thread_next d y =
     (case sys_phase y of
        Sleeping elapsed \<Rightarrow>
          if sys_stop y then y\<lparr>sys_phase := Stopped\<rparr>
          else if elapsed < retry_delay_ms (dwc_writer (dw_config (sys_writer y)))
          then y\<lparr>sys_phase := Sleeping (elapsed + 100)\<rparr>
          else if dw_failed (sys_writer y) = [] then y\<lparr>sys_phase := Sleeping 0\<rparr>
          else y\<lparr>sys_phase := Working (dw_failed (sys_writer y)) ([], [])\<rparr>
      | Working [] muts \<Rightarrow>
          y\<lparr>sys_writer := (sys_writer y)\<lparr>dw_failed := retry_apply muts (dw_failed (sys_writer y))\<rparr>,
            sys_phase := Sleeping 0\<rparr>
      | Working ((i, fw) # rest) muts \<Rightarrow>
          (let (out, w', s') = retry_one d fw (sys_writer y) (sys_io y)
           in y\<lparr>sys_writer := w', sys_io := s', sys_phase := Working rest (note_outcome i out muts),
                sys_events := sys_events y @ [Tried i out]\<rparr>)
      | Stopped \<Rightarrow> y)"

text \<open>The rest of the process (HTTP requests, hot reload) may change the driver's world, the filter
  and the metrics, but leaves the queue alone.\<close>

definition same_queue :: "'w writer_system \<Rightarrow> 'w writer_system \<Rightarrow> bool" where
  "same_queue y y' \<longleftrightarrow>
     sys_phase y' = sys_phase y \<and> sys_events y' = sys_events y \<and> (sys_stop y \<longrightarrow> sys_stop y') \<and>
     dw_failed (sys_writer y') = dw_failed (sys_writer y) \<and> dw_config (sys_writer y') = dw_config (sys_writer y)"

definition system_moves :: "'w driver \<Rightarrow> 'w writer_system \<Rightarrow> 'w writer_system \<Rightarrow> bool" where
  "system_moves d y y' \<longleftrightarrow> writer_step d y y' \<or> same_queue y y'"

text \<open>An infinite run, in which the thread always moves again.\<close>

definition fair_run :: "'w driver \<Rightarrow> (nat \<Rightarrow> 'w writer_system) \<Rightarrow> bool" where
  "fair_run d run \<longleftrightarrow>
     (\<forall>n. system_moves d (run n) (run (Suc n))) \<and>
     (\<forall>n. \<exists>m\<ge>n. run (Suc m) = thread_next d (run m))"

text \<open>The retry thread alone, without client writes.\<close>

definition thread_run :: "'w driver \<Rightarrow> 'w writer_system \<Rightarrow> nat \<Rightarrow> 'w writer_system" where
  "thread_run d y n = (thread_next d ^^ n) y"

text \<open>The attempts an entry has made, counting those that the current cycle has still to write back.\<close>

definition attempts_made :: "string \<Rightarrow> 'w writer_system \<Rightarrow> nat" where
  "attempts_made i y =
     (case map_of (snd (phase_mutations (sys_phase y))) i of
        Some fw \<Rightarrow> unat (fw_attempts fw)
      | None \<Rightarrow> (case map_of (dw_failed (sys_writer y)) i of
                   Some fw \<Rightarrow> unat (fw_attempts fw) | None \<Rightarrow> 0))"

text \<open>The way to the next attempt at an entry: the rest of the current cycle if the entry is not
  in it any more, the sleep, and the entries of the snapshot up to it.\<close>

fun stage :: "string \<Rightarrow> retry_phase \<Rightarrow> nat" where
  "stage i (Working todo _) = (if i \<in> set (umap_keys todo) then 0 else 2)"
| "stage i _ = 1"

fun left_in_stage :: "u64 \<Rightarrow> retry_phase \<Rightarrow> nat" where
  "left_in_stage delay (Working todo _) = length todo"
| "left_in_stage delay (Sleeping e) = unat delay - unat e"
| "left_in_stage delay Stopped = 0"

definition retry_order :: "string \<Rightarrow> writer_config \<Rightarrow> ('w writer_system \<times> 'w writer_system) set" where
  "retry_order i cfg =
     measures [\<lambda>y. unat (max_retries cfg) - attempts_made i y, \<lambda>y. stage i (sys_phase y),
       \<lambda>y. left_in_stage (retry_delay_ms cfg) (sys_phase y)]"

section \<open>Lemmas\<close>

subsection \<open>The thread's next action\<close>

lemma thread_next_simps:
  "sys_phase y = Sleeping e \<Longrightarrow> sys_stop y \<Longrightarrow> thread_next d y = y\<lparr>sys_phase := Stopped\<rparr>"
  "sys_phase y = Stopped \<Longrightarrow> thread_next d y = y"
  "sys_phase y = Working [] muts \<Longrightarrow> thread_next d y =
     y\<lparr>sys_writer := (sys_writer y)\<lparr>dw_failed := retry_apply muts (dw_failed (sys_writer y))\<rparr>,
       sys_phase := Sleeping 0\<rparr>"
  "sys_phase y = Working ((i, fw) # rest) muts \<Longrightarrow>
     retry_one d fw (sys_writer y) (sys_io y) = (out, w', s') \<Longrightarrow> thread_next d y =
     y\<lparr>sys_writer := w', sys_io := s', sys_phase := Working rest (note_outcome i out muts),
       sys_events := sys_events y @ [Tried i out]\<rparr>"
  by (simp_all add: thread_next_def)

text \<open>A step of the system is the thread's next action, a client write or a stop request.\<close>

lemma writer_step_kinds [consumes 1, case_names thread client stop]:
  assumes "writer_step d y y'"
  obtains "y' = thread_next d y" "sys_phase y \<noteq> Stopped"
  | env q k r w' s' where "dual_write env d q k (sys_writer y) (sys_io y) = (r, w', s')"
      "y' = y\<lparr>sys_writer := w', sys_io := s',
         sys_events := sys_events y @ write_events env k r (sys_writer y)\<rparr>"
  | "y' = y\<lparr>sys_stop := True\<rparr>"
  using assms
proof (cases rule: writer_step.cases)
  case (take_snapshot e)
  then show ?thesis using that(1) by (simp add: thread_next_def)
qed (use that in \<open>auto simp: thread_next_def\<close>)

lemma thread_next_steps:
  assumes "sys_phase y \<noteq> Stopped"
  shows "writer_step d y (thread_next d y)"
proof (cases "sys_phase y")
  case (Sleeping e)
  then show ?thesis
    using sleep_slice [OF Sleeping] take_snapshot [OF Sleeping] leave_loop [OF Sleeping]
    by (auto simp: thread_next_def)
next
  case (Working todo muts)
  show ?thesis
  proof (cases todo)
    case Nil
    then show ?thesis using apply_mutations [of y muts] Working by (simp add: thread_next_simps)
  next
    case (Cons e rest)
    obtain i fw where e: "e = (i, fw)" by (cases e)
    obtain out w' s' where "retry_one d fw (sys_writer y) (sys_io y) = (out, w', s')" by (metis prod_cases3)
    then show ?thesis
      using retry_entry [of y i fw rest muts d out w' s'] Working Cons e by (simp add: thread_next_simps)
  qed
qed (use assms in simp)

lemma thread_next_stop [simp]: "sys_stop (thread_next d y) = sys_stop y"
  by (simp add: thread_next_def case_prod_beta Let_def split: retry_phase.split list.split)

lemma thread_next_running:
  "\<not> sys_stop y \<Longrightarrow> sys_phase y \<noteq> Stopped \<Longrightarrow> sys_phase (thread_next d y) \<noteq> Stopped"
  by (auto simp: thread_next_def case_prod_beta Let_def split: retry_phase.split list.split)

lemma thread_run_running:
  assumes "\<not> sys_stop y" "sys_phase y \<noteq> Stopped"
  shows "\<not> sys_stop (thread_run d y n) \<and> sys_phase (thread_run d y n) \<noteq> Stopped"
  using assms by (induction n) (simp_all add: thread_run_def thread_next_running)

lemma thread_run_steps:
  assumes "\<not> sys_stop y" "sys_phase y \<noteq> Stopped"
  shows "writer_step d (thread_run d y n) (thread_run d y (Suc n))"
  using thread_run_running [OF assms, of d n] thread_next_steps [of "thread_run d y n" d]
  by (simp add: thread_run_def)

lemma thread_run_fair:
  assumes "\<not> sys_stop y" "sys_phase y \<noteq> Stopped"
  shows "fair_run d (thread_run d y)"
  using thread_run_steps [OF assms]
  by (auto simp: fair_run_def system_moves_def) (simp add: thread_run_def, blast)

subsection \<open>The invariant of a run\<close>

text \<open>Beside the invariant of the retry thread: the entries of a snapshot still to be retried are
  those of the queue, the thread has only ended after a stop request, and the settings stay.\<close>

definition run_inv :: "writer_config \<Rightarrow> 'w writer_system \<Rightarrow> bool" where
  "run_inv cfg y \<longleftrightarrow>
     system_inv y \<and> conserved y \<and> dwc_writer (dw_config (sys_writer y)) = cfg \<and>
     (\<forall>(i, fw) \<in> set (phase_todo (sys_phase y)). map_of (dw_failed (sys_writer y)) i = Some fw) \<and>
     (sys_phase y = Stopped \<longrightarrow> sys_stop y)"

lemma dual_write_keepsD:
  assumes "dual_write env d q k w s = (r, w', s')"
  shows "dw_config w' = dw_config w"
    and "map_of (dw_failed w) i = Some fw \<Longrightarrow> map_of (dw_failed w') i = Some fw"
proof -
  show "dw_config w' = dw_config w" using dual_write_frame(1) [of env d q k w s] assms by simp
  obtain fw' where "dw_failed w' =
      (if source_ok r \<and> \<not> target_ok r \<and> \<not> blacklists w k
       then umap_emplace (generate_id (env_hi env) (env_lo env)) fw' (dw_failed w) else dw_failed w)"
    using dual_write_failed [OF assms] by blast
  then show "map_of (dw_failed w) i = Some fw \<Longrightarrow> map_of (dw_failed w') i = Some fw"
    by (simp add: umap_emplace_def map_add_def)
qed

lemma snapshot_of_queue:
  "system_inv y \<Longrightarrow> (i, fw) \<in> set (dw_failed (sys_writer y)) \<Longrightarrow>
   map_of (dw_failed (sys_writer y)) i = Some fw"
  by (simp add: system_inv_def umap_keys_def)

lemma run_inv_thread:
  assumes "run_inv cfg y" "sys_phase y \<noteq> Stopped"
  shows "run_inv cfg (thread_next d y)"
proof -
  have "system_inv (thread_next d y) \<and> conserved (thread_next d y)"
    using writer_step_keeps [OF thread_next_steps [OF assms(2), of d]] assms(1)
    by (simp add: run_inv_def)
  moreover have "dwc_writer (dw_config (sys_writer (thread_next d y))) = cfg \<and>
      (\<forall>(i, fw) \<in> set (phase_todo (sys_phase (thread_next d y))).
         map_of (dw_failed (sys_writer (thread_next d y))) i = Some fw)"
  proof (cases "sys_phase y")
    case (Sleeping e)
    then show ?thesis
      using assms(1) snapshot_of_queue [of y] by (auto simp: run_inv_def thread_next_def)
  next
    case (Working todo muts)
    show ?thesis
    proof (cases todo)
      case (Cons a rest)
      obtain i fw where a: "a = (i, fw)" by (cases a)
      obtain out w' s' where one: "retry_one d fw (sys_writer y) (sys_io y) = (out, w', s')"
        by (metis prod_cases3)
      show ?thesis
        using assms(1) Working Cons a one retry_one_frameD [OF one]
        by (simp add: run_inv_def thread_next_simps)
    qed (use assms(1) Working in \<open>simp add: run_inv_def thread_next_simps\<close>)
  qed (use assms(2) in simp)
  moreover have "sys_phase (thread_next d y) = Stopped \<longrightarrow> sys_stop (thread_next d y)"
    using thread_next_running [OF _ assms(2), of d] by auto
  ultimately show ?thesis by (simp add: run_inv_def)
qed

lemma run_inv_step:
  assumes "writer_step d y y'" "run_inv cfg y"
  shows "run_inv cfg y'"
  using assms(1)
proof (cases rule: writer_step_kinds)
  case thread
  then show ?thesis using run_inv_thread [OF assms(2)] by simp
next
  case (client env q k r w' s')
  have "system_inv y' \<and> conserved y'"
    using writer_step_keeps [OF assms(1)] assms(2) by (simp add: run_inv_def)
  then show ?thesis
    using assms(2) dual_write_keepsD [OF client(1)] by (auto simp: run_inv_def client(2))
next
  case stop
  have "system_inv y' \<and> conserved y'"
    using writer_step_keeps [OF assms(1)] assms(2) by (simp add: run_inv_def)
  then show ?thesis using assms(2) by (simp add: run_inv_def stop)
qed

lemma same_queue_keeps:
  "same_queue y y' \<Longrightarrow> system_inv y \<and> conserved y \<Longrightarrow> system_inv y' \<and> conserved y'"
  by (simp add: same_queue_def system_inv_def conserved_def pending_ids_def)

lemma run_inv_moves:
  assumes "system_moves d y y'" "run_inv cfg y"
  shows "run_inv cfg y'"
  using assms same_queue_keeps [of y y'] run_inv_step [of d y y' cfg]
  by (auto simp: system_moves_def run_inv_def same_queue_def)

lemma run_inv_start:
  "dw_failed w = [] \<Longrightarrow> run_inv (dwc_writer (dw_config w)) (system_start w s)"
  by (simp add: run_inv_def system_start_def system_inv_def conserved_def busy_ids_def pending_ids_def)

lemma run_inv_reachable:
  assumes "(writer_step d)\<^sup>*\<^sup>* (system_start w s) y" "dw_failed w = []"
  shows "run_inv (dwc_writer (dw_config w)) y"
  using assms(1) by (induction rule: rtranclp_induct) (use run_inv_step run_inv_start [OF assms(2)] in blast)+

lemma run_inv_run:
  assumes "\<forall>n. system_moves d (run n) (run (Suc n))" "run_inv cfg (run 0)"
  shows "run_inv cfg (run n)"
  using assms by (induction n) (use run_inv_moves in blast)+

subsection \<open>Progress towards settling an entry\<close>

lemma pending_iff:
  "i \<in> set (pending_ids y) \<longleftrightarrow>
     i \<notin> set (fst (phase_mutations (sys_phase y))) \<and> map_of (dw_failed (sys_writer y)) i \<noteq> None"
  by (auto simp: pending_ids_def umap_keys_def map_of_eq_None_iff)

text \<open>Clients and stop requests leave a pending entry where it is.\<close>

lemma write_keeps_rank:
  assumes "writer_step d y y'" "y' \<noteq> thread_next d y" "i \<in> set (pending_ids y)"
  shows "i \<in> set (pending_ids y') \<and> attempts_made i y' = attempts_made i y \<and> sys_phase y' = sys_phase y"
  using assms(1)
proof (cases rule: writer_step_kinds)
  case (client env q k r w' s')
  obtain fw where "map_of (dw_failed (sys_writer y)) i = Some fw" using assms(3) by (auto simp: pending_iff)
  then show ?thesis
    using assms(3) dual_write_keepsD(2) [OF client(1), of i fw] by (simp add: client(2) pending_iff attempts_made_def split: option.split)
qed (use assms in \<open>simp_all add: pending_iff attempts_made_def split: option.split\<close>)

lemma others_keep_rank:
  assumes "system_moves d y y'" "y' \<noteq> thread_next d y" "i \<in> set (pending_ids y)"
  shows "i \<in> set (pending_ids y') \<and> attempts_made i y' = attempts_made i y \<and> sys_phase y' = sys_phase y"
  using assms write_keeps_rank [of d y y' i]
  by (auto simp: system_moves_def same_queue_def pending_iff attempts_made_def split: option.split)

lemma sleep_advances:
  assumes "e < delay" "unat (delay :: u64) + 100 \<le> 2 ^ 64"
  shows "unat delay - unat (e + 100) < unat delay - unat e"
proof -
  have e: "unat e < unat delay" using assms(1) by (simp add: word_less_nat_alt)
  then have "unat (e + 100) = unat e + 100" using assms(2) by (simp add: unat_word_ariths)
  with e show ?thesis by simp
qed

lemma pending_not_busy:
  assumes "run_inv cfg y" "sys_phase y = Working ((j, fw) # rest) muts"
  shows "map_of (dw_failed (sys_writer y)) j = Some fw" "map_of (snd muts) j = None" "j \<notin> set (umap_keys rest)"
  using assms by (auto simp: run_inv_def system_inv_def busy_ids_def umap_keys_def map_of_eq_None_iff)

lemma apply_keeps_attempts:
  assumes "run_inv cfg y" "sys_phase y = Working [] muts" "i \<in> set (pending_ids y)"
  shows "i \<in> set (pending_ids (thread_next d y)) \<and> attempts_made i (thread_next d y) = attempts_made i y"
proof -
  have "distinct (umap_keys (snd muts))"
    using assms(1,2) by (auto simp: run_inv_def system_inv_def busy_ids_def)
  then show ?thesis
    using assms(2,3) map_of_retry_apply [of muts "dw_failed (sys_writer y)" i]
    by (auto simp: thread_next_simps pending_iff attempts_made_def split: option.splits)
qed

text \<open>Each move of the thread settles the entry or brings its next attempt closer.\<close>

definition settles :: "string \<Rightarrow> 'w writer_system \<Rightarrow> 'w writer_system \<Rightarrow> bool" where
  "settles i y y' \<longleftrightarrow> (\<exists>out. settled out \<and> sys_events y' = sys_events y @ [Tried i out])"

lemma thread_retries:
  assumes inv: "run_inv cfg y" and phase: "sys_phase y = Working ((j, fw) # rest) muts"
    and i: "i \<in> set (pending_ids y)"
  shows "settles i y (thread_next d y) \<or>
    i \<in> set (pending_ids (thread_next d y)) \<and> (thread_next d y, y) \<in> retry_order i cfg"
proof -
  obtain out w' s' where one: "retry_one d fw (sys_writer y) (sys_io y) = (out, w', s')" by (metis prod_cases3)
  note nxt = thread_next_simps(4) [OF phase one] and frame = retry_one_frameD [OF one]
    and j = pending_not_busy [OF inv phase]
  show ?thesis
  proof (cases "j = i")
    case True
    show ?thesis
    proof (cases out)
      case (FailedAgain fw')
      note again = retry_one_again [OF one [unfolded FailedAgain]]
      have "attempts_made i y = unat (fw_attempts fw)" using j phase True by (simp add: attempts_made_def)
      moreover have "attempts_made i (thread_next d y) = Suc (unat (fw_attempts fw))"
        using j True again(1) by (simp add: attempts_made_def nxt FailedAgain note_outcome_cases map_add_def)
      moreover have "unat (fw_attempts fw) < unat (max_retries cfg)"
        using again(2) inv by (simp add: run_inv_def word_less_nat_alt)
      ultimately have "(thread_next d y, y) \<in> retry_order i cfg"
        unfolding retry_order_def by (intro measures_less) simp
      then show ?thesis
        using i phase frame(3) by (simp add: pending_iff nxt FailedAgain note_outcome_cases)
    qed (use True in \<open>auto simp: nxt settles_def\<close>)
  next
    case False
    then have "attempts_made i (thread_next d y) = attempts_made i y"
      using phase frame(3) by (cases "settled out") (simp_all add: attempts_made_def nxt note_outcome_cases map_add_def split: option.split)
    moreover have "i \<in> set (pending_ids (thread_next d y))"
      using False i phase frame(3) by (cases "settled out") (auto simp: pending_iff nxt note_outcome_cases)
    ultimately show ?thesis using False phase by (simp add: retry_order_def nxt)
  qed
qed

lemma thread_progress:
  assumes inv: "run_inv cfg y" and i: "i \<in> set (pending_ids y)" and "\<not> sys_stop y"
    and delay: "unat (retry_delay_ms cfg) + 100 \<le> 2 ^ 64"
  shows "settles i y (thread_next d y) \<or>
    i \<in> set (pending_ids (thread_next d y)) \<and> (thread_next d y, y) \<in> retry_order i cfg"
proof (cases "sys_phase y")
  case (Sleeping e)
  have cfg: "dwc_writer (dw_config (sys_writer y)) = cfg" using inv by (simp add: run_inv_def)
  have "dw_failed (sys_writer y) \<noteq> []" using i by (auto simp: pending_iff)
  moreover have "i \<in> set (umap_keys (dw_failed (sys_writer y)))" using i by (simp add: pending_ids_def)
  ultimately show ?thesis
    using Sleeping i assms(3) cfg sleep_advances [OF _ delay, of e]
    by (simp add: thread_next_def retry_order_def pending_iff attempts_made_def)
next
  case (Working todo muts)
  show ?thesis
  proof (cases todo)
    case Nil
    then show ?thesis
      using apply_keeps_attempts [OF inv _ i, of muts d] Working
      by (simp add: retry_order_def thread_next_simps)
  next
    case (Cons a rest)
    then show ?thesis using thread_retries [OF inv _ i] Working by (cases a) blast
  qed
next
  case Stopped
  then show ?thesis using inv assms(3) by (simp add: run_inv_def)
qed

text \<open>Between two moves of the thread its position does not change, so that the order is
  well-founded along a fair run.\<close>

lemma rank_cong:
  assumes "attempts_made i y' = attempts_made i y" "sys_phase y' = sys_phase y" "(z, y') \<in> retry_order i cfg"
  shows "(z, y) \<in> retry_order i cfg"
  using assms by (simp add: retry_order_def)

lemma fair_next_move:
  assumes "fair_run d run" "i \<in> set (pending_ids (run n))"
  obtains m where "n \<le> m" "run (Suc m) = thread_next d (run m)" "i \<in> set (pending_ids (run m))"
    "attempts_made i (run m) = attempts_made i (run n)" "sys_phase (run m) = sys_phase (run n)"
proof -
  define m where "m = (LEAST m. n \<le> m \<and> run (Suc m) = thread_next d (run m))"
  obtain m' where "n \<le> m' \<and> run (Suc m') = thread_next d (run m')" using assms(1) by (auto simp: fair_run_def)
  then have m: "n \<le> m \<and> run (Suc m) = thread_next d (run m)" unfolding m_def by (rule LeastI)
  have least: "run (Suc k) \<noteq> thread_next d (run k)" if "n \<le> k" "k < m" for k
    using that not_less_Least [of k "\<lambda>m. n \<le> m \<and> run (Suc m) = thread_next d (run m)"] by (auto simp: m_def)
  have "k \<le> m \<Longrightarrow> i \<in> set (pending_ids (run k)) \<and> attempts_made i (run k) = attempts_made i (run n) \<and>
      sys_phase (run k) = sys_phase (run n)" if "n \<le> k" for k
    using that
  proof (induction k rule: dec_induct)
    case (step k)
    then show ?case
      using others_keep_rank [of d "run k" "run (Suc k)" i] least [of k] assms(1)
      by (simp add: fair_run_def)
  qed (use assms(2) in simp)
  then show ?thesis using m that by blast
qed

lemma fair_settles:
  assumes fair: "fair_run d run" and inv: "run_inv cfg (run 0)" and stop: "\<forall>n. \<not> sys_stop (run n)"
    and delay: "unat (retry_delay_ms cfg) + 100 \<le> 2 ^ 64"
    and "i \<in> set (pending_ids (run n))"
  shows "\<exists>m\<ge>n. settles i (run m) (run (Suc m))"
  using assms(5)
proof (induction "run n" arbitrary: n rule: wf_induct_rule [OF wf_measures, of
    "[\<lambda>y. unat (max_retries cfg) - attempts_made i y, \<lambda>y. stage i (sys_phase y),
      \<lambda>y. left_in_stage (retry_delay_ms cfg) (sys_phase y)]"])
  case less: (1 n)
  obtain m where m: "n \<le> m" "run (Suc m) = thread_next d (run m)" "i \<in> set (pending_ids (run m))"
    "attempts_made i (run m) = attempts_made i (run n)" "sys_phase (run m) = sys_phase (run n)"
    using fair_next_move [OF fair less.prems] by blast
  have "run_inv cfg (run m)" using run_inv_run inv fair by (auto simp: fair_run_def)
  then consider "settles i (run m) (run (Suc m))"
    | "i \<in> set (pending_ids (run (Suc m)))" "(run (Suc m), run m) \<in> retry_order i cfg"
    using thread_progress [OF _ m(3), of cfg d] stop delay m(2) by auto
  then show ?case
  proof cases
    case 2
    have "(run (Suc m), run n) \<in> retry_order i cfg" using rank_cong [OF m(4,5) 2(2)] .
    then obtain m' where "Suc m \<le> m'" "settles i (run m') (run (Suc m'))"
      using less.hyps [OF _ 2(1)] unfolding retry_order_def by blast
    then show ?thesis using m(1) by (meson Suc_leD le_trans)
  qed (use m(1) in blast)
qed

subsection \<open>The queue drains\<close>

lemma step_events:
  assumes "system_moves d y y'"
  obtains es where "sys_events y' = sys_events y @ es"
proof (cases "same_queue y y'")
  case False
  then have "writer_step d y y'" using assms by (simp add: system_moves_def)
  then show ?thesis using that by (cases rule: writer_step.cases) auto
qed (use that in \<open>simp add: same_queue_def\<close>)

lemma thread_next_failed_ids [simp]:
  "shadow_failed_ids (sys_events (thread_next d y)) = shadow_failed_ids (sys_events y)"
  by (auto simp: thread_next_def case_prod_beta Let_def split: retry_phase.split list.split)

text \<open>While no further shadow write fails, the pending entries only get fewer.\<close>

lemma pending_shrinks:
  assumes "system_moves d y y'" "run_inv cfg y"
    and "shadow_failed_ids (sys_events y') = shadow_failed_ids (sys_events y)"
  shows "length (pending_ids y') \<le> length (pending_ids y)"
    and "settles i y y' \<Longrightarrow> length (pending_ids y') < length (pending_ids y)"
proof -
  obtain es where es: "sys_events y' = sys_events y @ es" using step_events [OF assms(1)] by blast
  have "conserved y" "conserved y'" using assms(2) run_inv_moves [OF assms(1,2)] by (simp_all add: run_inv_def)
  then have "mset (pending_ids y) = mset (collided_ids es) + mset (settled_ids es) + mset (pending_ids y')"
    using assms(3) by (simp add: conserved_def es)
  then have "length (pending_ids y) = length (collided_ids es) + length (settled_ids es) + length (pending_ids y')"
    by (metis size_mset size_union)
  then show "length (pending_ids y') \<le> length (pending_ids y)"
    and "settles i y y' \<Longrightarrow> length (pending_ids y') < length (pending_ids y)"
    by (auto simp: settles_def es)
qed

lemma pending_shrinks_run:
  assumes "\<forall>n. system_moves d (run n) (run (Suc n))" "run_inv cfg (run 0)"
    and "\<forall>n\<ge>N. shadow_failed_ids (sys_events (run n)) = shadow_failed_ids (sys_events (run N))"
    and "N \<le> n" "n \<le> m"
  shows "length (pending_ids (run m)) \<le> length (pending_ids (run n))"
  using assms(5)
proof (induction m rule: dec_induct)
  case (step m)
  then have "shadow_failed_ids (sys_events (run (Suc m))) = shadow_failed_ids (sys_events (run m))"
    using assms(3,4) by (metis le_Suc_eq le_trans)
  then show ?case
    using pending_shrinks(1) [of d "run m" "run (Suc m)" cfg] step.IH run_inv_run [OF assms(1,2)] assms(1)
    by fastforce
qed simp

lemma fair_drains:
  assumes fair: "fair_run d run" and inv: "run_inv cfg (run 0)" and stop: "\<forall>n. \<not> sys_stop (run n)"
    and delay: "unat (retry_delay_ms cfg) + 100 \<le> 2 ^ 64"
    and quiet: "\<forall>n\<ge>N. shadow_failed_ids (sys_events (run n)) = shadow_failed_ids (sys_events (run N))"
    and "N \<le> n"
  shows "\<exists>m\<ge>n. \<forall>k\<ge>m. pending_ids (run k) = []"
  using assms(6)
proof (induction "length (pending_ids (run n))" arbitrary: n rule: less_induct)
  case less
  have steps: "\<forall>n. system_moves d (run n) (run (Suc n))" using fair by (simp add: fair_run_def)
  show ?case
  proof (cases "pending_ids (run n) = []")
    case True
    then show ?thesis using pending_shrinks_run [OF steps inv quiet less.prems] by fastforce
  next
    case False
    then obtain i where "i \<in> set (pending_ids (run n))" by (cases "pending_ids (run n)") auto
    then obtain m where m: "n \<le> m" "settles i (run m) (run (Suc m))"
      using fair_settles [OF fair inv stop delay] by blast
    have "shadow_failed_ids (sys_events (run (Suc m))) = shadow_failed_ids (sys_events (run m))"
      using quiet less.prems m(1) by (metis le_Suc_eq le_trans)
    then have "length (pending_ids (run (Suc m))) < length (pending_ids (run m))"
      using pending_shrinks(2) [OF _ _ _ m(2)] steps run_inv_run [OF steps inv] by blast
    also have "\<dots> \<le> length (pending_ids (run n))"
      by (rule pending_shrinks_run [OF steps inv quiet less.prems m(1)])
    finally obtain m' where "Suc m \<le> m'" "\<forall>k\<ge>m'. pending_ids (run k) = []"
      using less.hyps [of "Suc m"] less.prems m(1) by fastforce
    then show ?thesis using m(1) by (intro exI [of _ m']) simp
  qed
qed

subsection \<open>A stopped thread ends\<close>

lemma stopped_thread_next:
  assumes "sys_stop y" "sys_phase y \<noteq> Stopped"
  shows "thread_left (sys_phase (thread_next d y)) < thread_left (sys_phase y)"
proof (cases "sys_phase y")
  case (Working todo muts)
  then show ?thesis by (cases todo) (auto simp: thread_next_def case_prod_beta Let_def)
qed (use assms in \<open>simp_all add: thread_next_def\<close>)

lemma stopped_run:
  assumes "\<forall>n. system_moves d (run n) (run (Suc n))" "sys_stop (run n)" "n \<le> m"
  shows "sys_stop (run m) \<and> thread_left (sys_phase (run m)) \<le> thread_left (sys_phase (run n))"
  using assms(3)
proof (induction m rule: dec_induct)
  case (step m)
  then show ?case using stopped_thread_decreases [of d "run m" "run (Suc m)"] assms(1) [rule_format, of m]
    by (auto simp: system_moves_def same_queue_def)
qed (use assms(2) in simp)

lemma thread_left_zero [simp]: "thread_left p = 0 \<longleftrightarrow> p = Stopped"
  by (cases p) simp_all

text \<open>After a stop request a fair run takes the thread to its end, which it does not leave.\<close>

lemma fair_stop:
  assumes "fair_run d run" "sys_stop (run n)"
  shows "\<exists>m\<ge>n. \<forall>k\<ge>m. sys_phase (run k) = Stopped"
  using assms(2)
proof (induction "thread_left (sys_phase (run n))" arbitrary: n rule: less_induct)
  case less
  have steps: "\<forall>n. system_moves d (run n) (run (Suc n))" using assms(1) by (simp add: fair_run_def)
  show ?case
  proof (cases "sys_phase (run n) = Stopped")
    case True
    then show ?thesis using stopped_run [OF steps less.prems] by fastforce
  next
    case False
    obtain m where m: "n \<le> m" "run (Suc m) = thread_next d (run m)" using assms(1) by (auto simp: fair_run_def)
    note at_m = stopped_run [OF steps less.prems m(1)]
    have "thread_left (sys_phase (run (Suc m))) < thread_left (sys_phase (run n))"
      using at_m False stopped_thread_next [of "run m" d] m(2)
      by (cases "sys_phase (run m) = Stopped") (auto simp: thread_next_def simp flip: thread_left_zero)
    then obtain m' where "Suc m \<le> m'" "\<forall>k\<ge>m'. sys_phase (run k) = Stopped"
      using less.hyps [of "Suc m"] at_m m(2) by auto
    then show ?thesis using m(1) by (intro exI [of _ m']) simp
  qed
qed

subsection \<open>From the start\<close>

text \<open>Every failed shadow write is dealt with in the end: in a run that is fair to the retry
  thread and sees no stop request, whatever the clients and the target do meanwhile, a write
  that is pending at some time is settled at a later time (executed on the target, abandoned
  after its last attempt, or dropped because its table is blacklisted). The retry delay must
  not be so close to the maximum of its 64-bit type that the counter of the sleep wraps.\<close>

lemma fair_retries_settle:
  assumes "fair_run d run" "\<forall>n. \<not> sys_stop (run n)"
    and "(writer_step d)\<^sup>*\<^sup>* (system_start (dual_writer_new cfg src tgt flt mtr) s) (run 0)"
    and "unat (retry_delay_ms (dwc_writer cfg)) + 100 \<le> 2 ^ 64"
    and "i \<in> set (pending_ids (run n))"
  shows "\<exists>m\<ge>n. \<exists>out. settled out \<and> sys_events (run (Suc m)) = sys_events (run m) @ [Tried i out]"
proof -
  have "run_inv (dwc_writer cfg) (run 0)"
    using run_inv_reachable [OF assms(3)] by (simp add: dual_writer_new_def)
  from fair_settles [OF assms(1) this assms(2,4,5)] show ?thesis by (simp add: settles_def)
qed

end
