(* ===== verification/Writer_Process.thy ===== *)
theory Writer_Process
  imports Proxy_Server Service_Startup Service_Api Fair_Retry
begin

text \<open>
  The running dual-writer process: \<open>main\<close> of \<open>services/dual-writer/src/main.cpp\<close> from the threads
  it starts to its return.

  The event loop serves the proxy (\<open>server_step\<close>), the API thread answers HTTP requests, the
  hot-reload thread rebuilds the rules every minute and the retry thread works on the queue; the
  writer, its rules and the two connections are shared by all of them. A step of the process is one
  step of one of these threads, or one step of \<open>main\<close> after the shutdown signal: the locals are
  destroyed in the reverse order of their declaration, and the destructor of a \<open>jthread\<close> waits for
  its thread. \<open>bound\<close> says whether \<open>svr.listen\<close> could bind its port: it then serves until somebody
  calls \<open>svr.stop\<close>, which nobody does, and otherwise returns at once.
\<close>

section \<open>Definitions\<close>

text \<open>Where \<open>main\<close> is: in \<open>ioc.run()\<close>, in the destructor of one of the threads, or back.\<close>

datatype main_stage = EventLoop | JoinReload | JoinApi | JoinRetry | MainReturned

text \<open>Ordered as they follow each other.\<close>

fun stage_rank :: "main_stage \<Rightarrow> nat" where
  "stage_rank EventLoop = 0"
| "stage_rank JoinReload = 1"
| "stage_rank JoinApi = 2"
| "stage_rank JoinRetry = 3"
| "stage_rank MainReturned = 4"

instantiation main_stage :: linorder
begin

definition less_eq_main_stage :: "main_stage \<Rightarrow> main_stage \<Rightarrow> bool" where
  "a \<le> b \<longleftrightarrow> stage_rank a \<le> stage_rank b"

definition less_main_stage :: "main_stage \<Rightarrow> main_stage \<Rightarrow> bool" where
  "a < b \<longleftrightarrow> stage_rank a < stage_rank b"

instance
proof
  fix a b :: main_stage
  show "a \<le> b \<Longrightarrow> b \<le> a \<Longrightarrow> a = b"
    by (cases a; cases b) (simp_all add: less_eq_main_stage_def)
qed (auto simp: less_eq_main_stage_def less_main_stage_def)

end

record ('w, 'n) writer_process =
  wp_server :: "('w, 'n) server"
  wp_stage :: main_stage
  wp_api :: bool

abbreviation wp_system :: "('w, 'n) writer_process \<Rightarrow> 'w writer_system" where
  "wp_system p \<equiv> sv_system (wp_server p)"

definition process_start :: "writer_service \<Rightarrow> 'w io \<Rightarrow> bool \<Rightarrow> ('w, 'n) writer_process" where
  "process_start sv s bound =
     \<lparr>wp_server = server_start (ws_writer sv) s, wp_stage = EventLoop, wp_api = bound\<rparr>"

definition with_system :: "'w writer_system \<Rightarrow> ('w, 'n) writer_process \<Rightarrow> ('w, 'n) writer_process" where
  "with_system y p = p\<lparr>wp_server := (wp_server p)\<lparr>sv_system := y\<rparr>\<rparr>"

text \<open>The HTTP handlers share the writer, its rules, its connections and its metrics with it.\<close>

definition process_api ::
  "('j, 'm) json_doc_scheme \<Rightarrow> (metrics_registry \<Rightarrow> string) \<Rightarrow> 'w driver \<Rightarrow> http_request
   \<Rightarrow> 'w writer_system \<Rightarrow> http_answer \<times> 'w writer_system" where
  "process_api js serialize d req y =
     (let w = sys_writer y;
          (answer, s) = writer_api js serialize d (Some w) (Some (dw_source w)) (Some (dw_target w))
                          (dw_filter w) (dw_metrics w) req (sys_io y)
      in (answer, y\<lparr>sys_io := s\<rparr>))"

text \<open>The last steps of \<open>main\<close>: the connections are declared source first.\<close>

definition release_connections :: "'w driver \<Rightarrow> 'w writer_system \<Rightarrow> 'w writer_system" where
  "release_connections d y =
     y\<lparr>sys_io := conn_destroy d (dw_source (sys_writer y))
                 (conn_destroy d (dw_target (sys_writer y)) (sys_io y))\<rparr>"

inductive process_step ::
  "('j, 'm) json_doc_scheme \<Rightarrow> (metrics_registry \<Rightarrow> string) \<Rightarrow> 'w driver \<Rightarrow> 'n source_socket
   \<Rightarrow> ('w, 'n) writer_process \<Rightarrow> ('w, 'n) writer_process \<Rightarrow> bool" for js serialize d k where
  loop_event:
    "wp_stage p = EventLoop \<Longrightarrow> server_step d k (wp_server p) v \<Longrightarrow>
     sys_stop (sv_system v) = sys_stop (wp_system p) \<Longrightarrow>
     process_step js serialize d k p (p\<lparr>wp_server := v\<rparr>)"
| retry_moves:
    "writer_step d (wp_system p) y \<Longrightarrow> sys_phase y \<noteq> sys_phase (wp_system p) \<Longrightarrow>
     process_step js serialize d k p (with_system y p)"
| api_request:
    "wp_api p \<Longrightarrow> process_api js serialize d req (wp_system p) = (answer, y) \<Longrightarrow>
     process_step js serialize d k p (with_system y p)"
| rules_reloaded:
    "wp_stage p = EventLoop \<Longrightarrow>
     process_step js serialize d k p
       (with_system ((wp_system p)\<lparr>sys_writer := reload_round (sys_writer (wp_system p))\<rparr>) p)"
| shutdown_signal:
    "wp_stage p = EventLoop \<Longrightarrow>
     process_step js serialize d k p
       (p\<lparr>wp_stage := JoinReload, wp_server := (wp_server p)\<lparr>sv_conns := []\<rparr>\<rparr>)"
| reload_joined:
    "wp_stage p = JoinReload \<Longrightarrow> process_step js serialize d k p (p\<lparr>wp_stage := JoinApi\<rparr>)"
| api_joined:
    "wp_stage p = JoinApi \<Longrightarrow> \<not> wp_api p \<Longrightarrow>
     process_step js serialize d k p ((with_system (writer_destroy (wp_system p)) p)\<lparr>wp_stage := JoinRetry\<rparr>)"
| retry_joined:
    "wp_stage p = JoinRetry \<Longrightarrow> sys_phase (wp_system p) = Stopped \<Longrightarrow>
     process_step js serialize d k p
       ((with_system (release_connections d (wp_system p)) p)\<lparr>wp_stage := MainReturned\<rparr>)"

section \<open>Lemmas\<close>

lemma with_system_simps [simp]:
  "wp_system (with_system y p) = y" "wp_stage (with_system y p) = wp_stage p"
  "wp_api (with_system y p) = wp_api p" "sv_conns (wp_server (with_system y p)) = sv_conns (wp_server p)"
  by (simp_all add: with_system_def)

lemma writer_api_io:
  "snd (writer_api js serialize d writer source target flt mtr req s) =
     (if req = GET ''/health'' then snd (probe d target (snd (probe d source s))) else s)"
  by (simp add: writer_api_def writer_health_def case_prod_beta Let_def)

lemma process_api_frame:
  assumes "process_api js serialize d req y = (answer, y')"
  shows "y' = y\<lparr>sys_io := sys_io y'\<rparr>"
    "io_calls (sys_io y') = io_calls (sys_io y) @ (if req = GET ''/health''
       then exec_calls (dw_source (sys_writer y)) ''SELECT now() FROM system.local'' @
            exec_calls (dw_target (sys_writer y)) ''SELECT now() FROM system.local''
       else [])"
proof -
  have y': "y' = y\<lparr>sys_io := snd (writer_api js serialize d (Some (sys_writer y)) (Some (dw_source (sys_writer y)))
      (Some (dw_target (sys_writer y))) (dw_filter (sys_writer y)) (dw_metrics (sys_writer y)) req (sys_io y))\<rparr>"
    using assms by (simp add: process_api_def Let_def case_prod_beta)
  show "y' = y\<lparr>sys_io := sys_io y'\<rparr>" unfolding y' by simp
  show "io_calls (sys_io y') = io_calls (sys_io y) @ (if req = GET ''/health''
       then exec_calls (dw_source (sys_writer y)) ''SELECT now() FROM system.local'' @
            exec_calls (dw_target (sys_writer y)) ''SELECT now() FROM system.local''
       else [])"
    by (simp add: y' writer_api_io io_calls_probe)
qed

subsection \<open>The rules\<close>

text \<open>The writer's governor keeps the rules of its configuration, so that a reload does nothing.\<close>

definition rules_kept :: "dual_writer \<Rightarrow> bool" where
  "rules_kept w \<longleftrightarrow> (\<forall>g. dw_filter w = Some g \<longrightarrow> dw_governor_inv g)"

lemma rules_kept_gate: "rules_kept w \<Longrightarrow> rules_kept (snd (filter_gate t w))"
  by (auto simp: rules_kept_def filter_gate_def case_prod_beta dw_gov.invar_table split: option.splits)

lemma dual_write_filter:
  "dw_filter (fst (snd (dual_write env d q k w s))) = dw_filter (snd (filter_gate k (count_total w)))"
  by (simp add: dual_write_def Let_def case_prod_beta frame_simps write_dual_async_def split: sum.splits)

lemma rules_kept_write:
  assumes "rules_kept w"
  shows "rules_kept (fst (snd (dual_write env d q k w s)))"
proof -
  have "rules_kept (count_total w)" using assms by (simp add: rules_kept_def frame_simps)
  from rules_kept_gate [OF this, of k] show ?thesis
    unfolding rules_kept_def dual_write_filter .
qed

lemma rules_kept_retry: "retry_one d fw w s = (out, w', s') \<Longrightarrow> rules_kept w \<Longrightarrow> rules_kept w'"
  using rules_kept_gate [of w "fw_keyspace fw"]
  by (auto simp: retry_one_def Let_def case_prod_beta rules_kept_def frame_simps
      split: if_splits sum.splits prod.splits)

lemma reload_round_id: "rules_kept w \<Longrightarrow> reload_round w = w"
  by (cases "dw_filter w") (simp_all add: rules_kept_def reload_round_def dw_reload_config_id)

subsection \<open>The calls of a running process\<close>

text \<open>What a step of the writer's threads keeps.\<close>

definition writer_keeps :: "'w writer_system \<Rightarrow> 'w writer_system \<Rightarrow> bool" where
  "writer_keeps y y' \<longleftrightarrow>
     executes (sys_io y) (sys_io y') \<and> dw_source (sys_writer y') = dw_source (sys_writer y) \<and>
     dw_target (sys_writer y') = dw_target (sys_writer y) \<and>
     (rules_kept (sys_writer y) \<longrightarrow> rules_kept (sys_writer y'))"

lemma writer_step_keeps_setup:
  assumes "writer_step d y y'"
  shows "writer_keeps y y'"
  using assms
proof (induction rule: writer_step.induct)
  case (client_write env q k y r w' s')
  then show ?case
    using dual_write_history [of env d q k "sys_writer y" "sys_io y"] dual_write_frameD [OF client_write]
      rules_kept_write [of "sys_writer y" env d q k "sys_io y"]
    by (auto simp: writer_keeps_def exec_calls_def intro!: executesI)
next
  case (retry_entry y i fw rest muts out w' s')
  then show ?case
    using retry_one_calls [of d fw "sys_writer y" "sys_io y"] retry_one_frameD [OF retry_entry(2)]
      retry_one_sourceD [OF retry_entry(2)] rules_kept_retry [OF retry_entry(2)]
    by (auto simp: writer_keeps_def exec_calls_def intro!: executesI split: if_splits)
qed (simp_all add: writer_keeps_def rules_kept_def)

subsection \<open>The invariant of the process\<close>

definition health_probe :: string where
  "health_probe = ''SELECT now() FROM system.local''"

text \<open>\<open>s0\<close> is the state of the driver when the threads start; the connections are intact until
  \<open>main\<close> returns.\<close>

definition process_inv :: "dual_writer \<Rightarrow> 'w io \<Rightarrow> bool \<Rightarrow> ('w, 'n) writer_process \<Rightarrow> bool" where
  "process_inv w s0 bound p \<longleftrightarrow>
     server_ok {health_probe} w (wp_server p) \<and> rules_kept (sys_writer (wp_system p)) \<and>
     wp_api p = bound \<and> (bound \<longrightarrow> wp_stage p \<in> {EventLoop, JoinReload, JoinApi}) \<and>
     (sys_stop (wp_system p) \<longleftrightarrow> wp_stage p \<in> {JoinRetry, MainReturned}) \<and>
     (wp_stage p = MainReturned \<longrightarrow> sys_phase (wp_system p) = Stopped) \<and>
     balanced s0 (owned (dw_source w) + owned (dw_target w)) (sys_io (wp_system p))
       (if wp_stage p = MainReturned then {#} else owned (dw_source w) + owned (dw_target w))"

lemma process_inv_start:
  assumes "dw_failed w = []" "rules_kept w"
    and "\<forall>t q. conn_session (dw_target w) = Some t \<longrightarrow> SessionExecute t q \<notin> set (io_calls s)"
    and "ws_writer sv = w"
  shows "process_inv w s bound (process_start sv s bound)"
  using server_ok_start [OF assms(1,3)] assms(2,4)
  by (simp add: process_inv_def process_start_def server_start_def system_start_def)

text \<open>Replacing the writer system, with what a step of one of the threads guarantees.\<close>

lemma process_inv_system:
  assumes "process_inv w s0 bound p" "writer_ok {health_probe} w y" "writer_keeps (wp_system p) y"
    and "sys_stop y = sys_stop (wp_system p)" "wp_stage p \<noteq> MainReturned"
  shows "process_inv w s0 bound (with_system y p)"
proof -
  let ?own = "owned (dw_source w) + owned (dw_target w)"
  have "balanced s0 ?own (sys_io y) ?own"
    using assms(1,3,5) balanced_trans [OF _ executes_balanced, of s0 ?own "sys_io (wp_system p)" ?own "sys_io y"]
    by (simp add: process_inv_def writer_keeps_def)
  then show ?thesis
    using assms by (simp add: process_inv_def server_ok_def conns_inv_def writer_keeps_def)
qed


lemma stopped_phase_final: "writer_step d y y' \<Longrightarrow> sys_phase y = Stopped \<Longrightarrow> sys_phase y' = Stopped"
  by (induction rule: writer_step.induct) simp_all

lemma loop_event_keeps:
  assumes "server_step d k v v'" "server_ok X w v"
  shows "writer_keeps (sv_system v) (sv_system v')"
  using server_step_writes [OF assms(1)] assms(2) writer_step_keeps_setup
  by (fastforce simp: server_ok_def writer_keeps_def)

lemma api_request_keeps:
  assumes "process_api js serialize d req y = (answer, y')"
  shows "writer_keeps y y'" "writer_ok {health_probe} w y \<Longrightarrow> writer_ok {health_probe} w y'"
    "sys_stop y' = sys_stop y"
proof -
  note frame = process_api_frame [OF assms, folded health_probe_def]
  have same: "sys_writer y' = sys_writer y" "sys_phase y' = sys_phase y" "sys_stop y' = sys_stop y"
    by (subst frame(1), simp)+
  let ?new = "if req = GET ''/health''
    then exec_calls (dw_source (sys_writer y)) health_probe @ exec_calls (dw_target (sys_writer y)) health_probe
    else []"
  have calls: "\<forall>c \<in> set ?new. \<exists>x. c = SessionExecute x health_probe"
    by (auto simp: exec_calls_def)
  then show "writer_keeps y y'"
    using same frame(2) by (auto simp: writer_keeps_def intro!: executesI)
  show "writer_ok {health_probe} w y'" if "writer_ok {health_probe} w y"
    using that same frame(2) calls entry_ok_append history_ok_quiet [of "{health_probe}" w "io_calls (sys_io y)" ?new]
    by (fastforce simp: writer_ok_def)
  show "sys_stop y' = sys_stop y" by (rule same(3))
qed

lemma destroy_ok:
  assumes "writer_ok X w y"
  shows "writer_ok X w (y\<lparr>sys_io := conn_destroy d c (sys_io y)\<rparr>)"
proof -
  obtain new where new: "io_calls (conn_destroy d c (sys_io y)) = io_calls (sys_io y) @ new"
    "\<forall>c \<in> set new. \<forall>x q. c \<noteq> SessionExecute x q"
    using io_calls_destroy [of d c "sys_io y"] by (fastforce split: option.splits if_splits)
  then show ?thesis
    using assms entry_ok_append history_ok_quiet [of X w "io_calls (sys_io y)" new]
    by (auto simp: writer_ok_def)
qed

lemma release_keeps:
  assumes "writer_ok X w y" "balanced s0 own (sys_io y) (owned (dw_source w) + owned (dw_target w))"
  shows "writer_ok X w (release_connections d y)" "balanced s0 own (sys_io (release_connections d y)) {#}"
proof -
  let ?t = "y\<lparr>sys_io := conn_destroy d (dw_target (sys_writer y)) (sys_io y)\<rparr>"
  have same: "dw_source (sys_writer y) = dw_source w" "dw_target (sys_writer y) = dw_target w"
    using assms(1) by (simp_all add: writer_ok_def same_setup_def)
  show "writer_ok X w (release_connections d y)"
    using destroy_ok [OF destroy_ok [OF assms(1)], of d "dw_source (sys_writer y)" d "dw_target (sys_writer y)"]
    by (simp add: release_connections_def)
  have "balanced s0 own (sys_io ?t) (owned (dw_source w))"
    using balanced_trans [OF assms(2)] balanced_destroy [of "sys_io y" "dw_target w" "owned (dw_source w)" d] same
    by (simp add: add.commute)
  then show "balanced s0 own (sys_io (release_connections d y)) {#}"
    using balanced_trans balanced_destroy [of "sys_io ?t" "dw_source w" "{#}" d] same
    by (fastforce simp: release_connections_def)
qed

lemma process_inv_step:
  assumes "process_step js serialize d k p p'" "process_inv w s0 bound p"
    and sess: "conn_session (dw_source w) \<noteq> conn_session (dw_target w)"
  shows "process_inv w s0 bound p'"
  using assms(1,2)
proof (induction rule: process_step.induct)
  case (loop_event p v)
  have ok: "server_ok {health_probe} w (wp_server p)" using loop_event.prems by (simp add: process_inv_def)
  have "server_ok {health_probe} w v" by (rule server_step_ok [OF loop_event(2) ok sess])
  moreover from this have "process_inv w s0 bound (with_system (sv_system v) p)"
    using loop_event by (intro process_inv_system [OF loop_event.prems _ loop_event_keeps [OF loop_event(2) ok]])
      (simp_all add: server_ok_def)
  ultimately show ?case by (simp add: process_inv_def)
next
  case (retry_moves p y)
  have "sys_stop y = sys_stop (wp_system p)"
    using retry_moves(1,2) by (cases rule: writer_step.cases) auto
  moreover have "wp_stage p \<noteq> MainReturned"
    using stopped_phase_final [OF retry_moves(1)] retry_moves(2,3) by (auto simp: process_inv_def)
  moreover have "writer_ok {health_probe} w y"
    using writer_step_ok [OF retry_moves(1), of "{health_probe}" w] retry_moves(2,3)
    by (simp add: process_inv_def server_ok_def)
  ultimately show ?case
    using process_inv_system [OF retry_moves(3)] writer_step_keeps_setup [OF retry_moves(1)] by blast
next
  case (api_request p req answer y)
  have "wp_stage p \<noteq> MainReturned" using api_request(1,3) by (auto simp: process_inv_def)
  then show ?case
    using process_inv_system [OF api_request(3)] api_request_keeps [OF api_request(2)] api_request(3)
    by (auto simp: process_inv_def server_ok_def)
next
  case (rules_reloaded p)
  then have "reload_round (sys_writer (wp_system p)) = sys_writer (wp_system p)"
    by (intro reload_round_id) (simp add: process_inv_def)
  then show ?case using rules_reloaded by (simp add: with_system_def)
next
  case (shutdown_signal p)
  then show ?case by (auto simp: process_inv_def server_ok_def conns_inv_def)
next
  case (reload_joined p)
  then show ?case by (auto simp: process_inv_def)
next
  case (api_joined p)
  then show ?case by (auto simp: process_inv_def server_ok_def conns_inv_def writer_destroy_def writer_ok_def with_system_def)
next
  case (retry_joined p)
  then have "writer_ok {health_probe} w (wp_system p)" "wp_stage p \<noteq> MainReturned"
    by (auto simp: process_inv_def server_ok_def)
  note rel = release_keeps [OF this(1), of s0 "owned (dw_source w) + owned (dw_target w)" d]
  show ?case
    using retry_joined rel
    by (auto simp: process_inv_def server_ok_def conns_inv_def release_connections_def with_system_def)
qed

lemma process_run_inv:
  assumes "(process_step js serialize d k)\<^sup>*\<^sup>* p p'" "process_inv w s0 bound p"
    and "conn_session (dw_source w) \<noteq> conn_session (dw_target w)"
  shows "process_inv w s0 bound p'"
  using assms(1) by (induction rule: rtranclp_induct) (use assms(2,3) process_inv_step in blast)+

subsection \<open>From the command line to the threads\<close>

lemma writer_main_connections:
  assumes "dual_writer_main h y d argv s = (Serving sv, s0)"
  shows "conn_session (dw_source (ws_writer sv)) \<noteq> None \<and> conn_session (dw_target (ws_writer sv)) \<noteq> None \<and>
    makes_no_execute s s0 \<and> dw_failed (ws_writer sv) = []"
  using assms
  by (auto simp: dual_writer_main_def dual_writer_new_def dest: connect_clusters_facts
      split: option.splits sum.splits prod.splits)

lemma main_process_inv:
  assumes "dual_writer_main h y d argv s = (Serving sv, s0)" "io_calls s = []"
  shows "process_inv (ws_writer sv) s0 bound (process_start sv s0 bound)"
proof -
  obtain fc where flt: "dw_filter (ws_writer sv) = Some (dw_governor_new fc)"
    using writer_main_filter [OF assms(1)] by metis
  have "dw_failed (ws_writer sv) = []" "SessionExecute t q \<notin> set (io_calls s0)" for t q
    using writer_main_connections [OF assms(1)] assms(2) by (auto simp: makes_no_execute_def)
  then show ?thesis
    using flt dw_governor_inv_new by (intro process_inv_start) (auto simp: rules_kept_def)
qed

subsection \<open>Shutdown\<close>

text \<open>The stages only advance, and before the destructors begin nothing is torn down.\<close>

lemma stage_advances: "process_step js serialize d k p p' \<Longrightarrow> wp_stage p \<le> wp_stage p'"
  by (induction rule: process_step.induct) (simp_all add: less_eq_main_stage_def)

lemma stages_advance: "(process_step js serialize d k)\<^sup>*\<^sup>* p p' \<Longrightarrow> wp_stage p \<le> wp_stage p'"
  by (induction rule: rtranclp_induct) (auto dest: stage_advances)

lemma join_retry_completes:
  assumes "wp_stage p = JoinRetry" "sys_stop (wp_system p)"
  shows "\<exists>p'. (process_step js serialize d k)\<^sup>*\<^sup>* p p' \<and> wp_stage p' = MainReturned"
  using assms
proof (induction "thread_left (sys_phase (wp_system p))" arbitrary: p rule: less_induct)
  case less
  show ?case
  proof (cases "sys_phase (wp_system p) = Stopped")
    case True
    have "process_step js serialize d k p
        ((with_system (release_connections d (wp_system p)) p)\<lparr>wp_stage := MainReturned\<rparr>)"
      by (rule retry_joined [OF less.prems(1) True])
    then show ?thesis by - (rule exI, rule conjI, rule r_into_rtranclp, assumption, simp)
  next
    case False
    then obtain y where y: "writer_step d (wp_system p) y" "sys_stop y"
      "thread_left (sys_phase y) < thread_left (sys_phase (wp_system p))"
      using stopped_thread_moves [OF less.prems(2)] by blast
    then have "process_step js serialize d k p (with_system y p)"
      by (intro retry_moves) auto
    then show ?thesis
      using less.hyps [of "with_system y p"] y(2,3) less.prems(1) by (auto intro: converse_rtranclp_into_rtranclp)
  qed
qed

lemma unbound_process_returns:
  assumes "process_inv w s0 False p"
  shows "\<exists>p'. (process_step js serialize d k)\<^sup>*\<^sup>* p p' \<and> wp_stage p' = MainReturned"
proof -
  let ?goal = "\<lambda>p. \<exists>p'. (process_step js serialize d k)\<^sup>*\<^sup>* p p' \<and> wp_stage p' = MainReturned"
  have step: "?goal p" if "process_step js serialize d k p p'" "?goal p'" for p p' :: "('a, 'b) writer_process"
    using that converse_rtranclp_into_rtranclp by metis
  have retry: "?goal p" if "wp_stage p = JoinApi" "\<not> wp_api p" for p :: "('a, 'b) writer_process"
    by (rule step [OF api_joined [OF that] join_retry_completes]) (simp_all add: writer_destroy_def with_system_def)
  have api: "?goal p" if "wp_stage p = JoinReload" "\<not> wp_api p" for p :: "('a, 'b) writer_process"
    by (rule step [OF reload_joined [OF that(1)] retry]) (simp_all add: that)
  have loop: "?goal p" if "wp_stage p = EventLoop" "\<not> wp_api p" for p :: "('a, 'b) writer_process"
    by (rule step [OF shutdown_signal [OF that(1)] api]) (simp_all add: that)
  have "\<not> wp_api p" "sys_stop (wp_system p) \<longleftrightarrow> wp_stage p \<in> {JoinRetry, MainReturned}"
    using assms by (simp_all add: process_inv_def)
  then show ?thesis
    using retry api loop join_retry_completes [of p js serialize d k] by (cases "wp_stage p") blast+
qed

text \<open>Once \<open>main\<close> waits for the retry thread, every step brings the end closer.\<close>

definition joining :: "('w, 'n) writer_process \<Rightarrow> bool" where
  "joining p \<longleftrightarrow> wp_stage p = JoinRetry \<and> sys_stop (wp_system p) \<and> \<not> wp_api p"

definition returned :: "('w, 'n) writer_process \<Rightarrow> bool" where
  "returned p \<longleftrightarrow> wp_stage p = MainReturned \<and> sys_phase (wp_system p) = Stopped \<and> \<not> wp_api p"

lemma returned_final: "returned p \<Longrightarrow> \<not> process_step js serialize d k p p'"
  by (auto simp: returned_def dest: stopped_phase_final elim!: process_step.cases)

lemma joining_step:
  assumes "process_step js serialize d k p p'" "joining p"
  shows "returned p' \<or>
    joining p' \<and> thread_left (sys_phase (wp_system p')) < thread_left (sys_phase (wp_system p))"
  using assms
  by (cases rule: process_step.cases)
    (auto simp: joining_def returned_def release_connections_def with_system_def dest: stopped_thread_decreases)

lemma joining_bounded:
  "(process_step js serialize d k ^^ n) p p' \<Longrightarrow> joining p \<Longrightarrow> n \<le> Suc (thread_left (sys_phase (wp_system p)))"
proof (induction n arbitrary: p)
  case (Suc n)
  then obtain p1 where p1: "process_step js serialize d k p p1" "(process_step js serialize d k ^^ n) p1 p'"
    by (metis relpowp_Suc_D2)
  show ?case
    using joining_step [OF p1(1) Suc.prems(2)]
  proof
    assume "returned p1"
    then have "n = 0" using p1(2) returned_final relpowp_Suc_D2 by (metis not0_implies_Suc)
    then show ?thesis by simp
  next
    assume "joining p1 \<and> thread_left (sys_phase (wp_system p1)) < thread_left (sys_phase (wp_system p))"
    then show ?thesis using Suc.IH [OF p1(2)] by simp
  qed
qed simp

subsection \<open>The queue of failed writes\<close>

text \<open>A step of the process is a step of the writer with its retry thread, or leaves the queue alone.\<close>

lemma process_system_step:
  assumes "process_step js serialize d k p p'" "conns_inv (wp_server p)"
  shows "conns_inv (wp_server p') \<and>
    system_moves d (wp_system p) (wp_system p')"
  unfolding system_moves_def
  using assms
proof (induction rule: process_step.induct)
  case (loop_event p v)
  then show ?case using server_step_writes [OF loop_event(2)] by (auto simp: same_queue_def)
next
  case (api_request p req answer y)
  then show ?case
    by (subst process_api_frame(1) [OF api_request(2)]) (simp add: same_queue_def conns_inv_def)
qed (auto simp: same_queue_def conns_inv_def reload_round_def writer_destroy_def release_connections_def with_system_def)

lemma process_conserves:
  assumes "(process_step js serialize d k)\<^sup>*\<^sup>* (process_start sv s bound) p" "dw_failed (ws_writer sv) = []"
  shows "conns_inv (wp_server p) \<and> system_inv (wp_system p) \<and> conserved (wp_system p)"
  using assms(1)
proof (induction rule: rtranclp_induct)
  case base
  then show ?case
    using system_inv_reachable [OF rtranclp.rtrancl_refl assms(2)]
    by (simp add: process_start_def server_start_def conns_inv_def)
next
  case (step p p')
  then show ?case using process_system_step [OF step(2)] writer_step_keeps same_queue_keeps unfolding system_moves_def by blast
qed

subsection \<open>Example\<close>

text \<open>A process that has accepted a client and served its first frame.\<close>

lemma process_serves_client:
  assumes "wp_stage p = EventLoop" "sys_stop (sv_system (serve_client env d k n input (wp_server p))) = sys_stop (wp_system p)"
  shows "(process_step js serialize d k)\<^sup>*\<^sup>* p (p\<lparr>wp_server := serve_client env d k n input (wp_server p)\<rparr>)"
proof -
  obtain v1 where v1: "server_step d k (wp_server p) v1" "sv_system v1 = wp_system p"
    "server_step d k v1 (serve_client env d k n input (wp_server p))"
    using serve_client_steps [of d k "wp_server p" env n input] by blast
  have "process_step js serialize d k p (p\<lparr>wp_server := v1\<rparr>)"
    using loop_event [OF assms(1) v1(1)] v1(2) by simp
  moreover have "process_step js serialize d k (p\<lparr>wp_server := v1\<rparr>)
      (p\<lparr>wp_server := v1\<rparr>\<lparr>wp_server := serve_client env d k n input (wp_server p)\<rparr>)"
    using assms v1(2,3) by (intro loop_event) simp_all
  ultimately show ?thesis by simp
qed

definition all_up :: "nat driver" where
  "all_up = scripted_driver (\<lambda>_ _ _. None)"

definition target_down :: "nat driver" where
  "target_down = scripted_driver (\<lambda>se _ _. if se = 4 then Some ''down'' else None)"

lemma example_service:
  assumes "d = scripted_driver f"
  shows "\<exists>sv s0. dual_writer_main example_host example_yaml d [] io_start = (Serving sv, s0) \<and>
     live (dw_source (ws_writer sv)) \<and> conn_session (dw_source (ws_writer sv)) = Some 1 \<and>
     live (dw_target (ws_writer sv)) \<and> conn_session (dw_target (ws_writer sv)) = Some 4 \<and>
     (\<forall>t. \<not> blacklists (ws_writer sv) t) \<and> dw_failed (ws_writer sv) = [] \<and>
     retry_delay_ms (dwc_writer (dw_config (ws_writer sv))) = 500"
  by (simp add: assms dual_writer_main_def parse_writer_args_def default_writer_args_def dual_writer_from_yaml_def
      dw_load_filter_config_def dw_parse_filter_config_def example_startup_simps dual_writer_new_def live_def
      blacklists_def dw_governor_new_def table_blacklisted_def default_dw_filter_config_def parse_writer_config_def
      default_writer_config_def)

abbreviation "example_write \<equiv> ''DELETE FROM k.t W 1''"

text \<open>A client sends one write.\<close>

lemma example_write_served:
  "\<exists>p. (process_step js serialize d (stream_socket :: bytes source_socket))\<^sup>*\<^sup>* (process_start sv s0 bound) p \<and>
     (let (r, w', s') = dual_write example_env d example_write (extract_table_target example_write) (ws_writer sv) s0
      in wp_system p = (system_start (ws_writer sv) s0)\<lparr>sys_writer := w', sys_io := s', sys_events :=
           write_events example_env (extract_table_target example_write) r (ws_writer sv)\<rparr>)"
proof -
  let ?h = "[0x04, 0, 0, 9, 0x07, 0, 0, 0, 23] :: bytes"
  let ?start = "process_start sv s0 bound"
  let ?p = "?start\<lparr>wp_server := serve_client example_env d stream_socket [] (?h @ write_body) (wp_server ?start)\<rparr>"
  have p0: "wp_stage ?start = EventLoop" "wp_system ?start = system_start (ws_writer sv) s0"
    by (simp_all add: process_start_def server_start_def)
  have f: "read_client_frame (?h @ write_body) = Inr (parse_header ?h, write_body, [])"
    "fh_opcode (parse_header ?h) = OP_QUERY" "is_write_query example_write"
    by code_simp+
  note wr = serve_client_write [OF f(1,2) write_body_text f(3), where env = example_env and d = d
      and k = stream_socket and n = "[]" and v = "wp_server ?start"]
  obtain p where p: "p = ?p" by blast
  have run: "(process_step js serialize d stream_socket)\<^sup>*\<^sup>* ?start p"
    unfolding p by (rule process_serves_client [OF p0(1)]) (subst wr, simp)
  have sys: "wp_system p = sv_system (serve_client example_env d stream_socket [] (?h @ write_body) (wp_server ?start))"
    by (simp add: p)
  show ?thesis
    by (rule exI [of _ p], rule conjI [OF run], unfold sys wr)
      (simp add: p0(2) system_start_def case_prod_beta Let_def)
qed

text \<open>With both clusters up it reaches the source and then the target.\<close>

lemma example_write_mirrored:
  "\<exists>sv s0 p. dual_writer_main example_host example_yaml all_up [] io_start = (Serving sv, s0) \<and>
     conn_session (dw_source (ws_writer sv)) = Some 1 \<and> conn_session (dw_target (ws_writer sv)) = Some 4 \<and>
     (process_step js serialize all_up (stream_socket :: bytes source_socket))\<^sup>*\<^sup>* (process_start sv s0 bound) p \<and>
     io_calls (sys_io (wp_system p)) = (io_calls s0 @ [SessionExecute 1 example_write]) @ SessionExecute 4 example_write # []"
proof -
  let ?q = example_write
  obtain sv s0 where m: "dual_writer_main example_host example_yaml all_up [] io_start = (Serving sv, s0)"
    and src: "live (dw_source (ws_writer sv))" "conn_session (dw_source (ws_writer sv)) = Some 1"
    and tgt: "live (dw_target (ws_writer sv))" "conn_session (dw_target (ws_writer sv)) = Some 4"
    and bl: "\<not> blacklists (ws_writer sv) t" for t
    using example_service [OF all_up_def] by blast
  let ?dw = "dual_write example_env all_up ?q (extract_table_target ?q) (ws_writer sv) s0"
  obtain p where run: "(process_step js serialize all_up (stream_socket :: bytes source_socket))\<^sup>*\<^sup>* (process_start sv s0 bound) p"
    and io: "sys_io (wp_system p) = snd (snd ?dw)"
    using example_write_served [of js serialize all_up sv s0 bound] by (auto simp: case_prod_beta Let_def)
  obtain s1 where ok: "conn_execute all_up (dw_source (ws_writer sv)) ?q s0 = (Inr (), s1)"
    using src by (auto simp: conn_execute_live all_up_def scripted_driver_def)
  then have "source_ok (fst ?dw)"
    by (simp add: dual_write_def Let_def case_prod_beta frame_simps filter_gate_decides bl write_dual_async_def
        new_write_result_def split: sum.split)
  then have "io_calls (sys_io (wp_system p)) = (io_calls s0 @ [SessionExecute 1 ?q]) @ SessionExecute 4 ?q # []"
    using dual_write_history [of example_env all_up ?q "extract_table_target ?q" "ws_writer sv" s0] src tgt bl
    unfolding io by (simp add: exec_calls_def)
  with m src tgt run show ?thesis by blast
qed

text \<open>With the target down it is acknowledged and queued.\<close>

lemma example_write_queued:
  "\<exists>sv s0 p i. dual_writer_main example_host example_yaml target_down [] io_start = (Serving sv, s0) \<and>
     (process_step js serialize target_down (stream_socket :: bytes source_socket))\<^sup>*\<^sup>* (process_start sv s0 bound) p \<and>
     shadow_failed_ids (sys_events (wp_system p)) = [i] \<and> settled_ids (sys_events (wp_system p)) = [] \<and>
     collided_ids (sys_events (wp_system p)) = [] \<and> sys_phase (wp_system p) = Sleeping 0 \<and>
     \<not> sys_stop (wp_system p) \<and> dw_config (sys_writer (wp_system p)) = dw_config (ws_writer sv) \<and>
     retry_delay_ms (dwc_writer (dw_config (ws_writer sv))) = 500"
proof -
  let ?q = example_write and ?d = target_down
  obtain sv s0 where m: "dual_writer_main example_host example_yaml ?d [] io_start = (Serving sv, s0)"
    and src: "live (dw_source (ws_writer sv))" "conn_session (dw_source (ws_writer sv)) = Some 1"
    and tgt: "live (dw_target (ws_writer sv))" "conn_session (dw_target (ws_writer sv)) = Some 4"
    and w: "\<not> blacklists (ws_writer sv) t" "dw_failed (ws_writer sv) = []"
    and delay: "retry_delay_ms (dwc_writer (dw_config (ws_writer sv))) = 500" for t
    using example_service [OF target_down_def] by blast
  let ?dw = "dual_write example_env ?d ?q (extract_table_target ?q) (ws_writer sv) s0"
    and ?i = "generate_id (env_hi example_env) (env_lo example_env)"
  obtain p where run: "(process_step js serialize ?d (stream_socket :: bytes source_socket))\<^sup>*\<^sup>* (process_start sv s0 bound) p"
    and events: "sys_events (wp_system p) = write_events example_env (extract_table_target ?q) (fst ?dw) (ws_writer sv)"
    and still: "sys_phase (wp_system p) = Sleeping 0" "\<not> sys_stop (wp_system p)"
      "dw_config (sys_writer (wp_system p)) = dw_config (ws_writer sv)"
    using example_write_served [of js serialize ?d sv s0 bound]
    by (auto simp: case_prod_beta Let_def system_start_def frame_simps)
  obtain s1 where ok: "conn_execute ?d (dw_source (ws_writer sv)) ?q s0 = (Inr (), s1)"
    using src by (auto simp: conn_execute_live target_down_def scripted_driver_def)
  obtain e s2 where down: "conn_execute ?d (dw_target (ws_writer sv)) ?q s1 = (Inl e, s2)"
    using tgt by (auto simp: conn_execute_live target_down_def scripted_driver_def)
  have "source_ok (fst ?dw) \<and> \<not> target_ok (fst ?dw)"
    using ok down
    by (simp add: dual_write_def Let_def case_prod_beta frame_simps filter_gate_decides w write_dual_async_def
        new_write_result_def)
  then have "shadow_failed_ids (sys_events (wp_system p)) = [?i]" "settled_ids (sys_events (wp_system p)) = []"
    "collided_ids (sys_events (wp_system p)) = []"
    by (simp_all add: events write_events_def w Let_def)
  with m run still delay show ?thesis by blast
qed

section \<open>Properties\<close>

text \<open>C3. The dual-writer process is safe from its command line on: whatever the clients send to the
  proxy, whoever calls the HTTP API, however the event loop, the retries, the reloads and the
  shutdown interleave and however the clusters answer, a statement is executed on the target's
  session only if it is the health probe, or if it is a write of a table that the rules file of the
  command line does not blacklist and was sent to the source before. The two sessions are taken to
  be distinct handles.\<close>

theorem process_target_calls:
  assumes "dual_writer_main h y d argv s = (Serving sv, s0)" "io_calls s = []"
    and "conn_session (dw_source (ws_writer sv)) \<noteq> conn_session (dw_target (ws_writer sv))"
    and "(process_step js serialize d k)\<^sup>*\<^sup>* (process_start sv s0 bound) p"
    and "conn_session (dw_target (ws_writer sv)) = Some t"
    and "io_calls (sys_io (wp_system p)) = pre @ SessionExecute t q # post"
  shows "q = ''SELECT now() FROM system.local'' \<or>
    (\<exists>rules source. dw_load_filter_config h y (wa_filter_config_path (ws_args sv)) = Inr rules \<and>
       conn_session (dw_source (ws_writer sv)) = Some source \<and> is_write_query q \<and>
       \<not> table_blacklisted (set (dw_cfg_table_blacklist rules)) (extract_table_target q) \<and>
       SessionExecute source q \<in> set pre)"
proof -
  obtain fc where fc: "dw_load_filter_config h y (wa_filter_config_path (ws_args sv)) = Inr fc"
    "dw_filter (ws_writer sv) = Some (dw_governor_new fc)"
    using writer_main_filter [OF assms(1)] .
  obtain source where source: "conn_session (dw_source (ws_writer sv)) = Some source"
    using writer_main_connections [OF assms(1)] by blast
  have "process_inv (ws_writer sv) s0 bound p"
    by (rule process_run_inv [OF assms(4) main_process_inv [OF assms(1,2)] assms(3)])
  then have "vetted {health_probe} (ws_writer sv) pre (SessionExecute t q)"
    using assms(6) by (auto simp: process_inv_def server_ok_def writer_ok_def history_ok_def)
  then show ?thesis
    using assms(5) fc source
    by (auto simp: vetted_def health_probe_def blacklists_def dw_governor_new_def)
qed

theorem process_target_calls_witness:
  "\<exists>sv s0 p pre. dual_writer_main example_host example_yaml all_up [] io_start = (Serving sv, s0) \<and>
     (process_step example_doc (\<lambda>_. []) all_up stream_socket)\<^sup>*\<^sup>* (process_start sv s0 True) p \<and>
     io_calls (sys_io (wp_system p)) = pre @ [SessionExecute 4 ''DELETE FROM k.t W 1''] \<and>
     SessionExecute 1 ''DELETE FROM k.t W 1'' \<in> set pre"
proof -
  obtain sv s0 p where m: "dual_writer_main example_host example_yaml all_up [] io_start = (Serving sv, s0)"
    and src: "conn_session (dw_source (ws_writer sv)) = Some 1" and tgt: "conn_session (dw_target (ws_writer sv)) = Some 4"
    and run: "(process_step example_doc (\<lambda>_. []) all_up (stream_socket :: bytes source_socket))\<^sup>*\<^sup>* (process_start sv s0 True) p"
    and calls: "io_calls (sys_io (wp_system p)) =
      (io_calls s0 @ [SessionExecute 1 example_write]) @ SessionExecute 4 example_write # []"
    using example_write_mirrored [of example_doc "\<lambda>_. []" True] by blast
  have "SessionExecute 1 example_write \<in> set (io_calls s0 @ [SessionExecute 1 example_write])"
    using process_target_calls [OF m _ _ run tgt calls] src tgt by (auto simp: io_start_def)
  with m run calls show ?thesis by auto
qed

text \<open>C2. No shadow write is lost while the process runs: from the command line on, whatever clients,
  HTTP requests, retries, reloads and the shutdown do and however they interleave, the writes whose
  shadow write failed are exactly those that the retry loop has settled (executed on the target,
  abandoned after the last attempt, or dropped because the table is blacklisted), those still
  pending in the queue, and those refused at once because their random id was already queued.
  Those pending when \<open>main\<close> returns were acknowledged to a client and are lost.\<close>

theorem process_conserves_writes:
  assumes "dual_writer_main h y d argv s = (Serving sv, s0)"
    and "(process_step js serialize d k)\<^sup>*\<^sup>* (process_start sv s0 bound) p"
  shows "let sys = wp_system p in
    mset (shadow_failed_ids (sys_events sys)) =
      mset (settled_ids (sys_events sys)) + mset (pending_ids sys) + mset (collided_ids (sys_events sys))"
  using process_conserves [OF assms(2)] writer_main_connections [OF assms(1)] by (simp add: conserved_def Let_def)

theorem process_conserves_writes_witness:
  "\<exists>sv s0 p i. dual_writer_main example_host example_yaml target_down [] io_start = (Serving sv, s0) \<and>
     (process_step example_doc (\<lambda>_. []) target_down (stream_socket :: bytes source_socket))\<^sup>*\<^sup>* (process_start sv s0 True) p \<and>
     shadow_failed_ids (sys_events (wp_system p)) = [i] \<and> pending_ids (wp_system p) = [i]"
proof -
  obtain sv s0 p i where m: "dual_writer_main example_host example_yaml target_down [] io_start = (Serving sv, s0)"
    and run: "(process_step example_doc (\<lambda>_. []) target_down (stream_socket :: bytes source_socket))\<^sup>*\<^sup>* (process_start sv s0 True) p"
    and ids: "shadow_failed_ids (sys_events (wp_system p)) = [i]" "settled_ids (sys_events (wp_system p)) = []"
      "collided_ids (sys_events (wp_system p)) = []"
    using example_write_queued [of example_doc "\<lambda>_. []" True] by blast
  then have "shadow_failed_ids (sys_events (wp_system p)) = [i] \<and> pending_ids (wp_system p) = [i]"
    using process_conserves_writes [OF m run] by (simp add: Let_def)
  with m run show ?thesis by blast
qed

text \<open>C18. Shutdown: from every state the process can reach, \<open>main\<close> can still return exactly when the
  HTTP API could not bind its port, since nobody stops \<open>svr.listen\<close> and the destructor of its
  thread waits for it; a shutdown that has begun is never taken back; and when \<open>main\<close> returns, every driver handle has been freed.\<close>

theorem shutdown_completes_iff:
  assumes "dual_writer_main h y d argv s = (Serving sv, s0)" "io_calls s = []"
    and "conn_session (dw_source (ws_writer sv)) \<noteq> conn_session (dw_target (ws_writer sv))"
    and "(process_step js serialize d k)\<^sup>*\<^sup>* (process_start sv s0 bound) p"
  shows "((\<exists>p'. (process_step js serialize d k)\<^sup>*\<^sup>* p p' \<and> wp_stage p' = MainReturned) \<longleftrightarrow> \<not> bound) \<and>
    (\<forall>p'. (process_step js serialize d k)\<^sup>*\<^sup>* p p' \<longrightarrow> wp_stage p \<le> wp_stage p') \<and>
    (wp_stage p = JoinRetry \<longrightarrow> (\<forall>n p'. (process_step js serialize d k ^^ n) p p' \<longrightarrow>
       n \<le> Suc (thread_left (sys_phase (wp_system p))))) \<and>
    (wp_stage p = MainReturned \<longrightarrow> owed (sys_io (wp_system p)) = freed (sys_io (wp_system p)) \<and>
       (\<forall>p'. \<not> process_step js serialize d k p p'))"
proof -
  let ?w = "ws_writer sv"
  have inv: "process_inv ?w s0 bound p'" if "(process_step js serialize d k)\<^sup>*\<^sup>* p p'" for p'
    using process_run_inv [OF rtranclp_trans [OF assms(4) that] main_process_inv [OF assms(1,2)] assms(3)] .
  have "\<not> bound" if "(process_step js serialize d k)\<^sup>*\<^sup>* p p'" "wp_stage p' = MainReturned" for p'
    using inv [OF that(1)] that(2) by (auto simp: process_inv_def)
  then have returns: "(\<exists>p'. (process_step js serialize d k)\<^sup>*\<^sup>* p p' \<and> wp_stage p' = MainReturned) \<longleftrightarrow> \<not> bound"
    using inv [OF rtranclp.rtrancl_refl] unbound_process_returns [of ?w s0 p js serialize d k] by (cases bound) auto
  have "balanced s {#} s0 (owned (dw_source ?w) + owned (dw_target ?w))"
    using writer_main_balanced [OF assms(1)] by simp
  then have "owed (sys_io (wp_system p)) = freed (sys_io (wp_system p))" if "wp_stage p = MainReturned"
    using inv [OF rtranclp.rtrancl_refl] that balanced_trans [of s "{#}" s0] balanced_from_start [OF assms(2)]
    by (fastforce simp: process_inv_def)
  moreover have "joining p" if "wp_stage p = JoinRetry"
    using inv [OF rtranclp.rtrancl_refl] that by (auto simp: joining_def process_inv_def)
  moreover have "returned p" if "wp_stage p = MainReturned"
    using inv [OF rtranclp.rtrancl_refl] that by (auto simp: returned_def process_inv_def)
  ultimately show ?thesis
    using returns stages_advance [of js serialize d k p] joining_bounded [of _ js serialize d k p] returned_final [of p js serialize d k]
    by blast
qed

text \<open>A process whose API port is taken can be shut down.\<close>

theorem shutdown_completes_iff_witness:
  "\<exists>sv s0 p'. dual_writer_main example_host example_yaml all_up [] io_start = (Serving sv, s0) \<and>
     (process_step example_doc (\<lambda>_. []) all_up (stream_socket :: bytes source_socket))\<^sup>*\<^sup>* (process_start sv s0 False) p' \<and>
     wp_stage p' = MainReturned"
proof -
  obtain sv s0 where m: "dual_writer_main example_host example_yaml all_up [] io_start = (Serving sv, s0)"
    and sess: "conn_session (dw_source (ws_writer sv)) \<noteq> conn_session (dw_target (ws_writer sv))"
    using example_service [OF all_up_def] by force
  show ?thesis
    using shutdown_completes_iff [OF m _ sess rtranclp.rtrancl_refl, of example_doc "\<lambda>_. []" stream_socket False] m
    by (auto simp: io_start_def)
qed

end
