(* ===== verification/Shipped_Config.thy ===== *)
theory Shipped_Config
  imports Command_Line Service_Startup
begin

text \<open>
  Document trees as an instance of the \<open>yaml_api\<close> parameter, some of the configuration files that the
  repository ships (\<open>config/sstable-loader.yaml\<close>, \<open>config/dual-reader.yaml\<close>, \<open>config/filter-rules.yaml\<close>,
  \<open>config/dual-writer-cassandra.yaml\<close>) as such trees with all their keys, and what the services make of
  them; where the credentials of a service come from.

  A scalar is its text, as in yaml-cpp; a null read as a string is the text \<open>null\<close>, as in version 0.8.0,
  which the build fetches. Floating-point numbers are not parsed: the only one in these files is the
  default of its key.
\<close>

section \<open>Definitions\<close>

datatype yaml_tree =
    YUndefined
  | YNull
  | YText string
  | YSeq "yaml_tree list"
  | YMap "(string \<times> yaml_tree) list"

fun tree_child :: "yaml_tree \<Rightarrow> string \<Rightarrow> yaml_tree" where
  "tree_child (YMap kvs) k = (case map_of kvs k of Some v \<Rightarrow> v | None \<Rightarrow> YUndefined)"
| "tree_child _ k = YUndefined"

fun tree_items :: "yaml_tree \<Rightarrow> yaml_tree list" where
  "tree_items (YSeq xs) = xs"
| "tree_items _ = []"

fun tree_string :: "yaml_tree \<Rightarrow> string option" where
  "tree_string (YText s) = Some s"
| "tree_string YNull = Some ''null''"
| "tree_string _ = None"

fun tree_number :: "nat \<Rightarrow> yaml_tree \<Rightarrow> nat option" where
  "tree_number bound (YText s) =
     (if s \<noteq> [] \<and> list_all is_digit s \<and> digits_value s < bound
      then Some (digits_value s) else None)"
| "tree_number bound _ = None"

fun tree_bool :: "yaml_tree \<Rightarrow> bool option" where
  "tree_bool (YText s) = (if s = ''true'' then Some True else if s = ''false'' then Some False else None)"
| "tree_bool _ = None"

definition tree_yaml :: "yaml_tree yaml_api" where
  "tree_yaml =
     \<lparr>y_defined = (\<lambda>n. n \<noteq> YUndefined),
      y_is_map = (\<lambda>n. case n of YMap _ \<Rightarrow> True | _ \<Rightarrow> False),
      y_is_sequence = (\<lambda>n. case n of YSeq _ \<Rightarrow> True | _ \<Rightarrow> False),
      y_is_scalar = (\<lambda>n. case n of YText _ \<Rightarrow> True | _ \<Rightarrow> False),
      y_is_null = (\<lambda>n. n = YNull),
      y_child = tree_child, y_items = tree_items, y_string = tree_string,
      y_u16 = (\<lambda>n. map_option of_nat (tree_number (2 ^ 16) n)),
      y_u32 = (\<lambda>n. map_option of_nat (tree_number (2 ^ 32) n)),
      y_u64 = (\<lambda>n. map_option of_nat (tree_number (2 ^ 64) n)),
      y_bool = tree_bool, y_float = (\<lambda>_. None)\<rparr>"

text \<open>A host with some files and no environment variables.\<close>

definition tree_host :: "(string \<rightharpoonup> yaml_tree) \<Rightarrow> yaml_tree host_env" where
  "tree_host files =
     \<lparr>file_exists = (\<lambda>p. files p \<noteq> None),
      load_file = (\<lambda>p. case files p of Some t \<Rightarrow> Inr t | None \<Rightarrow> Inl ''bad file''),
      getenv = (\<lambda>_. None)\<rparr>"

subsection \<open>The shipped files\<close>

definition texts :: "string list \<Rightarrow> yaml_tree" where
  "texts ss = YSeq (map YText ss)"

definition shipped_rules :: yaml_tree where
  "shipped_rules =
     YMap [(''filters'', YMap
       [(''tenant_blacklist'', texts [''e19206ba-c584-11e8-882a-0a580a30028e'', ''1297c8b6-3563-11e7-adf1-6c4008b85488'']),
        (''table_blacklist'', texts [''stats_keyspace.user_audit'', ''stats_keyspace.user_audit_partitioned'',
           ''jobs_keyspace.job_progress_model'', ''*.migrations'', ''*.celery_task_info'', ''assets_keyspace.cursors'']),
        (''reload_interval_secs'', YText ''60'')])]"

definition shipped_cluster :: "string list \<Rightarrow> string \<Rightarrow> string \<Rightarrow> (string \<times> yaml_tree) list \<Rightarrow> yaml_tree" where
  "shipped_cluster hosts keyspace pool extra =
     YMap ([(''driver'', YText ''scylla''), (''hosts'', texts hosts), (''port'', YText ''9042''),
            (''keyspace'', YText keyspace), (''pool_size'', YText pool)] @ extra)"

definition shipped_table :: "string \<Rightarrow> string \<Rightarrow> yaml_tree" where
  "shipped_table name key = YMap [(''name'', YText name), (''partition_key'', texts [key])]"

definition shipped_loader :: yaml_tree where
  "shipped_loader =
     YMap
       [(''source'', shipped_cluster [''scylla-source-1.gcp.example.com'', ''scylla-source-2.gcp.example.com'',
           ''scylla-source-3.gcp.example.com''] ''production_keyspace'' ''8''
           [(''username'', YNull), (''password'', YNull), (''connection_timeout_ms'', YText ''5000''),
            (''request_timeout_ms'', YText ''30000'')]),
        (''target'', shipped_cluster [''scylla-target-1.aws.example.com'', ''scylla-target-2.aws.example.com'',
           ''scylla-target-3.aws.example.com''] ''production_keyspace'' ''8''
           [(''username'', YNull), (''password'', YNull), (''connection_timeout_ms'', YText ''5000''),
            (''request_timeout_ms'', YText ''30000''), (''speculative_execution'', YText ''true''),
            (''speculative_delay_ms'', YText ''100'')]),
        (''loader'', YMap
           [(''tables'', YSeq [shipped_table ''users'' ''user_id'', shipped_table ''orders'' ''order_id'',
               shipped_table ''products'' ''product_id'']),
            (''num_ranges_per_core'', YText ''4''), (''max_concurrent_loaders'', YText ''32''),
            (''batch_size'', YText ''5000''), (''checkpoint_interval_secs'', YText ''60''),
            (''checkpoint_file'', YText ''/tmp/sstable-loader-checkpoint.json''),
            (''prefetch_rows'', YText ''10000''), (''compression'', YText ''true''),
            (''max_throughput_mbps'', YText ''1000''), (''max_retries'', YText ''3''),
            (''retry_delay_secs'', YText ''5''), (''skip_on_error'', YText ''false''),
            (''failed_rows_file'', YText ''failed_rows.jsonl''), (''insert_batch_size'', YText ''100''),
            (''insert_concurrency'', YText ''32''), (''enable_pagination'', YText ''false''),
            (''page_size'', YText ''5000''), (''page_retry_attempts'', YText ''3''),
            (''page_retry_backoff_ms'', YText ''500'')]),
        (''observability'', YMap [(''metrics_port'', YText ''9092''), (''log_level'', YText ''info''),
           (''jaeger_endpoint'', YNull)])]"

text \<open>\<open>dual-reader.yaml\<close>, with what its key \<open>enabled\<close> says.\<close>

definition shipped_reader :: "string \<Rightarrow> yaml_tree" where
  "shipped_reader enabled =
     YMap
       [(''source'', shipped_cluster [''scylla-source-1.gcp.example.com'', ''scylla-source-2.gcp.example.com'',
           ''scylla-source-3.gcp.example.com''] ''production_keyspace'' ''4''
           [(''username'', YNull), (''password'', YNull), (''connection_timeout_ms'', YText ''5000''),
            (''request_timeout_ms'', YText ''10000'')]),
        (''target'', shipped_cluster [''scylla-target-1.aws.example.com'', ''scylla-target-2.aws.example.com'',
           ''scylla-target-3.aws.example.com''] ''production_keyspace'' ''4''
           [(''username'', YNull), (''password'', YNull), (''connection_timeout_ms'', YText ''5000''),
            (''request_timeout_ms'', YText ''10000'')]),
        (''reader'', YMap
           [(''tables'', texts [''users'', ''orders'', ''products'']), (''validation_interval_secs'', YText ''300''),
            (''sample_rate'', YText ''0.01''), (''max_concurrent_reads'', YText ''10''), (''batch_size'', YText ''1000''),
            (''max_discrepancies_to_report'', YText ''100''), (''auto_reconcile'', YText ''false''),
            (''reconciliation_mode'', YText ''source_wins'')]),
        (''filter'', YMap
           [(''enabled'', YText enabled),
            (''compare_tables'', texts [''iconik.assets'', ''iconik.collections'', ''iconik.files'']),
            (''compare_system_domain_ids'', YSeq []), (''system_domain_id_column'', YText ''system_domain_id''),
            (''log_discrepancies'', YText ''true''), (''discrepancy_log_path'', YText ''discrepancies.jsonl'')]),
        (''observability'', YMap [(''metrics_port'', YText ''9091''), (''log_level'', YText ''info''),
           (''jaeger_endpoint'', YNull)])]"

text \<open>\<open>dual-writer-cassandra.yaml\<close> gives its timeouts in seconds.\<close>

definition shipped_cassandra :: yaml_tree where
  "shipped_cassandra =
     (let cluster = (\<lambda>hosts. YMap
        [(''driver'', YText ''cassandra''), (''hosts'', texts hosts), (''port'', YText ''9042''),
         (''keyspace'', YText ''iconik_production''), (''username'', YText ''cassandra_admin''),
         (''password'', YText ''secure_password''), (''connection_timeout_secs'', YText ''5''),
         (''request_timeout_secs'', YText ''10''), (''pool_size'', YText ''4'')])
      in YMap
        [(''source'', cluster [''gcp-cassandra-node-1.internal'', ''gcp-cassandra-node-2.internal'',
            ''gcp-cassandra-node-3.internal'']),
         (''target'', cluster [''aws-cassandra-node-1.internal'', ''aws-cassandra-node-2.internal'',
            ''aws-cassandra-node-3.internal'']),
         (''writer'', YMap [(''mode'', YText ''DualAsync''), (''shadow_timeout_ms'', YText ''5000''),
            (''retry_interval_secs'', YText ''60''), (''max_retry_attempts'', YText ''3''), (''batch_size'', YText ''100'')]),
         (''observability'', YMap [(''metrics_port'', YText ''9090''), (''log_level'', YText ''info''),
            (''jaeger_endpoint'', YNull)])])"

definition reader_files :: "string \<Rightarrow> string \<rightharpoonup> yaml_tree" where
  "reader_files enabled = [''config/dual-reader.yaml'' \<mapsto> shipped_reader enabled]"

definition shipped_files :: "string \<rightharpoonup> yaml_tree" where
  "shipped_files = map_of [(''config/sstable-loader.yaml'', shipped_loader), (''config/filter-rules.yaml'', shipped_rules)]"

definition shipped_loader_config :: loader_config where
  "shipped_loader_config = default_loader_config
     \<lparr>lc_tables := map (\<lambda>(t, k). \<lparr>tc_name = t, tc_partition_key = [k]\<rparr>)
        [(''users'', ''user_id''), (''orders'', ''order_id''), (''products'', ''product_id'')]\<rparr>"

definition production_cluster :: "string list \<Rightarrow> bool \<Rightarrow> database_config" where
  "production_cluster hosts speculative = default_database_config
     \<lparr>db_driver := ''scylla'', db_hosts := hosts, db_keyspace := ''production_keyspace'',
      db_username := Some ''null'', db_password := Some ''null'', db_speculative_execution := speculative\<rparr>"

section \<open>Lemmas\<close>

lemma tree_yaml_simps [simp]:
  "y_defined tree_yaml n \<longleftrightarrow> n \<noteq> YUndefined"
  "y_is_map tree_yaml n \<longleftrightarrow> (case n of YMap _ \<Rightarrow> True | _ \<Rightarrow> False)"
  "y_is_sequence tree_yaml n \<longleftrightarrow> (case n of YSeq _ \<Rightarrow> True | _ \<Rightarrow> False)"
  "y_is_scalar tree_yaml n \<longleftrightarrow> (case n of YText _ \<Rightarrow> True | _ \<Rightarrow> False)"
  "y_is_null tree_yaml n \<longleftrightarrow> n = YNull"
  "y_child tree_yaml = tree_child" "y_items tree_yaml = tree_items" "y_string tree_yaml = tree_string"
  "y_u16 tree_yaml n = map_option of_nat (tree_number (2 ^ 16) n)"
  "y_u32 tree_yaml n = map_option of_nat (tree_number (2 ^ 32) n)"
  "y_u64 tree_yaml n = map_option of_nat (tree_number (2 ^ 64) n)"
  "y_bool tree_yaml = tree_bool" "y_float tree_yaml n = None"
  by (simp_all add: tree_yaml_def)

lemma tree_strings [simp]: "y_strings tree_yaml (map YText ss) = Some ss"
  by (induction ss) simp_all

lemmas tree_simps = texts_def is_digit_def digits_value_def y_field_def y_field_strict_def y_string_list_def
  y_string_seq_def Let_def

lemma tree_host_loads:
  "files p = Some t \<Longrightarrow> t \<noteq> YUndefined \<Longrightarrow> t \<noteq> YNull \<Longrightarrow> load_yaml_root (tree_host files) tree_yaml p = Inr t"
  by (simp add: load_yaml_root_def tree_host_def)

lemma tree_host_credentials [simp]: "env_credentials (tree_host files) prefix c = c"
  by (simp add: env_credentials_def env_override_def tree_host_def)

lemma shipped_sections:
  "parse_database_config tree_yaml (tree_child shipped_loader ''source'') = Some (production_cluster
     [''scylla-source-1.gcp.example.com'', ''scylla-source-2.gcp.example.com'', ''scylla-source-3.gcp.example.com''] False)"
  "parse_database_config tree_yaml (tree_child shipped_loader ''target'') = Some (production_cluster
     [''scylla-target-1.aws.example.com'', ''scylla-target-2.aws.example.com'', ''scylla-target-3.aws.example.com''] True)"
  "parse_loader_config tree_yaml (tree_child shipped_loader ''loader'') = Some shipped_loader_config"
  "parse_observability_config tree_yaml (tree_child shipped_loader ''observability'') =
     Some (default_observability_config\<lparr>obs_jaeger_endpoint := Some ''null''\<rparr>)"
  by (simp_all add: shipped_loader_def shipped_cluster_def parse_database_config_def default_database_config_def
      production_cluster_def shipped_table_def parse_loader_config_def parse_table_config_def shipped_loader_config_def
      default_loader_config_def parse_observability_config_def default_observability_config_def tree_simps)

lemma shipped_loader_loads:
  "sstable_loader_from_yaml (tree_host shipped_files) tree_yaml ''config/sstable-loader.yaml'' =
     Inr \<lparr>slc_source = production_cluster [''scylla-source-1.gcp.example.com'', ''scylla-source-2.gcp.example.com'',
             ''scylla-source-3.gcp.example.com''] False,
          slc_target = production_cluster [''scylla-target-1.aws.example.com'', ''scylla-target-2.aws.example.com'',
             ''scylla-target-3.aws.example.com''] True,
          slc_loader = shipped_loader_config,
          slc_observability = default_observability_config\<lparr>obs_jaeger_endpoint := Some ''null''\<rparr>\<rparr>"
  unfolding sstable_loader_from_yaml_def
  by (subst tree_host_loads [of _ _ shipped_loader])
    (simp_all add: shipped_files_def shipped_sections, simp_all add: shipped_loader_def)

lemma shipped_rules_load:
  "ss_load_filter_config (tree_host shipped_files) tree_yaml ''config/filter-rules.yaml'' =
     Inr \<lparr>ss_cfg_tenant_blacklist = [''e19206ba-c584-11e8-882a-0a580a30028e'', ''1297c8b6-3563-11e7-adf1-6c4008b85488''],
          ss_cfg_table_blacklist = [''stats_keyspace.user_audit'', ''stats_keyspace.user_audit_partitioned'',
            ''jobs_keyspace.job_progress_model'', ''*.migrations'', ''*.celery_task_info'', ''assets_keyspace.cursors''],
          ss_cfg_tenant_id_columns = [''system_domain_id'']\<rparr>"
  unfolding ss_load_filter_config_def
  by (subst tree_host_loads [of _ _ shipped_rules])
    (simp_all add: shipped_files_def, simp_all add: shipped_rules_def tree_simps)

lemma shipped_reader_sections:
  "parse_database_config tree_yaml (tree_child (shipped_reader b) ''source'') = Some ((production_cluster
     [''scylla-source-1.gcp.example.com'', ''scylla-source-2.gcp.example.com'', ''scylla-source-3.gcp.example.com''] False)
       \<lparr>db_request_timeout_ms := 10000, db_pool_size := 4\<rparr>)"
  "parse_database_config tree_yaml (tree_child (shipped_reader b) ''target'') = Some ((production_cluster
     [''scylla-target-1.aws.example.com'', ''scylla-target-2.aws.example.com'', ''scylla-target-3.aws.example.com''] False)
       \<lparr>db_request_timeout_ms := 10000, db_pool_size := 4\<rparr>)"
  "parse_reader_config rate tree_yaml (tree_child (shipped_reader b) ''reader'') =
     Some ((default_reader_config rate)\<lparr>rc_tables := [''users'', ''orders'', ''products'']\<rparr>)"
  "dr_parse_filter_config tree_yaml (tree_child (shipped_reader b) ''filter'') =
     Some (default_dr_filter_config\<lparr>dr_cfg_enabled := b = ''true'',
       dr_cfg_compare_tables := [''iconik.assets'', ''iconik.collections'', ''iconik.files'']\<rparr>)"
  "parse_observability_config tree_yaml (tree_child (shipped_reader b) ''observability'') =
     Some (default_observability_config\<lparr>obs_metrics_port := 9091, obs_jaeger_endpoint := Some ''null''\<rparr>)"
  by (simp_all add: shipped_reader_def shipped_cluster_def parse_database_config_def default_database_config_def
      production_cluster_def parse_reader_config_def default_reader_config_def parse_reconciliation_mode_def
      dr_parse_filter_config_def default_dr_filter_config_def parse_observability_config_def
      default_observability_config_def tree_simps)

lemma shipped_reader_loads:
  "\<exists>c. dual_reader_from_yaml rate (tree_host (reader_files b)) tree_yaml ''config/dual-reader.yaml'' = Inr c \<and>
     rc_tables (drc_reader c) = [''users'', ''orders'', ''products''] \<and>
     (\<forall>t i. and_gate (drc_filter c) t i \<longleftrightarrow> b \<noteq> ''true'' \<or> t \<in> {''iconik.assets'', ''iconik.collections'', ''iconik.files''})"
  unfolding dual_reader_from_yaml_def
  by (subst tree_host_loads [of _ _ "shipped_reader b"])
    (simp_all add: reader_files_def shipped_reader_sections and_gate_def default_dr_filter_config_def,
     simp_all add: shipped_reader_def)

text \<open>Switching the shipped filter on excludes every table that the file lists for validation.\<close>

lemma shipped_reader_excludes_all:
  "\<exists>c. dual_reader_from_yaml rate (tree_host (reader_files ''true'')) tree_yaml ''config/dual-reader.yaml'' = Inr c \<and>
     (\<forall>t \<in> set (rc_tables (drc_reader c)). \<not> and_gate (drc_filter c) t [])"
  using shipped_reader_loads [of rate "''true''"] by auto

text \<open>The parser reads the timeouts under other names: requests time out after 30 seconds, not 10.\<close>

lemma shipped_cassandra_timeouts:
  "\<exists>c. parse_database_config tree_yaml (tree_child shipped_cassandra ''target'') = Some c \<and>
     db_connection_timeout_ms c = 5000 \<and> db_request_timeout_ms c = 30000"
  by (simp add: shipped_cassandra_def parse_database_config_def default_database_config_def tree_simps)

subsection \<open>Credentials\<close>

lemma y_field_string:
  assumes "y_field_strict y (\<lambda>m. map_option Some (y_string y m)) n k None = Some v"
  shows "v = (if y_defined y (y_child y n k) then y_string y (y_child y n k) else None)"
    "v = None \<longleftrightarrow> \<not> y_defined y (y_child y n k)"
  using assms by (auto simp: y_field_strict_def split: if_splits)

text \<open>A credential that the section of a file gives, if it does.\<close>

definition written_credential :: "'n yaml_api \<Rightarrow> 'n \<Rightarrow> string \<Rightarrow> string option" where
  "written_credential y n k =
     (if y_defined y n \<and> y_is_map y n \<and> y_defined y (y_child y n k) then y_string y (y_child y n k) else None)"

lemma parse_database_credentials:
  assumes "parse_database_config y n = Some c"
  shows "db_username c = written_credential y n ''username'' \<and> db_password c = written_credential y n ''password''"
  using assms
  by (auto simp: parse_database_config_def default_database_config_def written_credential_def Let_def
      dest!: y_field_string(1) split: if_splits option.splits)

lemma parse_database_no_credential:
  assumes "parse_database_config y n = Some c" "y_defined y n" "y_is_map y n"
  shows "(db_username c = None \<longleftrightarrow> \<not> y_defined y (y_child y n ''username'')) \<and>
    (db_password c = None \<longleftrightarrow> \<not> y_defined y (y_child y n ''password''))"
  using assms
  by (auto simp: parse_database_config_def Let_def dest: y_field_string(2) split: option.splits)

definition login :: "'n host_env \<Rightarrow> 'n yaml_api \<Rightarrow> 'n \<Rightarrow> string \<Rightarrow> string \<Rightarrow> string option \<times> string option" where
  "login h y n prefix section_key =
     (case getenv h (prefix @ ''_USERNAME'') of Some v \<Rightarrow> Some v
      | None \<Rightarrow> written_credential y (y_child y n section_key) ''username'',
      case getenv h (prefix @ ''_PASSWORD'') of Some v \<Rightarrow> Some v
      | None \<Rightarrow> written_credential y (y_child y n section_key) ''password'')"

abbreviation credentials :: "database_config \<Rightarrow> string option \<times> string option" where
  "credentials c \<equiv> (db_username c, db_password c)"

lemma env_login:
  "parse_database_config y (y_child y n section_key) = Some c \<Longrightarrow>
   credentials (env_credentials h prefix c) = login h y n prefix section_key"
  using parse_database_credentials [of y "y_child y n section_key" c]
  by (simp add: env_credentials_def env_override_def login_def)

section \<open>Properties\<close>

text \<open>C30. Where the credentials of a service come from: for every service, cluster and credential, the
  environment variable of the service decides when it is set, otherwise the section of the file,
  and a credential written in the file, null included, is never treated as missing; only a key that
  is not there gives none.\<close>

theorem credentials_precedence:
  assumes "load_yaml_root h y path = Inr doc"
  shows "(\<forall>c. dual_writer_from_yaml h y path = Inr c \<longrightarrow>
      credentials (dwc_source c) = login h y doc ''DUAL_WRITER_SOURCE'' ''source'' \<and>
      credentials (dwc_target c) = login h y doc ''DUAL_WRITER_TARGET'' ''target'') \<and>
    (\<forall>c. sstable_loader_from_yaml h y path = Inr c \<longrightarrow>
      credentials (slc_source c) = login h y doc ''SSTABLE_LOADER_SOURCE'' ''source'' \<and>
      credentials (slc_target c) = login h y doc ''SSTABLE_LOADER_TARGET'' ''target'') \<and>
    (\<forall>c. dual_reader_from_yaml rate h y path = Inr c \<longrightarrow>
      credentials (drc_source c) = login h y doc ''DUAL_READER_SOURCE'' ''source'' \<and>
      credentials (drc_target c) = login h y doc ''DUAL_READER_TARGET'' ''target'') \<and>
    (\<forall>n c. parse_database_config y n = Some c \<longrightarrow> y_defined y n \<longrightarrow> y_is_map y n \<longrightarrow>
      (db_username c = None \<longleftrightarrow> \<not> y_defined y (y_child y n ''username'')) \<and>
      (db_password c = None \<longleftrightarrow> \<not> y_defined y (y_child y n ''password'')))"
proof (intro conjI)
  show "\<forall>c. dual_writer_from_yaml h y path = Inr c \<longrightarrow>
      credentials (dwc_source c) = login h y doc ''DUAL_WRITER_SOURCE'' ''source'' \<and>
      credentials (dwc_target c) = login h y doc ''DUAL_WRITER_TARGET'' ''target''"
    using assms env_login by (auto simp: dual_writer_from_yaml_def Let_def split: if_splits option.splits)
  show "\<forall>c. sstable_loader_from_yaml h y path = Inr c \<longrightarrow>
      credentials (slc_source c) = login h y doc ''SSTABLE_LOADER_SOURCE'' ''source'' \<and>
      credentials (slc_target c) = login h y doc ''SSTABLE_LOADER_TARGET'' ''target''"
    using assms env_login by (auto simp: sstable_loader_from_yaml_def split: if_splits option.splits)
  show "\<forall>c. dual_reader_from_yaml rate h y path = Inr c \<longrightarrow>
      credentials (drc_source c) = login h y doc ''DUAL_READER_SOURCE'' ''source'' \<and>
      credentials (drc_target c) = login h y doc ''DUAL_READER_TARGET'' ''target''"
    using assms env_login by (auto simp: dual_reader_from_yaml_def split: if_splits option.splits)
  show "\<forall>n c. parse_database_config y n = Some c \<longrightarrow> y_defined y n \<longrightarrow> y_is_map y n \<longrightarrow>
      (db_username c = None \<longleftrightarrow> \<not> y_defined y (y_child y n ''username'')) \<and>
      (db_password c = None \<longleftrightarrow> \<not> y_defined y (y_child y n ''password''))"
    by (intro allI impI, rule parse_database_no_credential)
qed

text \<open>The shipped file of the loader says \<open>username: null\<close>: the loader logs in as \<open>null\<close>.\<close>

theorem credentials_precedence_witness:
  "\<exists>c. sstable_loader_from_yaml (tree_host shipped_files) tree_yaml ''config/sstable-loader.yaml'' = Inr c \<and>
     credentials (slc_source c) = (Some ''null'', Some ''null'') \<and>
     login (tree_host shipped_files) tree_yaml shipped_loader ''SSTABLE_LOADER_SOURCE'' ''source'' =
       credentials (slc_source c)"
proof -
  have "load_yaml_root (tree_host shipped_files) tree_yaml ''config/sstable-loader.yaml'' = Inr shipped_loader"
    by (rule tree_host_loads) (simp_all add: shipped_files_def shipped_loader_def)
  from credentials_precedence [OF this] show ?thesis
    by (simp add: shipped_loader_loads production_cluster_def)
qed

end
