(* ===== verification/Reader_Process.thy ===== *)
theory Reader_Process
  imports Service_Startup Service_Api Shipped_Config
begin

text \<open>
  The running dual-reader process: \<open>main\<close> of \<open>services/dual-reader/src/main.cpp\<close> from the threads
  it starts to its return.

  The event loop has one thread. It runs the validation coroutine until that waits for its timer,
  so a signal is handled between two rounds only. The API thread answers HTTP requests at any time,
  here between two tables of a round; it shares the reader and its metrics. \<open>bound\<close> says whether
  \<open>svr.listen\<close> could bind its port: the destructor of the API thread then waits for ever.
\<close>

section \<open>Definitions\<close>

text \<open>Where the process is: the tables left of a round, the wait for the timer (or for the first
  round), the destructor of the API thread, the end.\<close>

datatype reader_stage = Round "string list" | Waiting | JoinReaderApi | ReaderReturned

record 'w reader_process =
  rp_reader :: dual_reader
  rp_io :: "'w io"
  rp_stage :: reader_stage
  rp_api :: bool

definition reader_process_start :: "reader_service \<Rightarrow> 'w io \<Rightarrow> bool \<Rightarrow> 'w reader_process" where
  "reader_process_start sv s bound =
     \<lparr>rp_reader = rv_reader sv, rp_io = s, rp_stage = Waiting, rp_api = bound\<rparr>"

inductive reader_process_step ::
  "('j, 'm) json_doc_scheme \<Rightarrow> (metrics_registry \<Rightarrow> string) \<Rightarrow> 'w driver
   \<Rightarrow> 'w reader_process \<Rightarrow> 'w reader_process \<Rightarrow> bool" for js serialize d where
  round_starts:
    "rp_stage p = Waiting \<Longrightarrow>
     reader_process_step js serialize d p
       (p\<lparr>rp_stage := Round (rc_tables (drc_reader (rd_config (rp_reader p))))\<rparr>)"
| table_validated:
    "rp_stage p = Round (t # ts) \<Longrightarrow>
     reader_validate_table now secs d t (rp_reader p) (rp_io p) = (out, r, s) \<Longrightarrow>
     reader_process_step js serialize d p (p\<lparr>rp_reader := r, rp_io := s, rp_stage := Round ts\<rparr>)"
| round_ends:
    "rp_stage p = Round [] \<Longrightarrow> reader_process_step js serialize d p (p\<lparr>rp_stage := Waiting\<rparr>)"
| reader_request:
    "rp_api p \<Longrightarrow> reader_api js serialize (rd_metrics (rp_reader p)) req (rp_reader p) = (answer, r) \<Longrightarrow>
     reader_process_step js serialize d p (p\<lparr>rp_reader := r\<rparr>)"
| reader_signal:
    "rp_stage p = Waiting \<Longrightarrow> reader_process_step js serialize d p (p\<lparr>rp_stage := JoinReaderApi\<rparr>)"
| reader_api_joined:
    "rp_stage p = JoinReaderApi \<Longrightarrow> \<not> rp_api p \<Longrightarrow>
     reader_process_step js serialize d p
       (p\<lparr>rp_stage := ReaderReturned,
          rp_io := conn_destroy d (rd_source (rp_reader p)) (conn_destroy d (rd_target (rp_reader p)) (rp_io p))\<rparr>)"

inductive_cases reader_process_stepE: "reader_process_step js serialize d p p'"

section \<open>Lemmas\<close>

lemma validate_calls:
  "io_calls (snd (snd (reader_validate_table now secs d t r s))) = io_calls s @
     (if gate_skips r t [] then []
      else exec_calls (rd_source r) (select_all t) @
        (if isl (fst (conn_execute d (rd_source r) (select_all t) s)) then []
         else exec_calls (rd_target r) (select_all t)))"
proof -
  obtain src s1 where src: "conn_execute d (rd_source r) (select_all t) s = (src, s1)" by force
  obtain tgt s2 where tgt: "conn_execute d (rd_target r) (select_all t) s1 = (tgt, s2)" by force
  show ?thesis
    using io_calls_executeD [OF src] io_calls_executeD [OF tgt] src tgt
    by (cases src; cases tgt)
      (simp_all add: reader_validate_table_def Let_def case_prod_beta reader_gate_decides frame_simps)
qed

text \<open>What the steps never change of a reader.\<close>

definition same_reader :: "dual_reader \<Rightarrow> dual_reader \<Rightarrow> bool" where
  "same_reader r r' \<longleftrightarrow>
     rd_config r' = rd_config r \<and> rd_source r' = rd_source r \<and> rd_target r' = rd_target r \<and>
     rd_discrepancies r' = rd_discrepancies r \<and> (\<forall>t i. gate_skips r' t i = gate_skips r t i)"

lemma same_reader_refl [simp]: "same_reader r r"
  by (simp add: same_reader_def)

lemma same_reader_trans: "same_reader r r' \<Longrightarrow> same_reader r' r'' \<Longrightarrow> same_reader r r''"
  by (simp add: same_reader_def)

lemma validate_keeps_connections [frame_simps]:
  "rd_source (fst (snd (reader_validate_table now secs d t r s))) = rd_source r"
  "rd_target (fst (snd (reader_validate_table now secs d t r s))) = rd_target r"
  by (simp_all add: reader_validate_table_def Let_def case_prod_beta frame_simps split: sum.splits)

lemma validate_same_reader: "same_reader r (fst (snd (reader_validate_table now secs d t r s)))"
  by (simp add: same_reader_def frame_simps validate_keeps_discrepancies)

lemma reader_api_same:
  assumes "reader_api js serialize mtr req r = (answer, r')" "rd_discrepancies r = []"
  shows "r' = r"
  using assms by (auto simp: reader_api_def clear_discrepancies_def split: if_splits)

text \<open>The calls that a reader may make: a selection of one of its tables that the gate lets pass,
  on the target only when the source was sent it before.\<close>

definition select_ok :: "dual_reader \<Rightarrow> cass_call list \<Rightarrow> cass_call \<Rightarrow> bool" where
  "select_ok r pre c \<longleftrightarrow>
     (\<exists>t x. c = SessionExecute x (select_all t) \<and> t \<in> set (rc_tables (drc_reader (rd_config r))) \<and>
        \<not> gate_skips r t [] \<and>
        (conn_session (rd_source r) = Some x \<or>
         conn_session (rd_target r) = Some x \<and>
         (\<exists>y. conn_session (rd_source r) = Some y \<and> SessionExecute y (select_all t) \<in> set pre)))"

definition reads_ok :: "dual_reader \<Rightarrow> cass_call list \<Rightarrow> bool" where
  "reads_ok r cs \<longleftrightarrow> (\<forall>pre c post. cs = pre @ c # post \<longrightarrow> (\<exists>x q. c = SessionExecute x q) \<longrightarrow> select_ok r pre c)"

lemma reads_ok_snoc:
  "reads_ok r cs \<Longrightarrow> (\<forall>x q. c = SessionExecute x q \<longrightarrow> select_ok r cs c) \<Longrightarrow> reads_ok r (cs @ [c])"
  by (auto simp: reads_ok_def append_eq_append_conv2 append_eq_Cons_conv Cons_eq_append_conv)

lemma reads_ok_other:
  "reads_ok r cs \<Longrightarrow> \<forall>c \<in> set new. \<forall>x q. c \<noteq> SessionExecute x q \<Longrightarrow> reads_ok r (cs @ new)"
proof (induction new rule: rev_induct)
  case (snoc c new)
  then show ?case using reads_ok_snoc [of r "cs @ new" c] by simp
qed simp

lemma exec_calls_cases:
  obtains "exec_calls c q = []" | x where "conn_session c = Some x" "exec_calls c q = [SessionExecute x q]"
proof (cases "live c")
  case True
  then obtain x where "conn_session c = Some x" by (auto simp: live_def)
  with True show ?thesis using that(2) [of x] by (simp add: exec_calls_def)
qed (use that(1) in \<open>simp add: exec_calls_def\<close>)

lemma validate_reads_ok:
  assumes "reads_ok r (io_calls s)" "t \<in> set (rc_tables (drc_reader (rd_config r)))"
    and "conn_session (rd_source r) \<noteq> None"
  shows "reads_ok r (io_calls (snd (snd (reader_validate_table now secs d t r s))))"
proof (cases "gate_skips r t []")
  case True
  then show ?thesis using assms(1) by (simp add: validate_calls)
next
  case False
  obtain y where y: "conn_session (rd_source r) = Some y" using assms(3) by blast
  let ?q = "select_all t" and ?cs = "io_calls s"
  have source: "reads_ok r (?cs @ exec_calls (rd_source r) ?q)"
    using reads_ok_snoc [OF assms(1), of "SessionExecute y ?q"] assms(1,2) False y
    by (auto simp: exec_calls_def select_ok_def)
  show ?thesis
  proof (cases "isl (fst (conn_execute d (rd_source r) ?q s))")
    case True
    with source False show ?thesis by (simp add: validate_calls)
  next
    case up: False
    then have "SessionExecute y ?q \<in> set (?cs @ exec_calls (rd_source r) ?q)"
      using y by (auto simp: conn_execute_def live_def exec_calls_def split: if_splits)
    then have "select_ok r (?cs @ exec_calls (rd_source r) ?q) (SessionExecute x ?q)"
      if "conn_session (rd_target r) = Some x" for x
      using assms(2) False y that by (auto simp: select_ok_def)
    then have "reads_ok r ((?cs @ exec_calls (rd_source r) ?q) @ exec_calls (rd_target r) ?q)"
      using source reads_ok_snoc [OF source] by (cases rule: exec_calls_cases [of "rd_target r" ?q]) auto
    with False up show ?thesis by (simp add: validate_calls)
  qed
qed

lemma select_ok_same: "same_reader r r' \<Longrightarrow> select_ok r' = select_ok r"
  by (simp add: same_reader_def select_ok_def fun_eq_iff)

lemma reads_ok_same: "same_reader r r' \<Longrightarrow> reads_ok r' = reads_ok r"
  using select_ok_same [of r r'] by (simp add: reads_ok_def fun_eq_iff)

subsection \<open>The invariant of the process\<close>

definition reader_process_inv :: "dual_reader \<Rightarrow> 'w io \<Rightarrow> bool \<Rightarrow> 'w reader_process \<Rightarrow> bool" where
  "reader_process_inv r s0 bound p \<longleftrightarrow>
     same_reader r (rp_reader p) \<and> reads_ok r (io_calls (rp_io p)) \<and> rp_api p = bound \<and>
     (bound \<longrightarrow> rp_stage p \<noteq> ReaderReturned) \<and>
     (\<forall>ts. rp_stage p = Round ts \<longrightarrow> set ts \<subseteq> set (rc_tables (drc_reader (rd_config r)))) \<and>
     balanced s0 (owned (rd_source r) + owned (rd_target r)) (rp_io p)
       (if rp_stage p = ReaderReturned then {#} else owned (rd_source r) + owned (rd_target r))"

lemma reader_process_inv_start:
  assumes "\<forall>x q. SessionExecute x q \<notin> set (io_calls s)" "rv_reader sv = r"
  shows "reader_process_inv r s bound (reader_process_start sv s bound)"
proof -
  have "reads_ok r ([] @ io_calls s)"
    by (rule reads_ok_other) (use assms(1) in \<open>auto simp: reads_ok_def\<close>)
  then show ?thesis
    using assms(2) by (simp add: reader_process_inv_def reader_process_start_def)
qed

lemma validate_balanced:
  "balanced s own (snd (snd (reader_validate_table now secs d t r s))) own"
  by (intro executes_balanced executesI [OF validate_calls]) (auto simp: exec_calls_def)

lemma reader_process_inv_step:
  assumes "reader_process_step js serialize d p p'" "reader_process_inv r s0 bound p"
    and "rd_discrepancies r = []" "conn_session (rd_source r) \<noteq> None"
  shows "reader_process_inv r s0 bound p'"
  using assms(1,2)
proof (induction rule: reader_process_step.induct)
  case (round_starts p)
  then show ?case by (auto simp: reader_process_inv_def same_reader_def)
next
  case (table_validated p t ts now secs out r' s')
  have r': "r' = fst (snd (reader_validate_table now secs d t (rp_reader p) (rp_io p)))"
    and s': "s' = snd (snd (reader_validate_table now secs d t (rp_reader p) (rp_io p)))"
    using table_validated(2) by simp_all
  have same: "same_reader r (rp_reader p)" and t: "t \<in> set (rc_tables (drc_reader (rd_config r)))"
    and old: "reads_ok r (io_calls (rp_io p))"
    using table_validated by (auto simp: reader_process_inv_def)
  have "reads_ok (rp_reader p) (io_calls s')"
    unfolding s' using same t old assms(4)
    by (intro validate_reads_ok) (simp_all add: reads_ok_same [OF same], simp_all add: same_reader_def)
  then have "reads_ok r (io_calls s')" by (simp add: reads_ok_same [OF same])
  moreover have "same_reader r r'"
    unfolding r' by (rule same_reader_trans [OF same validate_same_reader])
  moreover have "balanced s0 (owned (rd_source r) + owned (rd_target r)) s' (owned (rd_source r) + owned (rd_target r))"
    using table_validated unfolding s' reader_process_inv_def by (auto intro: balanced_trans [OF _ validate_balanced])
  ultimately show ?case
    using table_validated by (auto simp: reader_process_inv_def)
next
  case (round_ends p)
  then show ?case by (auto simp: reader_process_inv_def)
next
  case (reader_request p req answer r')
  then have "r' = rp_reader p"
    using reader_api_same [OF reader_request(2)] assms(3) by (simp add: reader_process_inv_def same_reader_def)
  with reader_request show ?case by simp
next
  case (reader_signal p)
  then show ?case by (auto simp: reader_process_inv_def)
next
  case (reader_api_joined p)
  let ?s1 = "conn_destroy d (rd_target r) (rp_io p)"
  have same: "rd_source (rp_reader p) = rd_source r" "rd_target (rp_reader p) = rd_target r"
    using reader_api_joined by (simp_all add: reader_process_inv_def same_reader_def)
  have "balanced s0 (owned (rd_source r) + owned (rd_target r)) ?s1 (owned (rd_source r))"
    using reader_api_joined balanced_trans [OF _ balanced_destroy [of "rp_io p" "rd_target r" "owned (rd_source r)" d]]
    by (simp add: reader_process_inv_def add.commute)
  then have bal: "balanced s0 (owned (rd_source r) + owned (rd_target r)) (conn_destroy d (rd_source r) ?s1) {#}"
    using balanced_trans balanced_destroy [of ?s1 "rd_source r" "{#}" d] by fastforce
  have "reads_ok r (io_calls (conn_destroy d c s))" if "reads_ok r (io_calls s)" for c s
  proof -
    obtain new where "io_calls (conn_destroy d c s) = io_calls s @ new" "\<forall>c \<in> set new. \<forall>x q. c \<noteq> SessionExecute x q"
      using io_calls_destroy [of d c s] by (fastforce split: option.splits if_splits)
    with that show ?thesis by (simp add: reads_ok_other)
  qed
  with reader_api_joined bal same show ?case by (simp add: reader_process_inv_def)
qed

lemma reader_process_run_inv:
  assumes "(reader_process_step js serialize d)\<^sup>*\<^sup>* p p'" "reader_process_inv r s0 bound p"
    and "rd_discrepancies r = []" "conn_session (rd_source r) \<noteq> None"
  shows "reader_process_inv r s0 bound p'"
  using assms(1) by (induction rule: rtranclp_induct) (use assms(2-4) reader_process_inv_step in blast)+

subsection \<open>From the command line to the threads\<close>

lemma reader_main_facts:
  assumes "dual_reader_main rate h y d argv s = (Serving sv, s0)" "io_calls s = []"
  shows "reader_process_inv (rv_reader sv) s0 bound (reader_process_start sv s0 bound)"
    "rd_discrepancies (rv_reader sv) = []" "conn_session (rd_source (rv_reader sv)) \<noteq> None"
    "dual_reader_from_yaml rate h y (ra_config_path (rv_args sv)) = Inr (rd_config (rv_reader sv))"
    "gate_skips (rv_reader sv) t i \<longleftrightarrow> \<not> and_gate (drc_filter (rd_config (rv_reader sv))) t i"
proof -
  have "conn_session (rd_source (rv_reader sv)) \<noteq> None \<and> rd_discrepancies (rv_reader sv) = [] \<and>
      dual_reader_from_yaml rate h y (ra_config_path (rv_args sv)) = Inr (rd_config (rv_reader sv)) \<and>
      rd_filter (rv_reader sv) = Some (dr_governor_new (drc_filter (rd_config (rv_reader sv)))) \<and> makes_no_execute s s0"
    using assms(1)
    by (auto simp: dual_reader_main_def dual_reader_new_def Let_def dest: connect_clusters_facts
        split: option.splits sum.splits prod.splits)
  then show "rd_discrepancies (rv_reader sv) = []" "conn_session (rd_source (rv_reader sv)) \<noteq> None"
    "dual_reader_from_yaml rate h y (ra_config_path (rv_args sv)) = Inr (rd_config (rv_reader sv))"
    "gate_skips (rv_reader sv) t i \<longleftrightarrow> \<not> and_gate (drc_filter (rd_config (rv_reader sv))) t i"
    "reader_process_inv (rv_reader sv) s0 bound (reader_process_start sv s0 bound)"
    using assms(2) reader_process_inv_start [of s0 sv "rv_reader sv" bound]
    by (auto simp: gate_skips_def and_gate_def dr_governor_new_def dr_is_enabled_def makes_no_execute_def)
qed

subsection \<open>Shutdown\<close>

lemma round_completes:
  assumes "rp_stage p = Round ts"
  shows "\<exists>p'. (reader_process_step js serialize d)\<^sup>*\<^sup>* p p' \<and> rp_stage p' = Waiting \<and> rp_api p' = rp_api p"
  using assms
proof (induction ts arbitrary: p)
  case Nil
  show ?case by - (rule exI, rule conjI, rule r_into_rtranclp, rule round_ends [OF Nil], simp)
next
  case (Cons t ts)
  obtain out r s where run: "reader_validate_table 0 0 d t (rp_reader p) (rp_io p) = (out, r, s)" by (metis prod_cases3)
  let ?p1 = "p\<lparr>rp_reader := r, rp_io := s, rp_stage := Round ts\<rparr>"
  have step: "reader_process_step js serialize d p ?p1" by (rule table_validated [OF Cons.prems run])
  obtain p' where "(reader_process_step js serialize d)\<^sup>*\<^sup>* ?p1 p'" "rp_stage p' = Waiting" "rp_api p' = rp_api p"
    using Cons.IH [of ?p1] by auto
  with step show ?case by (metis converse_rtranclp_into_rtranclp)
qed

lemma unbound_reader_returns:
  assumes "\<not> rp_api p"
  shows "\<exists>p'. (reader_process_step js serialize d)\<^sup>*\<^sup>* p p' \<and> rp_stage p' = ReaderReturned"
proof -
  let ?goal = "\<lambda>p. \<exists>p'. (reader_process_step js serialize d)\<^sup>*\<^sup>* p p' \<and> rp_stage p' = ReaderReturned"
  have step: "?goal p" if "reader_process_step js serialize d p p'" "?goal p'" for p p' :: "'a reader_process"
    using that converse_rtranclp_into_rtranclp by metis
  have join: "?goal p" if "rp_stage p = JoinReaderApi" "\<not> rp_api p" for p :: "'a reader_process"
    by - (rule exI, rule conjI, rule r_into_rtranclp, rule reader_api_joined [OF that], simp)
  have wait: "?goal p" if "rp_stage p = Waiting" "\<not> rp_api p" for p :: "'a reader_process"
    by (rule step [OF reader_signal [OF that(1)] join]) (simp_all add: that)
  show ?thesis
  proof (cases "rp_stage p")
    case (Round ts)
    then obtain p1 where "(reader_process_step js serialize d)\<^sup>*\<^sup>* p p1" "rp_stage p1 = Waiting" "rp_api p1 = rp_api p"
      using round_completes by blast
    with wait [of p1] assms show ?thesis by (metis rtranclp_trans)
  qed (use assms wait join in blast)+
qed

subsection \<open>Example\<close>

text \<open>The shipped configuration, all clusters up.\<close>

lemma shipped_reader_serves:
  "\<exists>sv s0. dual_reader_main rate (tree_host (reader_files ''false'')) tree_yaml (scripted_driver (\<lambda>_ _ _. None)) []
       io_start = (Serving sv, s0) \<and>
     live (rd_source (rv_reader sv)) \<and> conn_session (rd_source (rv_reader sv)) = Some 1 \<and>
     live (rd_target (rv_reader sv)) \<and> conn_session (rd_target (rv_reader sv)) = Some 4 \<and>
     rc_tables (drc_reader (rd_config (rv_reader sv))) = [''users'', ''orders'', ''products'']"
proof -
  obtain c where c: "dual_reader_from_yaml rate (tree_host (reader_files ''false'')) tree_yaml ''config/dual-reader.yaml'' = Inr c"
    "rc_tables (drc_reader c) = [''users'', ''orders'', ''products'']"
    using shipped_reader_loads [of rate "''false''"] by blast
  then show ?thesis
    by (simp add: dual_reader_main_def parse_reader_args_def default_reader_args_def dual_reader_new_def
        connect_clusters_def conn_new_def conn_connect_def scripted_driver_def io_start_def live_def Let_def)
qed

section \<open>Properties\<close>

text \<open>C16. The dual reader never writes and reads only what it is configured to compare: from its
  command line on, whoever calls the HTTP API, however rounds, requests and signals interleave and
  however the clusters answer, every statement it executes is the selection of a configured table
  that passes the AND gate of its filter, on the source's session, or on the target's after the
  source was sent the same; and it never holds a discrepancy.\<close>

theorem reader_process_reads:
  assumes "dual_reader_main rate h y d argv s = (Serving sv, s0)" "io_calls s = []"
    and "(reader_process_step js serialize d)\<^sup>*\<^sup>* (reader_process_start sv s0 bound) p"
  shows "get_discrepancies (rp_reader p) = [] \<and>
    (\<forall>pre x q post. io_calls (rp_io p) = pre @ SessionExecute x q # post \<longrightarrow>
      (\<exists>config t source. dual_reader_from_yaml rate h y (ra_config_path (rv_args sv)) = Inr config \<and>
         t \<in> set (rc_tables (drc_reader config)) \<and> and_gate (drc_filter config) t [] \<and> q = ''SELECT * FROM '' @ t \<and>
         conn_session (rd_source (rv_reader sv)) = Some source \<and>
         (x = source \<or> conn_session (rd_target (rv_reader sv)) = Some x \<and> SessionExecute source q \<in> set pre)))"
proof -
  let ?r = "rv_reader sv"
  note main = reader_main_facts [OF assms(1,2)]
  have inv: "reader_process_inv ?r s0 bound p"
    by (rule reader_process_run_inv [OF assms(3) main(1,2,3)])
  then have "select_ok ?r pre (SessionExecute x q)" if "io_calls (rp_io p) = pre @ SessionExecute x q # post" for pre x q post
    using that by (auto simp: reader_process_inv_def reads_ok_def)
  moreover have "get_discrepancies (rp_reader p) = []"
    using inv main(2) by (simp add: reader_process_inv_def same_reader_def get_discrepancies_def)
  ultimately show ?thesis
    using main(3-5) by (fastforce simp: select_ok_def select_all_def)
qed

text \<open>The first table of the shipped configuration is read on both clusters.\<close>

theorem reader_process_reads_witness:
  "\<exists>sv s0 p pre. dual_reader_main 0 (tree_host (reader_files ''false'')) tree_yaml (scripted_driver (\<lambda>_ _ _. None)) []
       io_start = (Serving sv, s0) \<and>
     (reader_process_step example_doc (\<lambda>_. []) (scripted_driver (\<lambda>_ _ _. None)))\<^sup>*\<^sup>* (reader_process_start sv s0 True) p \<and>
     io_calls (rp_io p) = pre @ [SessionExecute 4 ''SELECT * FROM users''] \<and>
     SessionExecute 1 ''SELECT * FROM users'' \<in> set pre"
proof -
  let ?d = "scripted_driver (\<lambda>_ _ _. None) :: nat driver" and ?h = "tree_host (reader_files ''false'')"
  let ?step = "reader_process_step example_doc (\<lambda>_. []) ?d"
  obtain sv s0 where m: "dual_reader_main 0 ?h tree_yaml ?d [] io_start = (Serving sv, s0)"
    and src: "live (rd_source (rv_reader sv))" "conn_session (rd_source (rv_reader sv)) = Some 1"
    and tgt: "live (rd_target (rv_reader sv))" "conn_session (rd_target (rv_reader sv)) = Some 4"
    and ts: "rc_tables (drc_reader (rd_config (rv_reader sv))) = [''users'', ''orders'', ''products'']"
    using shipped_reader_serves [of 0] by blast
  note main = reader_main_facts [OF m]
  obtain c where c: "dual_reader_from_yaml 0 ?h tree_yaml ''config/dual-reader.yaml'' = Inr c" "\<forall>t i. and_gate (drc_filter c) t i"
    using shipped_reader_loads [of 0 "''false''"] by auto
  have "ra_config_path (rv_args sv) = ''config/dual-reader.yaml''"
    using m by (auto simp: dual_reader_main_def parse_reader_args_def default_reader_args_def Let_def
        split: sum.splits prod.splits)
  then have gate: "\<not> gate_skips (rv_reader sv) ''users'' []"
    using main(4,5) c by (simp add: io_start_def)
  obtain out r s where run: "reader_validate_table 0 0 ?d ''users'' (rv_reader sv) s0 = (out, r, s)" by (metis prod_cases3)
  let ?p0 = "reader_process_start sv s0 True"
  let ?p1 = "?p0\<lparr>rp_stage := Round [''users'', ''orders'', ''products'']\<rparr>"
  let ?p2 = "?p1\<lparr>rp_reader := r, rp_io := s, rp_stage := Round [''orders'', ''products'']\<rparr>"
  have p0: "rp_stage ?p0 = Waiting" "rp_reader ?p0 = rv_reader sv" "rp_io ?p0 = s0"
    by (simp_all add: reader_process_start_def)
  have "?step ?p0 ?p1" using round_starts [OF p0(1)] by (simp only: p0 ts)
  moreover have "?step ?p1 ?p2" by (rule table_validated [where t = "''users''" and now = 0 and secs = 0 and out = out]) (simp_all add: p0 run)
  ultimately have steps: "?step\<^sup>*\<^sup>* ?p0 ?p2" by (meson converse_rtranclp_into_rtranclp r_into_rtranclp)
  have "\<not> isl (fst (conn_execute ?d (rd_source (rv_reader sv)) (select_all ''users'') s0))"
    using src by (simp add: conn_execute_live scripted_driver_def)
  then have calls: "io_calls (rp_io ?p2) =
      (io_calls s0 @ [SessionExecute 1 ''SELECT * FROM users'']) @ SessionExecute 4 ''SELECT * FROM users'' # []"
    using validate_calls [of 0 0 ?d "''users''" "rv_reader sv" s0] gate src tgt
    by (simp add: run exec_calls_def select_all_def)
  then have "SessionExecute 1 ''SELECT * FROM users'' \<in> set (io_calls s0 @ [SessionExecute 1 ''SELECT * FROM users''])"
    using conjunct2 [OF reader_process_reads [OF m _ steps]] src tgt by (fastforce simp: io_start_def)
  with m steps calls show ?thesis by blast
qed

text \<open>Shutdown of the reader: from every state it can reach, \<open>main\<close> can still return exactly when
  the HTTP API could not bind its port; after the return nothing runs any more and every driver
  handle has been freed.\<close>

lemma reader_shutdown_completes_iff:
  assumes "dual_reader_main rate h y d argv s = (Serving sv, s0)" "io_calls s = []"
    and "(reader_process_step js serialize d)\<^sup>*\<^sup>* (reader_process_start sv s0 bound) p"
  shows "((\<exists>p'. (reader_process_step js serialize d)\<^sup>*\<^sup>* p p' \<and> rp_stage p' = ReaderReturned) \<longleftrightarrow> \<not> bound) \<and>
    (rp_stage p = ReaderReturned \<longrightarrow>
       owed (rp_io p) = freed (rp_io p) \<and> (\<forall>p'. \<not> reader_process_step js serialize d p p'))"
proof -
  let ?r = "rv_reader sv"
  note main = reader_main_facts [OF assms(1,2)]
  have inv: "reader_process_inv ?r s0 bound p'" if "(reader_process_step js serialize d)\<^sup>*\<^sup>* p p'" for p'
    by (rule reader_process_run_inv [OF rtranclp_trans [OF assms(3) that] main(1,2,3)])
  note here = inv [OF rtranclp.rtrancl_refl]
  have "(\<exists>p'. (reader_process_step js serialize d)\<^sup>*\<^sup>* p p' \<and> rp_stage p' = ReaderReturned) \<longleftrightarrow> \<not> bound"
    using inv here unbound_reader_returns [of p js serialize d] by (auto simp: reader_process_inv_def)
  moreover have "owed (rp_io p) = freed (rp_io p)" if "rp_stage p = ReaderReturned"
  proof -
    have "balanced s {#} s0 (owned (rd_source ?r) + owned (rd_target ?r))"
      using reader_main_balanced [OF assms(1)] by simp
    moreover have "balanced s0 (owned (rd_source ?r) + owned (rd_target ?r)) (rp_io p) {#}"
      using here that by (simp add: reader_process_inv_def)
    ultimately have "balanced s {#} (rp_io p) {#}" by (rule balanced_trans)
    then show ?thesis using balanced_from_start [OF assms(2)] by simp
  qed
  moreover have "\<not> reader_process_step js serialize d p p'" if "rp_stage p = ReaderReturned" for p'
    using here that by (auto simp: reader_process_inv_def elim: reader_process_stepE)
  ultimately show ?thesis by blast
qed

end
