(* ===== verification/Deployment.thy ===== *)
theory Deployment
  imports Writer_Process Reader_Process
begin

text \<open>
  The dual writer and the dual reader as two processes over the same clusters. They share nothing
  but the clusters, the world of the driver: a step of one changes what the other's driver sees.
  Everything else that happens to the clusters (the loader, which sends only queries, other clients,
  nodes that fail and come back) is a step that replaces the world.

  Each process has driver handles, and so a history of calls, of its own.
\<close>

section \<open>Definitions\<close>

record ('w, 'n) deployment =
  dep_writer :: "('w, 'n) writer_process"
  dep_reader :: "'w reader_process"

definition writer_sees :: "'w \<Rightarrow> ('w, 'n) writer_process \<Rightarrow> ('w, 'n) writer_process" where
  "writer_sees v p = with_system ((wp_system p)\<lparr>sys_io := (sys_io (wp_system p))\<lparr>io_world := v\<rparr>\<rparr>) p"

definition reader_sees :: "'w \<Rightarrow> 'w reader_process \<Rightarrow> 'w reader_process" where
  "reader_sees v p = p\<lparr>rp_io := (rp_io p)\<lparr>io_world := v\<rparr>\<rparr>"

inductive deployment_step ::
  "('j, 'm) json_doc_scheme \<Rightarrow> (metrics_registry \<Rightarrow> string) \<Rightarrow> 'w driver \<Rightarrow> 'w driver \<Rightarrow> 'n source_socket
   \<Rightarrow> ('w, 'n) deployment \<Rightarrow> ('w, 'n) deployment \<Rightarrow> bool" for js serialize dw dr k where
  writer_moves:
    "process_step js serialize dw k (dep_writer a) p \<Longrightarrow>
     deployment_step js serialize dw dr k a
       (a\<lparr>dep_writer := p, dep_reader := reader_sees (io_world (sys_io (wp_system p))) (dep_reader a)\<rparr>)"
| reader_moves:
    "reader_process_step js serialize dr (dep_reader a) p \<Longrightarrow>
     deployment_step js serialize dw dr k a
       (a\<lparr>dep_reader := p, dep_writer := writer_sees (io_world (rp_io p)) (dep_writer a)\<rparr>)"
| clusters_change:
    "deployment_step js serialize dw dr k a
       (a\<lparr>dep_writer := writer_sees v (dep_writer a), dep_reader := reader_sees v (dep_reader a)\<rparr>)"

definition deployment_start ::
  "writer_service \<Rightarrow> 'w io \<Rightarrow> bool \<Rightarrow> reader_service \<Rightarrow> 'w io \<Rightarrow> bool \<Rightarrow> ('w, 'n) deployment" where
  "deployment_start wv ws wb rv rs rb =
     \<lparr>dep_writer = process_start wv ws wb, dep_reader = reader_process_start rv rs rb\<rparr>"

inductive_cases deployment_stepE: "deployment_step js serialize dw dr k a a'"

section \<open>Lemmas\<close>

text \<open>The invariants of the two processes do not look at the world.\<close>

lemma balanced_world [simp]: "balanced s own (t\<lparr>io_world := v\<rparr>) own' = balanced s own t own'"
  by (simp add: balanced_def owed_def freed_def)

lemma writer_sees_inv: "process_inv w s0 bound (writer_sees v p) = process_inv w s0 bound p"
  by (simp add: process_inv_def writer_sees_def server_ok_def conns_inv_def writer_ok_def with_system_def)

lemma reader_sees_inv: "reader_process_inv r s0 bound (reader_sees v p) = reader_process_inv r s0 bound p"
  by (simp add: reader_process_inv_def reader_sees_def)

definition deployment_inv ::
  "dual_writer \<Rightarrow> 'w io \<Rightarrow> bool \<Rightarrow> dual_reader \<Rightarrow> 'w io \<Rightarrow> bool \<Rightarrow> ('w, 'n) deployment \<Rightarrow> bool" where
  "deployment_inv w s0 wb r s1 rb a \<longleftrightarrow>
     process_inv w s0 wb (dep_writer a) \<and> reader_process_inv r s1 rb (dep_reader a)"

lemma deployment_inv_step:
  assumes "deployment_step js serialize dw dr k a a'" "deployment_inv w s0 wb r s1 rb a"
    and "conn_session (dw_source w) \<noteq> conn_session (dw_target w)"
    and "rd_discrepancies r = []" "conn_session (rd_source r) \<noteq> None"
  shows "deployment_inv w s0 wb r s1 rb a'"
  using assms(1,2) process_inv_step [OF _ _ assms(3)] reader_process_inv_step [OF _ _ assms(4,5)]
  by (elim deployment_stepE) (auto simp: deployment_inv_def writer_sees_inv reader_sees_inv)

lemma deployment_run_inv:
  assumes "(deployment_step js serialize dw dr k)\<^sup>*\<^sup>* a a'" "deployment_inv w s0 wb r s1 rb a"
    and "conn_session (dw_source w) \<noteq> conn_session (dw_target w)"
    and "rd_discrepancies r = []" "conn_session (rd_source r) \<noteq> None"
  shows "deployment_inv w s0 wb r s1 rb a'"
  using assms(1) by (induction rule: rtranclp_induct) (use assms(2-5) deployment_inv_step in blast)+

text \<open>A run of the writer alone.\<close>

lemma writer_run_lifts:
  assumes "(process_step js serialize dw k)\<^sup>*\<^sup>* (dep_writer a) p"
  shows "\<exists>r. (deployment_step js serialize dw dr k)\<^sup>*\<^sup>* a (a\<lparr>dep_writer := p, dep_reader := r\<rparr>)"
  using assms
proof (induction rule: rtranclp_induct)
  case base
  have "a = a\<lparr>dep_writer := dep_writer a, dep_reader := dep_reader a\<rparr>" by simp
  then show ?case by (metis rtranclp.rtrancl_refl)
next
  case (step p p')
  then obtain r where r: "(deployment_step js serialize dw dr k)\<^sup>*\<^sup>* a (a\<lparr>dep_writer := p, dep_reader := r\<rparr>)"
    by blast
  have "deployment_step js serialize dw dr k (a\<lparr>dep_writer := p, dep_reader := r\<rparr>)
      (a\<lparr>dep_writer := p', dep_reader := reader_sees (io_world (sys_io (wp_system p'))) r\<rparr>)"
    using writer_moves [of js serialize dw k "a\<lparr>dep_writer := p, dep_reader := r\<rparr>" p' dr] step(2) by simp
  with r show ?case by (meson rtranclp.rtrancl_into_rtrancl)
qed

lemma select_not_write: "\<not> is_write_query (select_all t)"
  by (simp add: is_write_query_def select_all_def starts_with_ci_def c_isspace_def c_toupper_def)

lemma probe_not_write: "\<not> is_write_query health_probe"
  by (simp add: is_write_query_def health_probe_def starts_with_ci_def c_isspace_def c_toupper_def)

section \<open>Properties\<close>

text \<open>C19. What changes the target in a deployment of the dual writer and the dual reader: from their
  command lines on, however the two processes, their clients, HTTP requests and shutdowns and
  whatever else happens to the clusters interleave, the reader executes no write at all, and a
  write that the writer executes on the target's session is of a table that its rules file does not
  blacklist and was sent to the source before.\<close>

theorem deployment_writes:
  assumes "dual_writer_main h y dw argv s = (Serving wv, s0)" "io_calls s = []"
    and "conn_session (dw_source (ws_writer wv)) \<noteq> conn_session (dw_target (ws_writer wv))"
    and "dual_reader_main rate h' y' dr argv' s' = (Serving rv, s1)" "io_calls s' = []"
    and "(deployment_step js serialize dw dr k)\<^sup>*\<^sup>* (deployment_start wv s0 wb rv s1 rb) a"
    and "is_write_query q"
  shows "(\<forall>x. SessionExecute x q \<notin> set (io_calls (rp_io (dep_reader a)))) \<and>
    (\<forall>pre t post. conn_session (dw_target (ws_writer wv)) = Some t \<longrightarrow>
      io_calls (sys_io (wp_system (dep_writer a))) = pre @ SessionExecute t q # post \<longrightarrow>
      (\<exists>rules source. dw_load_filter_config h y (wa_filter_config_path (ws_args wv)) = Inr rules \<and>
         conn_session (dw_source (ws_writer wv)) = Some source \<and>
         \<not> table_blacklisted (set (dw_cfg_table_blacklist rules)) (extract_table_target q) \<and>
         SessionExecute source q \<in> set pre))"
proof -
  let ?w = "ws_writer wv" and ?r = "rv_reader rv"
  note rmain = reader_main_facts [OF assms(4,5)]
  have start: "deployment_inv ?w s0 wb ?r s1 rb (deployment_start wv s0 wb rv s1 rb)"
    using main_process_inv [OF assms(1,2)] rmain(1) by (simp add: deployment_inv_def deployment_start_def)
  have inv: "process_inv ?w s0 wb (dep_writer a)" "reader_process_inv ?r s1 rb (dep_reader a)"
    using deployment_run_inv [OF assms(6) start assms(3) rmain(2,3)] by (simp_all add: deployment_inv_def)
  have "SessionExecute x q \<notin> set (io_calls (rp_io (dep_reader a)))" for x
  proof
    assume "SessionExecute x q \<in> set (io_calls (rp_io (dep_reader a)))"
    then obtain pre post where "io_calls (rp_io (dep_reader a)) = pre @ SessionExecute x q # post"
      by (meson split_list)
    then have "select_ok ?r pre (SessionExecute x q)" using inv(2) by (auto simp: reader_process_inv_def reads_ok_def)
    then show False using assms(7) select_not_write by (auto simp: select_ok_def)
  qed
  moreover have "\<exists>rules source. dw_load_filter_config h y (wa_filter_config_path (ws_args wv)) = Inr rules \<and>
       conn_session (dw_source ?w) = Some source \<and>
       \<not> table_blacklisted (set (dw_cfg_table_blacklist rules)) (extract_table_target q) \<and>
       SessionExecute source q \<in> set pre"
    if "conn_session (dw_target ?w) = Some t" "io_calls (sys_io (wp_system (dep_writer a))) = pre @ SessionExecute t q # post"
    for pre t post
  proof -
    obtain fc where fc: "dw_load_filter_config h y (wa_filter_config_path (ws_args wv)) = Inr fc"
      "dw_filter ?w = Some (dw_governor_new fc)"
      using writer_main_filter [OF assms(1)] .
    obtain source where source: "conn_session (dw_source ?w) = Some source"
      using writer_main_connections [OF assms(1)] by blast
    have "vetted {health_probe} ?w pre (SessionExecute t q)"
      using inv(1) that(2) by (auto simp: process_inv_def server_ok_def writer_ok_def history_ok_def)
    moreover have "q \<noteq> health_probe" using assms(7) probe_not_write by blast
    ultimately show ?thesis
      using that(1) fc source by (auto simp: vetted_def blacklists_def dw_governor_new_def)
  qed
  ultimately show ?thesis by blast
qed

theorem deployment_writes_witness:
  "\<exists>wv s0 rv s1 a pre. dual_writer_main example_host example_yaml all_up [] io_start = (Serving wv, s0) \<and>
     dual_reader_main 0 (tree_host (reader_files ''false'')) tree_yaml all_up [] io_start = (Serving rv, s1) \<and>
     (deployment_step example_doc (\<lambda>_. []) all_up all_up (stream_socket :: bytes source_socket))\<^sup>*\<^sup>*
       (deployment_start wv s0 True rv s1 True) a \<and>
     io_calls (sys_io (wp_system (dep_writer a))) = pre @ [SessionExecute 4 example_write] \<and>
     SessionExecute 1 example_write \<in> set pre"
proof -
  obtain wv s0 p where w: "dual_writer_main example_host example_yaml all_up [] io_start = (Serving wv, s0)"
    and src: "conn_session (dw_source (ws_writer wv)) = Some 1" and tgt: "conn_session (dw_target (ws_writer wv)) = Some 4"
    and run: "(process_step example_doc (\<lambda>_. []) all_up (stream_socket :: bytes source_socket))\<^sup>*\<^sup>* (process_start wv s0 True) p"
    and calls: "io_calls (sys_io (wp_system p)) =
      (io_calls s0 @ [SessionExecute 1 example_write]) @ SessionExecute 4 example_write # []"
    using example_write_mirrored [of example_doc "\<lambda>_. []" True] by blast
  obtain rv s1 where r: "dual_reader_main 0 (tree_host (reader_files ''false'')) tree_yaml all_up [] io_start = (Serving rv, s1)"
    using shipped_reader_serves [of 0] unfolding all_up_def by blast
  let ?start = "deployment_start wv s0 True rv s1 True"
  have "(process_step example_doc (\<lambda>_. []) all_up (stream_socket :: bytes source_socket))\<^sup>*\<^sup>* (dep_writer ?start) p"
    using run by (simp add: deployment_start_def)
  from writer_run_lifts [OF this, of all_up] obtain ar where
    "(deployment_step example_doc (\<lambda>_. []) all_up all_up stream_socket)\<^sup>*\<^sup>* ?start (?start\<lparr>dep_writer := p, dep_reader := ar\<rparr>)"
    by blast
  then obtain a where a: "(deployment_step example_doc (\<lambda>_. []) all_up all_up stream_socket)\<^sup>*\<^sup>* ?start a" "dep_writer a = p"
    by (metis deployment.select_convs(1) deployment.update_convs(1) deployment.surjective deployment.update_convs(2))
  have "is_write_query example_write" by code_simp
  from deployment_writes [OF w _ _ r _ a(1) this] have "SessionExecute 1 example_write \<in> set (io_calls s0 @ [SessionExecute 1 example_write])"
    using src tgt a(2) calls by (auto simp: io_start_def)
  with w r a calls show ?thesis by auto
qed

end
