(* ===== verification/Process_Liveness.thy ===== *)
theory Process_Liveness
  imports Writer_Process
begin

text \<open>
  Infinite runs of the dual-writer process (\<open>Writer_Process\<close>): what happens in the end, when the
  scheduler is fair to the retry thread and, after a shutdown signal, to \<open>main\<close>.
\<close>

section \<open>Lemmas\<close>

subsection \<open>Runs that never end\<close>

text \<open>A process that runs for ever never saw a shutdown signal, provided that \<open>main\<close> gets to leave
  the two joins that do not wait for anything.\<close>

lemma relpowp_run: "\<forall>n. R (run n) (run (Suc n)) \<Longrightarrow> (R ^^ j) (run m) (run (m + j))"
  by (induction j) auto

lemma endless_run_serves:
  assumes steps: "\<forall>n. process_step js serialize d k (run n) (run (Suc n))"
    and inv: "\<And>n. process_inv w s0 False (run n)"
    and fair: "\<forall>n. wp_stage (run n) \<in> {JoinReload, JoinApi} \<longrightarrow>
      (\<exists>m\<ge>n. wp_stage (run (Suc m)) \<noteq> wp_stage (run m))"
  shows "wp_stage (run n) = EventLoop"
proof -
  have path: "(process_step js serialize d k ^^ j) (run m) (run (m + j))" for m j
    by (rule relpowp_run [where R = "process_step js serialize d k"]) (rule steps)
  then have mono: "wp_stage (run m) \<le> wp_stage (run (m + j))" for m j
    by (blast intro: stages_advance relpowp_imp_rtranclp)
  have next_stage: "\<exists>m\<ge>n. wp_stage (run n) < wp_stage (run m)" if "wp_stage (run n) \<in> {JoinReload, JoinApi}" for n
  proof -
    obtain m where m: "n \<le> m" "wp_stage (run (Suc m)) \<noteq> wp_stage (run m)" using fair \<open>_ \<in> _\<close> by blast
    then have "wp_stage (run n) \<le> wp_stage (run m)" "wp_stage (run m) \<le> wp_stage (run (Suc m))"
      using mono [of n "m - n"] mono [of m 1] by simp_all
    then show ?thesis using m by (intro exI [of _ "Suc m"]) force
  qed
  have no_join: "wp_stage (run m) \<noteq> JoinRetry" for m
  proof
    let ?l = "thread_left (sys_phase (wp_system (run m)))"
    assume "wp_stage (run m) = JoinRetry"
    then have "joining (run m)" using inv [of m] by (auto simp: joining_def process_inv_def)
    then show False
      using joining_bounded [OF path [of "Suc (Suc ?l)" m]] by simp
  qed
  have "wp_stage (run m) \<noteq> MainReturned" for m
  proof
    assume "wp_stage (run m) = MainReturned"
    then have "returned (run m)" using inv [of m] by (auto simp: returned_def process_inv_def)
    then show False using returned_final steps by blast
  qed
  then have early: "wp_stage (run m) \<in> {EventLoop, JoinReload, JoinApi}" for m
    using no_join [of m] by (cases "wp_stage (run m)") auto
  have no_api: "wp_stage (run m) \<noteq> JoinApi" for m
  proof
    assume "wp_stage (run m) = JoinApi"
    then obtain m' where "wp_stage (run m) < wp_stage (run m')" using next_stage [of m] by auto
    then show False using early [of m'] \<open>wp_stage (run m) = JoinApi\<close> by (auto simp: less_main_stage_def)
  qed
  show ?thesis
  proof (rule ccontr)
    assume "wp_stage (run n) \<noteq> EventLoop"
    then have n: "wp_stage (run n) = JoinReload" using early [of n] no_api by auto
    then obtain m' where "wp_stage (run n) < wp_stage (run m')" using next_stage [of n] by auto
    then show False using early [of m'] no_api [of m'] n by (auto simp: less_main_stage_def)
  qed
qed


subsection \<open>The retry thread within the process\<close>

lemma process_moves:
  assumes "\<forall>n. process_step js serialize d k (run n) (run (Suc n))" "conns_inv (wp_server (run 0))"
  shows "conns_inv (wp_server (run n)) \<and> system_moves d (wp_system (run n)) (wp_system (run (Suc n)))"
proof -
  have "conns_inv (wp_server (run n))" by (induction n) (use assms process_system_step in blast)+
  then show ?thesis using assms(1) process_system_step by blast
qed

lemma process_run_inv_reachable:
  assumes "(process_step js serialize d k)\<^sup>*\<^sup>* (process_start sv s bound) p" "dw_failed (ws_writer sv) = []"
  shows "conns_inv (wp_server p) \<and> run_inv (dwc_writer (dw_config (ws_writer sv))) (wp_system p)"
  using assms(1)
proof (induction rule: rtranclp_induct)
  case base
  then show ?case using run_inv_start [OF assms(2)] by (simp add: process_start_def server_start_def conns_inv_def)
next
  case (step p p')
  then show ?case using process_system_step run_inv_moves by blast
qed

text \<open>With a positive delay every move of the running thread shows in its phase, so that it is a step
  of the process.\<close>

lemma thread_next_phase:
  assumes "0 < retry_delay_ms (dwc_writer (dw_config (sys_writer y)))" "sys_phase y \<noteq> Stopped"
  shows "sys_phase (thread_next d y) \<noteq> sys_phase y"
proof (cases "sys_phase y")
  case (Working todo muts)
  then show ?thesis by (cases todo) (auto simp: thread_next_def case_prod_beta Let_def)
next
  case (Sleeping e)
  have "e + 100 \<noteq> e" by simp
  then show ?thesis using assms(1) Sleeping by (auto simp: thread_next_def)
qed (use assms(2) in simp)

lemma thread_next_config [simp]: "dw_config (sys_writer (thread_next d y)) = dw_config (sys_writer y)"
  by (auto simp: thread_next_def case_prod_beta Let_def frame_simps split: retry_phase.split list.split)

text \<open>The process in which only the retry thread runs.\<close>

definition alone :: "'w driver \<Rightarrow> ('w, 'n) writer_process \<Rightarrow> nat \<Rightarrow> ('w, 'n) writer_process" where
  "alone d p n = with_system (thread_run d (wp_system p) n) p"

lemma alone_steps:
  assumes "0 < retry_delay_ms (dwc_writer (dw_config (sys_writer (wp_system p))))"
    "\<not> sys_stop (wp_system p)" "sys_phase (wp_system p) \<noteq> Stopped"
  shows "process_step js serialize d k (alone d p n) (alone d p (Suc n))"
proof -
  let ?y = "thread_run d (wp_system p) n"
  note running = thread_run_running [OF assms(2,3), of d n]
  have "dw_config (sys_writer ?y) = dw_config (sys_writer (wp_system p))"
    by (induction n) (simp_all add: thread_run_def)
  then have "sys_phase (thread_next d ?y) \<noteq> sys_phase ?y"
    using assms(1) running by (intro thread_next_phase) simp_all
  then have "process_step js serialize d k (alone d p n) (with_system (thread_next d ?y) (alone d p n))"
    using running by (intro retry_moves) (simp_all add: alone_def thread_next_steps)
  then show ?thesis by (simp add: alone_def with_system_def thread_run_def)
qed

lemma alone_fair: "wp_system (alone d p (Suc n)) = thread_next d (wp_system (alone d p n))"
  by (simp add: alone_def thread_run_def)

section \<open>Properties\<close>

text \<open>C10. Every acknowledged write reaches the target or is given up in the end: from the command line
  on, in every infinite run of the process that is fair to the retry thread and sees no shutdown,
  whatever clients, HTTP requests and reloads do and however the clusters answer, a write whose
  shadow write failed is settled at some time (executed on the target, abandoned after its last
  attempt, or dropped because its table is blacklisted), unless its random id was in use. The retry
  delay must not be so close to the maximum of its 64-bit type that the counter of the sleep wraps.\<close>

theorem process_settles_writes:
  assumes "dual_writer_main h y d argv s = (Serving sv, s0)"
    and "(process_step js serialize d k)\<^sup>*\<^sup>* (process_start sv s0 bound) (run 0)"
    and "\<forall>n. process_step js serialize d k (run n) (run (Suc n))"
    and "\<forall>n. \<exists>m\<ge>n. wp_system (run (Suc m)) = thread_next d (wp_system (run m))"
    and "\<forall>n. \<not> sys_stop (wp_system (run n))"
    and "unat (retry_delay_ms (dwc_writer (dw_config (ws_writer sv)))) + 100 \<le> 2 ^ 64"
    and "i \<in> set (shadow_failed_ids (sys_events (wp_system (run n))))"
  shows "\<exists>m. i \<in> set (settled_ids (sys_events (wp_system (run m)))) \<or>
    i \<in> set (collided_ids (sys_events (wp_system (run m))))"
proof -
  have empty: "dw_failed (ws_writer sv) = []" using writer_main_connections [OF assms(1)] by blast
  let ?cfg = "dwc_writer (dw_config (ws_writer sv))" and ?sys = "\<lambda>n. wp_system (run n)"
  note start = process_run_inv_reachable [OF assms(2) empty]
  have fair: "fair_run d ?sys"
    using process_moves [OF assms(3)] start assms(4) by (simp add: fair_run_def)
  then have inv: "run_inv ?cfg (?sys n)" for n
    using run_inv_run [of d ?sys ?cfg] start by (simp add: fair_run_def)
  have "mset (shadow_failed_ids (sys_events (?sys n))) = mset (collided_ids (sys_events (?sys n))) +
      mset (settled_ids (sys_events (?sys n))) + mset (pending_ids (?sys n))"
    using inv [of n] by (simp add: run_inv_def conserved_def)
  then consider "i \<in> set (collided_ids (sys_events (?sys n)))" | "i \<in> set (settled_ids (sys_events (?sys n)))"
    | "i \<in> set (pending_ids (?sys n))"
    using assms(7) by (metis set_mset_mset set_mset_union Un_iff)
  then show ?thesis
  proof cases
    case 3
    obtain m where "settles i (?sys m) (?sys (Suc m))"
      using fair_settles [OF fair inv assms(5,6) 3] by blast
    then have "i \<in> set (settled_ids (sys_events (?sys (Suc m))))" by (auto simp: settles_def)
    then show ?thesis by blast
  qed blast+
qed

theorem process_settles_writes_witness:
  "\<exists>sv s0 p i m. dual_writer_main example_host example_yaml target_down [] io_start = (Serving sv, s0) \<and>
     (process_step example_doc (\<lambda>_. []) target_down (stream_socket :: bytes source_socket))\<^sup>*\<^sup>* (process_start sv s0 True) p \<and>
     settled_ids (sys_events (wp_system p)) = [] \<and>
     (i \<in> set (settled_ids (sys_events (thread_run target_down (wp_system p) m))) \<or>
      i \<in> set (collided_ids (sys_events (thread_run target_down (wp_system p) m))))"
proof -
  let ?d = target_down
  obtain sv s0 p i where m: "dual_writer_main example_host example_yaml ?d [] io_start = (Serving sv, s0)"
    and run: "(process_step example_doc (\<lambda>_. []) ?d (stream_socket :: bytes source_socket))\<^sup>*\<^sup>* (process_start sv s0 True) p"
    and ids: "shadow_failed_ids (sys_events (wp_system p)) = [i]" "settled_ids (sys_events (wp_system p)) = []"
    and still: "sys_phase (wp_system p) = Sleeping 0" "\<not> sys_stop (wp_system p)"
      "dw_config (sys_writer (wp_system p)) = dw_config (ws_writer sv)"
    and delay: "retry_delay_ms (dwc_writer (dw_config (ws_writer sv))) = 500"
    using example_write_queued [of example_doc "\<lambda>_. []" True] by blast
  have first: "wp_system (alone ?d p 0) = wp_system p" "alone ?d p 0 = p"
    by (simp_all add: alone_def thread_run_def with_system_def)
  have steps: "process_step example_doc (\<lambda>_. []) ?d stream_socket (alone ?d p n) (alone ?d p (Suc n))" for n
    using still delay by (intro alone_steps) simp_all
  have "\<not> sys_stop (wp_system (alone ?d p n))" for n
    using thread_run_running [of "wp_system p" ?d n] still by (simp add: alone_def)
  moreover have "unat (retry_delay_ms (dwc_writer (dw_config (ws_writer sv)))) + 100 \<le> 2 ^ 64"
    using delay by simp
  moreover have "i \<in> set (shadow_failed_ids (sys_events (wp_system (alone ?d p 0))))" using ids(1) first by simp
  moreover have "(process_step example_doc (\<lambda>_. []) ?d stream_socket)\<^sup>*\<^sup>* (process_start sv s0 True) (alone ?d p 0)"
    using run first by simp
  ultimately have "\<exists>m. i \<in> set (settled_ids (sys_events (wp_system (alone ?d p m)))) \<or>
      i \<in> set (collided_ids (sys_events (wp_system (alone ?d p m))))"
    using process_settles_writes [OF m, where run = "alone ?d p" and n = 0 and i = i] steps alone_fair [of ?d p] by blast
  with m run ids(2) show ?thesis unfolding alone_def by auto
qed

end
