(* ===== verification/Loader_Process.thy ===== *)
theory Loader_Process
  imports Service_Startup Service_Api Shipped_Config
begin

text \<open>
  The running sstable-loader process: \<open>main\<close> of \<open>services/sstable-loader/src/main.cpp\<close> from the
  threads it starts to its return.

  The migration of \<open>--auto-start\<close> is a coroutine of the event loop that never suspends: it sleeps
  and joins its threads where it runs, on the only thread that runs the loop. The handler of
  \<open>SIGINT\<close> and \<open>SIGTERM\<close> is an event of the same loop, so it waits until the migration has
  returned. Until then only the HTTP API acts on the loader; its requests are the \<open>inbox\<close> of the
  migration (\<open>Service_Api.loader_requests_polled\<close>). Its health requests probe both clusters from another thread, at
  any point between two statements of the migration: \<open>beside_api\<close> is the driver as the migration
  sees it, with a call history in which the probes stand between the statements.
\<close>

section \<open>Definitions\<close>

text \<open>The destructor.\<close>

definition loader_destroy :: "sstable_loader \<Rightarrow> sstable_loader" where
  "loader_destroy l = l\<lparr>ld_running := False\<rparr>"

datatype 'w process_end = ProcessReturns sstable_loader "'w io" | ProcessHangs | ProcessCrashes

text \<open>From the event loop to the end of \<open>main\<close>, when a shutdown signal is sent. \<open>bound\<close> says whether
  \<open>svr.listen\<close> could bind its port: the destructor of the API thread then waits for ever. The
  connections are destroyed after the loader, the target first.\<close>

definition loader_process ::
  "'w driver \<Rightarrow> (token_range list \<Rightarrow> token_range list) \<Rightarrow> (real \<Rightarrow> real) \<Rightarrow> (real \<Rightarrow> real) \<Rightarrow> int
   \<Rightarrow> bool \<Rightarrow> inbox \<Rightarrow> loader_service \<Rightarrow> 'w io \<Rightarrow> 'w process_end" where
  "loader_process d sched fl fl64 ms bound box sv s =
     (case auto_start d sched fl fl64 ms box sv s of
        NeverReturns \<Rightarrow> ProcessHangs
      | DivByZero \<Rightarrow> ProcessCrashes
      | Returned (_, sv', s') \<Rightarrow>
          let l = lv_loader (loader_shutdown sv') in
          if bound then ProcessHangs
          else ProcessReturns (loader_destroy l)
                 (conn_destroy d (ld_source l) (conn_destroy d (ld_target l) s')))"

subsection \<open>The health requests of the API\<close>

text \<open>A \<open>/health\<close> request pings the source, then the target. Requests run on threads of their own, so
  any sequence of pings may come between two statements of the migration.\<close>

datatype side = SourceSide | TargetSide

definition api_probes ::
  "'w driver \<Rightarrow> scylla_connection \<Rightarrow> scylla_connection \<Rightarrow> side list \<Rightarrow> 'w io \<Rightarrow> 'w io" where
  "api_probes d src tgt sides s =
     fold (\<lambda>x s. snd (probe d (Some (case x of SourceSide \<Rightarrow> src | TargetSide \<Rightarrow> tgt)) s)) sides s"

text \<open>Its world is the history so far, and the pings that come before each statement to come.\<close>

definition beside_api ::
  "'w driver \<Rightarrow> scylla_connection \<Rightarrow> scylla_connection \<Rightarrow> ('w io \<times> side list list) driver" where
  "beside_api d src tgt =
     \<lparr>cass_cluster_new = (\<lambda>(s, pings).
        let (r, w) = cass_cluster_new d (io_world s) in (r, (did_call (ClusterNew r) w s, pings))),
      cass_session_new = (\<lambda>(s, pings).
        let (r, w) = cass_session_new d (io_world s) in (r, (did_call (SessionNew r) w s, pings))),
      cass_session_connect = (\<lambda>se cl ks (s, pings).
        let (r, w) = cass_session_connect d se cl ks (io_world s)
        in (r, (did_call (SessionConnect se cl ks) w s, pings))),
      cass_session_execute = (\<lambda>se q (s, pings).
        let s1 = (case pings of [] \<Rightarrow> s | sides # _ \<Rightarrow> api_probes d src tgt sides s);
            (r, w) = cass_session_execute d se q (io_world s1)
        in (r, (did_call (SessionExecute se q) w s1, tl pings))),
      cass_session_close = (\<lambda>se (s, pings).
        (did_call (SessionClose se) (cass_session_close d se (io_world s)) s, pings))\<rparr>"

definition with_pings :: "'w io \<Rightarrow> side list list \<Rightarrow> ('w io \<times> side list list) io" where
  "with_pings s pings = \<lparr>io_world = (s, pings), io_calls = []\<rparr>"

text \<open>The history of the whole process.\<close>

definition history :: "('w io \<times> side list list) io \<Rightarrow> 'w io" where
  "history t = fst (io_world t)"

section \<open>Lemmas\<close>

subsection \<open>How a migration ends\<close>

text \<open>Without a pause request a migration never waits.\<close>

definition no_pause :: "inbox \<Rightarrow> bool" where
  "no_pause box \<longleftrightarrow> list_all (\<lambda>cs. CtlPause \<notin> set cs) box"

definition unpaused :: "sstable_loader \<Rightarrow> sstable_loader \<Rightarrow> inbox \<Rightarrow> bool" where
  "unpaused l l' box' \<longleftrightarrow> \<not> ld_paused l' \<and> no_pause box' \<and> loader_opts l' = loader_opts l"

lemma controls_unpaused: "CtlPause \<notin> set cs \<Longrightarrow> \<not> ld_paused l \<Longrightarrow> \<not> ld_paused (fold apply_control cs l)"
proof (induction cs arbitrary: l)
  case (Cons c cs)
  then show ?case by (cases c) (simp_all add: loader_resume_def loader_stop_def stop_migration_def)
qed simp

lemma poll_unpaused:
  assumes "poll box l = (box', l')" "\<not> ld_paused l" "no_pause box"
  shows "unpaused l l' box'"
  using assms controls_unpaused same_job_opts [OF poll_same [OF assms(1)]]
  by (cases box) (auto simp: no_pause_def unpaused_def)

lemma fold_threads_unpaused:
  assumes "fold (range_thread d t ks) rs (l, s) = (l', s')"
  shows "ld_paused l' = ld_paused l" "loader_opts l' = loader_opts l"
  using fold_threads_keeps [OF assms] same_job_opts [of l l'] by simp_all

lemma run_batches_returns:
  assumes "\<not> ld_paused l" "no_pause box"
  shows "\<exists>box' l' s'. run_batches d sched t ks bs box l s = Returned (box', l', s') \<and> unpaused l l' box'"
  using assms
proof (induction bs arbitrary: box l s)
  case (Cons b bs)
  obtain box1 l1 where p: "poll box l = (box1, l1)" by force
  have l1: "unpaused l l1 box1" by (rule poll_unpaused [OF p Cons.prems])
  then have gate: "pause_gate box1 l1 = Returned (box1, l1)" by (cases box1) (simp_all add: unpaused_def)
  obtain l3 s3 where f: "fold (range_thread d t ks) (sched b) (l1, s) = (l3, s3)" by force
  note keep = fold_threads_unpaused [OF f]
  show ?case
  proof (cases "ld_running l1")
    case False
    with p l1 show ?thesis by simp
  next
    case True
    then show ?thesis
      using Cons.IH [of l3 box1 s3] p l1 gate f keep by (auto simp: unpaused_def)
  qed
qed (simp add: unpaused_def)

text \<open>A composed run crashes in one of its two parts.\<close>

lemma run_bind_crash:
  "run_bind m f = DivByZero \<longleftrightarrow> m = DivByZero \<or> (\<exists>x. m = Returned x \<and> f x = DivByZero)"
  by (cases m) auto

lemma pause_gate_no_crash [simp]: "pause_gate box l \<noteq> DivByZero"
  by (induction box l rule: pause_gate.induct) auto

lemma spin_no_crash [simp]: "spin box l \<noteq> DivByZero"
proof (induction box arbitrary: l rule: length_induct)
  case (1 box)
  show ?case
  proof (cases box)
    case (Cons cs rest)
    have "spin box2 l2 \<noteq> DivByZero" if "pause_gate rest l1 = Returned (box2, l2)" for box2 l1 l2
      using 1 pause_gate_shortens [OF that] Cons by auto
    then show ?thesis
      using Cons by (auto simp: spin_unfold Let_def run_bind_crash)
  qed (simp add: spin_unfold)
qed

lemma run_batches_no_crash [simp]: "run_batches d sched t ks bs box l s \<noteq> DivByZero"
proof (induction bs arbitrary: box l s)
  case (Cons b bs)
  then show ?case by (auto simp: Let_def case_prod_beta run_bind_crash)
qed simp

lemma migrate_table_crash:
  assumes "migrate_table d sched t box l s = DivByZero"
  shows "lc_num_ranges_per_core (loader_opts l) = 0"
proof (rule ccontr)
  assume "lc_num_ranges_per_core (loader_opts l) \<noteq> 0"
  then have "0 < lc_num_ranges_per_core (loader_opts l)" by (simp add: word_neq_0_conv)
  then obtain rs where "fst (calculate_ranges d (ld_source l) (lc_num_ranges_per_core (loader_opts l))
      (snd (resolve_partition_keys d t l s))) = Some rs"
    using calculate_ranges_Some by blast
  then show False
    using assms by (auto simp: migrate_table_def case_prod_beta Let_def run_bind_crash split: if_splits)
qed

lemma migrate_tables_crash:
  "migrate_tables d sched ts box l s = DivByZero \<Longrightarrow> lc_num_ranges_per_core (loader_opts l) = 0"
proof (induction ts arbitrary: box l s)
  case (Cons t ts)
  obtain box1 l1 where p: "poll box l = (box1, l1)" by force
  let ?l2 = "snd (table_gate (tc_name t) l1)"
  have "loader_opts l1 = loader_opts l" by (rule same_job_opts [OF poll_same [OF p]])
  then have opts: "loader_opts ?l2 = loader_opts l" by (simp add: loader_opts_def frame_simps)
  have rest: "lc_num_ranges_per_core (loader_opts l) = 0"
    if "migrate_tables d sched ts box2 l3 s3 = DivByZero" "loader_opts l3 = loader_opts l" for box2 l3 s3
    using Cons.IH [OF that(1)] that(2) by simp
  have skipped: "loader_opts (?l2\<lparr>ld_tables_skipped := n\<rparr>) = loader_opts l" for n
    using opts by (simp add: loader_opts_def)
  have completed: "loader_opts (l3\<lparr>ld_tables_completed := n\<rparr>) = loader_opts l"
    if "migrate_table d sched t box1 ?l2 s = Returned (box3, l3, s3)" for box3 l3 s3 n
    using same_job_opts [OF conjunct1 [OF migrate_table_keeps [OF that]]] opts by (simp add: loader_opts_def)
  show ?case
    using Cons.prems p opts migrate_table_crash [of d sched t box1 ?l2 s] rest [OF _ skipped] rest [OF _ completed]
    by (auto simp: Let_def case_prod_beta run_bind_crash split: if_splits)
qed simp

lemma migrate_table_ends:
  assumes "\<not> ld_paused l" "no_pause box" "0 < lc_max_concurrent_loaders (loader_opts l)"
  shows "migrate_table d sched t box l s = DivByZero \<or>
    (\<exists>box' l' s'. migrate_table d sched t box l s = Returned (box', l', s') \<and> unpaused l l' box')"
proof -
  obtain ks s1 where k: "resolve_partition_keys d t l s = (ks, s1)" by force
  obtain rs s2 where r: "calculate_ranges d (ld_source l) (lc_num_ranges_per_core (loader_opts l)) s1 = (rs, s2)"
    by force
  have "unat (lc_max_concurrent_loaders (loader_opts l)) \<noteq> 0"
    using assms(3) by (simp add: word_less_nat_alt)
  then show ?thesis
    using run_batches_returns [OF assms(1,2)] k r by (cases rs) (simp_all add: migrate_table_def Let_def)
qed

lemma migrate_tables_end:
  assumes "\<not> ld_paused l" "no_pause box" "0 < lc_max_concurrent_loaders (loader_opts l)"
  shows "migrate_tables d sched ts box l s \<noteq> NeverReturns"
  using assms
proof (induction ts arbitrary: box l s)
  case (Cons t ts)
  obtain box1 l1 where p: "poll box l = (box1, l1)" by force
  have l1: "unpaused l l1 box1" by (rule poll_unpaused [OF p Cons.prems(1,2)])
  let ?l2 = "snd (table_gate (tc_name t) l1)"
  have l2: "\<not> ld_paused ?l2" "loader_opts ?l2 = loader_opts l" "no_pause box1"
    using l1 by (simp_all add: unpaused_def loader_opts_def frame_simps)
  have rest: "migrate_tables d sched ts box1 (?l2\<lparr>ld_tables_skipped := n\<rparr>) s \<noteq> NeverReturns" for n
    using Cons.IH [of "?l2\<lparr>ld_tables_skipped := n\<rparr>" box1 s] l2 Cons.prems(3) by (simp add: loader_opts_def)
  have after: "migrate_tables d sched ts box3 (l3\<lparr>ld_tables_completed := n\<rparr>) s3 \<noteq> NeverReturns"
    if "unpaused ?l2 l3 box3" for box3 l3 s3 n
    using Cons.IH [of "l3\<lparr>ld_tables_completed := n\<rparr>" box3 s3] that l2(2) Cons.prems(3)
    by (simp add: unpaused_def loader_opts_def)
  have "0 < lc_max_concurrent_loaders (loader_opts ?l2)" using l2(2) Cons.prems(3) by simp
  from migrate_table_ends [OF l2(1,3) this, of d sched t s] show ?case
    using p rest after by (auto simp: Let_def case_prod_beta)
qed simp

lemma start_migration_ends:
  assumes "\<not> ld_running l" "\<not> ld_paused l"
  shows "start_migration d sched fl fl64 ms ks box l s = DivByZero \<Longrightarrow> lc_num_ranges_per_core (loader_opts l) = 0"
    "start_migration d sched fl fl64 ms ks box l s = NeverReturns \<Longrightarrow>
       \<not> no_pause box \<or> lc_max_concurrent_loaders (loader_opts l) = 0"
proof -
  let ?ts = "select_tables ks (lc_tables (loader_opts l))"
  let ?l1 = "(reset_stats l)\<lparr>ld_running := True, ld_tables_total := of_nat (length ?ts)\<rparr>"
  have opts: "loader_opts ?l1 = loader_opts l" "\<not> ld_paused ?l1" "ld_paused ?l1 = ld_paused l"
    using assms(2) by (simp_all add: reset_stats_def loader_opts_def)
  show "lc_num_ranges_per_core (loader_opts l) = 0" if "start_migration d sched fl fl64 ms ks box l s = DivByZero"
    using that migrate_tables_crash [of d sched ?ts box ?l1 s] assms(1) opts(1)
    by (auto simp: start_migration_def Let_def run_bind_crash)
  show "\<not> no_pause box \<or> lc_max_concurrent_loaders (loader_opts l) = 0"
    if "start_migration d sched fl fl64 ms ks box l s = NeverReturns"
  proof -
    have "migrate_tables d sched ?ts box ?l1 s = NeverReturns"
      using that assms(1)
      by (cases "migrate_tables d sched ?ts box ?l1 s") (simp_all add: start_migration_def Let_def case_prod_beta)
    then show ?thesis
      using migrate_tables_end [of ?l1 box d sched ?ts s] opts by (auto simp: word_gt_0)
  qed
qed

subsection \<open>From the command line to the end\<close>

lemma loader_main_facts:
  assumes "sstable_loader_main h y d argv s = (Serving sv, s0)"
  shows "\<not> ld_running (lv_loader sv)" "\<not> ld_paused (lv_loader sv)"
    "balanced s {#} s0 (owned (ld_source (lv_loader sv)) + owned (ld_target (lv_loader sv)))"
  using assms loader_main_balanced [OF assms]
  by (auto simp: sstable_loader_main_def sstable_loader_new_def Let_def split: option.splits sum.splits prod.splits)

lemma auto_start_keeps:
  assumes "auto_start d sched fl fl64 ms box sv s = Returned (box', sv', s')"
    and "\<not> ld_running (lv_loader sv)"
  shows "ld_source (lv_loader sv') = ld_source (lv_loader sv)" "ld_target (lv_loader sv') = ld_target (lv_loader sv)"
    "query_run d (allowed_queries (lv_loader sv) (lc_tables (loader_opts (lv_loader sv)))) (lv_loader sv) s s'"
proof -
  have "sv' = sv \<and> s' = s \<or> (\<exists>st. start_migration d sched fl fl64 ms [] box (lv_loader sv) s =
      Returned (Inr st, box', lv_loader sv', s'))"
    using assms by (auto simp: auto_start_def run_bind_Returned start_migration_def Let_def split: if_splits)
  then show "ld_source (lv_loader sv') = ld_source (lv_loader sv)" "ld_target (lv_loader sv') = ld_target (lv_loader sv)"
    "query_run d (allowed_queries (lv_loader sv) (lc_tables (loader_opts (lv_loader sv)))) (lv_loader sv) s s'"
    using start_migration_reads [of d sched fl fl64 ms "[]" box "lv_loader sv" s]
    by (auto simp: select_tables_def)
qed

subsection \<open>The history beside the API\<close>

definition ping_statement :: string where
  "ping_statement = ''SELECT now() FROM system.local''"

text \<open>New calls are pings of one of the two sessions, or queries of \<open>Q\<close> on the source.\<close>

definition pings_or_queries :: "scylla_connection \<Rightarrow> scylla_connection \<Rightarrow> string set \<Rightarrow> 'w io \<Rightarrow> 'w io \<Rightarrow> bool" where
  "pings_or_queries src tgt Q s s' \<longleftrightarrow>
     (\<exists>new. io_calls s' = io_calls s @ new \<and>
        (\<forall>c \<in> set new. c = SessionExecute (the (conn_session src)) ping_statement \<or>
           c = SessionExecute (the (conn_session tgt)) ping_statement \<or>
           (\<exists>q \<in> Q. c = SessionExecute (the (conn_session src)) q)))"

lemma pings_or_queries_refl [simp]: "pings_or_queries src tgt Q s s"
  by (simp add: pings_or_queries_def)

lemma pings_or_queries_trans:
  assumes "pings_or_queries src tgt Q s s'" "pings_or_queries src tgt Q s' s''"
  shows "pings_or_queries src tgt Q s s''"
proof -
  obtain new new' where "io_calls s' = io_calls s @ new" "io_calls s'' = io_calls s' @ new'"
    and "\<forall>c \<in> set new \<union> set new'. c = SessionExecute (the (conn_session src)) ping_statement \<or>
      c = SessionExecute (the (conn_session tgt)) ping_statement \<or>
      (\<exists>q \<in> Q. c = SessionExecute (the (conn_session src)) q)"
    using assms unfolding pings_or_queries_def by blast
  then show ?thesis unfolding pings_or_queries_def by (intro exI [of _ "new @ new'"]) simp
qed

lemma pings_or_queries_calls:
  assumes "io_calls s' = io_calls s @ exec_calls c q" "c = src \<and> q \<in> insert ping_statement Q \<or> c = tgt \<and> q = ping_statement"
  shows "pings_or_queries src tgt Q s s'"
  using assms by (auto simp: pings_or_queries_def exec_calls_def)

lemma api_probes_calls: "pings_or_queries src tgt Q s (api_probes d src tgt sides s)"
proof (induction sides arbitrary: s)
  case (Cons x sides)
  let ?s1 = "snd (probe d (Some (case x of SourceSide \<Rightarrow> src | TargetSide \<Rightarrow> tgt)) s)"
  have "pings_or_queries src tgt Q s ?s1"
    using io_calls_probe [of d "Some (case x of SourceSide \<Rightarrow> src | TargetSide \<Rightarrow> tgt)" s]
    by (intro pings_or_queries_calls [where q = ping_statement]) (auto simp: ping_statement_def split: side.splits)
  then show ?case
    using Cons.IH [of ?s1] pings_or_queries_trans by (fastforce simp: api_probes_def)
qed (simp add: api_probes_def)

lemma beside_api_execute:
  assumes "conn_execute (beside_api d src tgt) src q t = (r, t')" "q \<in> Q"
  shows "pings_or_queries src tgt Q (history t) (history t')"
  using assms(1)
proof (cases rule: conn_execute_cases)
  case (2 h answer w')
  obtain s pings where w: "io_world t = (s, pings)" by force
  let ?s1 = "case pings of [] \<Rightarrow> s | sides # _ \<Rightarrow> api_probes d src tgt sides s"
  obtain a w2 where "cass_session_execute d h q (io_world ?s1) = (a, w2)" by force
  then have "w' = (did_call (SessionExecute h q) w2 ?s1, tl pings)"
    using 2(2) w by (simp add: beside_api_def Let_def)
  then have "io_calls (history t') = io_calls ?s1 @ [SessionExecute h q]"
    by (simp add: history_def 2(4) did_call_def)
  then have "pings_or_queries src tgt Q ?s1 (history t')"
    using 2(1) assms(2) by (auto simp: pings_or_queries_def)
  moreover have "pings_or_queries src tgt Q s ?s1" by (cases pings) (simp_all add: api_probes_calls)
  ultimately show ?thesis using pings_or_queries_trans w by (fastforce simp: history_def)
qed simp

lemma beside_api_run:
  assumes "query_run (beside_api d (ld_source l) tgt) Q l t t'"
  shows "pings_or_queries (ld_source l) tgt Q (history t) (history t')"
  using assms unfolding query_run_def
proof (induction rule: rtranclp_induct)
  case (step t1 t2)
  then obtain q r where "q \<in> Q" "conn_execute (beside_api d (ld_source l) tgt) (ld_source l) q t1 = (r, t2)"
    by (auto simp: one_query_def)
  then show ?case using step.IH beside_api_execute pings_or_queries_trans by blast
qed simp

text \<open>Which tables an uninterrupted migration counts.\<close>

lemma auto_start_counts:
  assumes "auto_start d sched fl fl64 ms [] sv s = Returned (box', sv', s')" "la_auto_start (lv_args sv)"
    and "\<not> ld_running (lv_loader sv)" "\<not> ld_paused (lv_loader sv)"
    and "0 < lc_max_concurrent_loaders (loader_opts (lv_loader sv))"
      "0 < lc_num_ranges_per_core (loader_opts (lv_loader sv))"
  shows "let ts = lc_tables (loader_opts (lv_loader sv)) in
    ld_tables_completed (lv_loader sv') =
      of_nat (length (filter (\<lambda>t. \<not> ld_blacklists (lv_loader sv) (tc_name t)) ts)) \<and>
    ld_tables_skipped (lv_loader sv') =
      of_nat (length (filter (\<lambda>t. ld_blacklists (lv_loader sv) (tc_name t)) ts))"
proof -
  let ?l = "lv_loader sv"
  let ?ts = "lc_tables (loader_opts ?l)"
  let ?l1 = "(reset_stats ?l)\<lparr>ld_running := True, ld_tables_total := of_nat (length ?ts)\<rparr>"
  have "loader_opts ?l1 = loader_opts ?l" "ld_blacklists ?l1 = ld_blacklists ?l"
    by (simp_all add: reset_stats_def loader_opts_def ld_blacklists_def fun_eq_iff)
  then obtain l2 s2 where "migrate_tables d sched ?ts [] ?l1 s = Returned ([], l2, s2)"
    "ld_tables_completed l2 = of_nat (length (filter (\<lambda>t. \<not> ld_blacklists ?l (tc_name t)) ?ts))"
    "ld_tables_skipped l2 = of_nat (length (filter (\<lambda>t. ld_blacklists ?l (tc_name t)) ?ts))"
    using migrate_tables_quiet [of ?l1 d sched ?ts s] assms(3-6) by (auto simp: reset_stats_def)
  then show ?thesis
    using assms(1-3) by (auto simp: auto_start_def start_migration_def select_tables_def Let_def)
qed

section \<open>Properties\<close>

text \<open>C17. What a loader started with \<open>--auto-start\<close> does to the clusters if its migration returns,
  whatever control requests its API serves meanwhile and wherever the pings of its health
  requests come, also after the migration: every statement it executes is a ping of
  the source or the target, or a query on the source's session for a table of the configuration
  that the rules in force do not exclude; the target is never written. The rules in force are
  those of the rules file of the command line, and with \<open>--skip-filters\<close> or an unreadable file
  there are none. A migration that no control request interrupts, with at least one loader
  thread and one range per core, completes exactly the configured tables that these rules do
  not exclude, so all of them when there are no rules, and skips the others. A migration that never
  returns, because it is paused for good or has no loader thread, is not covered.\<close>

theorem loader_process_calls:
  assumes "sstable_loader_main h y d argv s = (Serving sv, s0)"
    and "auto_start (beside_api d (ld_source (lv_loader sv)) (ld_target (lv_loader sv))) sched fl fl64 ms box sv
      (with_pings s0 pings) = Returned (box', sv', t)"
  shows "let l = lv_loader sv; source = the (conn_session (ld_source l)); target = the (conn_session (ld_target l));
      ts = lc_tables (loader_opts l);
      excluded = (\<lambda>t. \<not> la_skip_filters (lv_args sv) \<and>
        (case ss_load_filter_config h y (la_filter_config_path (lv_args sv)) of
           Inl _ \<Rightarrow> False | Inr fc \<Rightarrow> table_blacklisted (set (ss_cfg_table_blacklist fc)) (tc_name t)))
    in (\<exists>new. io_calls (api_probes d (ld_source l) (ld_target l) later (history t)) = io_calls s0 @ new \<and>
          (\<forall>c \<in> set new. c = SessionExecute source ping_statement \<or> c = SessionExecute target ping_statement \<or>
             (\<exists>t q. c = SessionExecute source q \<and> t \<in> set ts \<and> \<not> excluded t \<and> q \<in> table_queries t))) \<and>
       (la_auto_start (lv_args sv) \<and> box = [] \<and> 0 < lc_max_concurrent_loaders (loader_opts l) \<and>
        0 < lc_num_ranges_per_core (loader_opts l) \<longrightarrow>
          ld_tables_completed (lv_loader sv') = of_nat (length (filter (\<lambda>t. \<not> excluded t) ts)) \<and>
          ld_tables_skipped (lv_loader sv') = of_nat (length (filter excluded ts)))"
proof -
  let ?l = "lv_loader sv"
  let ?Q = "allowed_queries ?l (lc_tables (loader_opts ?l))"
  note main = loader_main_facts [OF assms(1)]
  have rules: "(\<not> la_skip_filters (lv_args sv) \<and>
      (case ss_load_filter_config h y (la_filter_config_path (lv_args sv)) of
         Inl _ \<Rightarrow> False | Inr fc \<Rightarrow> table_blacklisted (set (ss_cfg_table_blacklist fc)) t)) = ld_blacklists ?l t" for t
    using loader_main_blacklists [OF assms(1)] by (simp add: loader_rules_def split: sum.splits)
  have "pings_or_queries (ld_source ?l) (ld_target ?l) ?Q (history (with_pings s0 pings)) (history t)"
    using beside_api_run auto_start_keeps(3) [OF assms(2) main(1)] by blast
  then have "pings_or_queries (ld_source ?l) (ld_target ?l) ?Q s0
      (api_probes d (ld_source ?l) (ld_target ?l) later (history t))"
    using pings_or_queries_trans api_probes_calls by (fastforce simp: history_def with_pings_def)
  then have calls: "\<exists>new. io_calls (api_probes d (ld_source ?l) (ld_target ?l) later (history t)) = io_calls s0 @ new \<and>
      (\<forall>c \<in> set new. c = SessionExecute (the (conn_session (ld_source ?l))) ping_statement \<or>
         c = SessionExecute (the (conn_session (ld_target ?l))) ping_statement \<or>
         (\<exists>t q. c = SessionExecute (the (conn_session (ld_source ?l))) q \<and> t \<in> set (lc_tables (loader_opts ?l)) \<and>
            \<not> ld_blacklists ?l (tc_name t) \<and> q \<in> table_queries t))"
    by (fastforce simp: pings_or_queries_def allowed_queries_def)
  show ?thesis
    unfolding Let_def rules
    using calls auto_start_counts [OF _ _ main(1,2), of _ sched fl fl64 ms "with_pings s0 pings" box' sv' t] assms(2)
    by (auto simp: Let_def)
qed

theorem loader_process_calls_witness:
  "\<exists>sv s0 box' sv' t new. let d = scripted_driver (\<lambda>_ _ _. None) in
     sstable_loader_main (tree_host shipped_files) tree_yaml d [''--auto-start'', ''--skip-filters''] io_start =
       (Serving sv, s0) \<and>
     auto_start (beside_api d (ld_source (lv_loader sv)) (ld_target (lv_loader sv))) id id id 5 [] sv
       (with_pings s0 [[SourceSide, TargetSide], [SourceSide]]) = Returned (box', sv', t) \<and>
     io_calls (api_probes d (ld_source (lv_loader sv)) (ld_target (lv_loader sv)) [TargetSide] (history t)) =
       io_calls s0 @ new \<and>
     (\<forall>q. SessionExecute 4 q \<in> set new \<longrightarrow> q = ping_statement) \<and>
     map tc_name (lc_tables (loader_opts (lv_loader sv))) = [''users'', ''orders'', ''products''] \<and>
     ld_tables_completed (lv_loader sv') = 3"
proof -
  let ?d = "scripted_driver (\<lambda>_ _ _. None) :: nat driver"
  obtain sv s0 where m: "sstable_loader_main (tree_host shipped_files) tree_yaml ?d
      [''--auto-start'', ''--skip-filters''] io_start = (Serving sv, s0)"
    and opts: "loader_opts (lv_loader sv) = shipped_loader_config" "la_auto_start (lv_args sv)"
      "la_skip_filters (lv_args sv)"
    and sessions: "conn_session (ld_source (lv_loader sv)) = Some 1" "conn_session (ld_target (lv_loader sv)) = Some 4"
    by (simp add: sstable_loader_main_def parse_loader_args_def default_loader_args_def sstable_loader_new_def
        loader_opts_def loader_flag_def shipped_loader_loads connect_clusters_def conn_new_def conn_connect_def
        scripted_driver_def io_start_def Let_def)
  have nz: "lc_max_concurrent_loaders shipped_loader_config \<noteq> 0" "lc_num_ranges_per_core shipped_loader_config \<noteq> 0"
    "map tc_name (lc_tables shipped_loader_config) = [''users'', ''orders'', ''products'']"
    "length (lc_tables shipped_loader_config) = 3"
    by (simp_all add: shipped_loader_config_def default_loader_config_def)
  let ?b = "beside_api ?d (ld_source (lv_loader sv)) (ld_target (lv_loader sv))"
  let ?t0 = "with_pings s0 [[SourceSide, TargetSide], [SourceSide]]"
  note ends = start_migration_ends [OF loader_main_facts(1,2) [OF m], of ?b id id id 5 "[]" "[]" ?t0]
  obtain x where "start_migration ?b id id id 5 [] [] (lv_loader sv) ?t0 = Returned x"
    using ends opts nz by (cases "start_migration ?b id id id 5 [] [] (lv_loader sv) ?t0") (auto simp: no_pause_def)
  then obtain box' sv' t where a: "auto_start ?b id id id 5 [] sv ?t0 = Returned (box', sv', t)"
    using opts(2) by (cases x) (auto simp: auto_start_def)
  obtain new where new:
    "io_calls (api_probes ?d (ld_source (lv_loader sv)) (ld_target (lv_loader sv)) [TargetSide] (history t)) = io_calls s0 @ new"
    "\<forall>q. SessionExecute 4 q \<in> set new \<longrightarrow> q = ping_statement" "ld_tables_completed (lv_loader sv') = 3"
    using loader_process_calls [OF m a, of "[TargetSide]"] opts sessions nz
    by (auto simp: Let_def word_gt_0) fastforce
  show ?thesis
    unfolding Let_def using m a new opts nz by auto
qed

text \<open>C20. How the loader process ends after a shutdown signal: it can hang only if its HTTP API is
  listening, if a pause request was sent, or if the migration runs with no loader thread; it can
  crash only if the migration runs with no range per core; and when it returns, every driver
  handle has been freed and the loader is stopped.\<close>

theorem loader_process_ends:
  assumes "sstable_loader_main h y d argv s = (Serving sv, s0)" "io_calls s = []"
  shows "case loader_process d sched fl fl64 ms bound box sv s0 of
    ProcessReturns l s' \<Rightarrow> \<not> bound \<and> owed s' = freed s' \<and> \<not> ld_running l
  | ProcessCrashes \<Rightarrow> la_auto_start (lv_args sv) \<and> lc_num_ranges_per_core (loader_opts (lv_loader sv)) = 0
  | ProcessHangs \<Rightarrow> bound \<or> la_auto_start (lv_args sv) \<and>
      ((\<exists>cs \<in> set box. CtlPause \<in> set cs) \<or> lc_max_concurrent_loaders (loader_opts (lv_loader sv)) = 0)"
proof -
  let ?l = "lv_loader sv"
  note main = loader_main_facts [OF assms(1)]
  note ends = start_migration_ends [OF main(1,2), of d sched fl fl64 ms "[]" box s0]
  show ?thesis
  proof (cases "auto_start d sched fl fl64 ms box sv s0")
    case (Returned r)
    obtain box' sv' s1 where r: "r = (box', sv', s1)" by (metis prod_cases3)
    note keep = auto_start_keeps [OF Returned [unfolded r] main(1)]
    have "executes s0 s1"
      using query_run_only [OF keep(3)] by (fastforce simp: queries_only_def intro: executesI)
    then have "balanced s0 own s1 own" for own by (rule executes_balanced)
    then have "balanced s {#} s1 (owned (ld_target ?l) + owned (ld_source ?l))"
      using balanced_trans [OF main(3)] by (metis add.commute)
    then have "balanced s {#} (conn_destroy d (ld_source ?l) (conn_destroy d (ld_target ?l) s1)) {#}"
      using balanced_trans balanced_destroy [of s1 "ld_target ?l" "owned (ld_source ?l)" d]
        balanced_destroy [of "conn_destroy d (ld_target ?l) s1" "ld_source ?l" "{#}" d]
      by (metis add.right_neutral)
    then show ?thesis
      using Returned r keep(1,2) balanced_from_start [OF assms(2)]
      by (simp add: loader_process_def loader_shutdown_def loader_stop_def loader_destroy_def Let_def)
  next
    case NeverReturns
    then show ?thesis
      using ends(2) by (auto simp: loader_process_def auto_start_def no_pause_def list_all_iff split: if_splits)
        (cases "start_migration d sched fl fl64 ms [] box ?l s0", auto)
  next
    case DivByZero
    then show ?thesis
      using ends(1) by (auto simp: loader_process_def auto_start_def run_bind_crash split: if_splits)
  qed
qed

theorem loader_process_ends_witness:
  "\<exists>sv s0. sstable_loader_main example_host example_yaml (scripted_driver (\<lambda>_ _ _. None)) [''--auto-start''] io_start =
       (Serving sv, s0) \<and>
     (case loader_process (scripted_driver (\<lambda>_ _ _. None)) id id id 5 False [] sv s0 of
        ProcessReturns l s' \<Rightarrow> owed s' = freed s' | _ \<Rightarrow> False)"
proof -
  let ?d = "scripted_driver (\<lambda>_ _ _. None) :: nat driver"
  obtain sv s0 where m: "sstable_loader_main example_host example_yaml ?d [''--auto-start''] io_start = (Serving sv, s0)"
    and opts: "loader_opts (lv_loader sv) = default_loader_config"
    by (simp add: sstable_loader_main_def parse_loader_args_def default_loader_args_def sstable_loader_new_def loader_opts_def
        loader_flag_def sstable_loader_from_yaml_def parse_loader_config_def example_startup_simps)
  have "lc_max_concurrent_loaders default_loader_config \<noteq> 0" "lc_num_ranges_per_core default_loader_config \<noteq> 0"
    by (simp_all add: default_loader_config_def)
  then have "case loader_process ?d id id id 5 False [] sv s0 of
      ProcessReturns l s' \<Rightarrow> owed s' = freed s' | _ \<Rightarrow> False"
    using loader_process_ends [OF m, where sched = id and fl = id and ?fl64.0 = id and ms = 5 and bound = False and box = "[]"] opts
    by (auto simp: io_start_def split: process_end.splits)
  with m show ?thesis by blast
qed

end
