(* ===== verification/Unit_Tests.thy ===== *)
theory Unit_Tests
  imports Dual_Writer_Config Dual_Reader_Config Sstable_Config Token_Range
begin

text \<open>
  The unit tests (\<open>tests/\<close>). Three of the five files do not link the services: they hold their
  own copies of the code under test, \<open>TestBlacklistGovernor\<close> of \<open>test_filter_governor.cpp\<close> and
  \<open>calculate_ranges\<close> and \<open>build_range_query\<close> of \<open>test_token_range.cpp\<close>. These copies are modelled and
  compared with the code of the services, so that the tests say something about it.

  The test cases themselves are in \<open>Test_Cases\<close>.
\<close>

section \<open>Definitions\<close>

subsection \<open>TestBlacklistGovernor\<close>

record test_governor =
  tg_table_blacklist :: "string list"
  tg_tenant_blacklist :: "string list"

definition test_governor_new :: "string list \<Rightarrow> string list \<Rightarrow> test_governor" where
  "test_governor_new table_bl tenant_bl =
     \<lparr>tg_table_blacklist = uset_of table_bl, tg_tenant_blacklist = uset_of tenant_bl\<rparr>"

definition tg_should_skip_table :: "string \<Rightarrow> test_governor \<Rightarrow> filter_decision \<times> test_governor" where
  "tg_should_skip_table table g =
     (if table \<in> set (tg_table_blacklist g) then (SkipTable, g)
      else if list_ex (\<lambda>pattern. wildcard_matches pattern table) (tg_table_blacklist g) then (SkipTable, g)
      else (Allow, g))"

definition tg_check_tenant_id :: "string \<Rightarrow> test_governor \<Rightarrow> filter_decision \<times> test_governor" where
  "tg_check_tenant_id tenant g =
     (if tenant \<in> set (tg_tenant_blacklist g) then (SkipTenant, g) else (Allow, g))"

definition tg_is_enabled :: "test_governor \<Rightarrow> bool" where
  "tg_is_enabled g = (tg_table_blacklist g \<noteq> [] \<or> tg_tenant_blacklist g \<noteq> [])"

definition tg_reload_config :: "test_governor \<Rightarrow> test_governor" where
  "tg_reload_config g = g"

definition test_governor_run :: "gov_op list \<Rightarrow> test_governor \<Rightarrow> test_governor" where
  "test_governor_run = gov_run tg_should_skip_table tg_check_tenant_id tg_reload_config"

subsection \<open>The copy of the token ranges\<close>

text \<open>The loop \<open>for (i = 0; i < num_ranges; ++i)\<close>, from \<open>i\<close> on; a division by zero ends the program.\<close>

function test_ranges_from :: "nat \<Rightarrow> int \<Rightarrow> nat \<Rightarrow> token_range list" where
  "test_ranges_from num_ranges width i =
     (if num_ranges \<le> i then []
      else
        let s = min_token + int i * width;
            e = (if i = num_ranges - 1 then max_token else s + width - 1)
        in \<lparr>tr_start = word_of_int s, tr_end = word_of_int e\<rparr> # test_ranges_from num_ranges width (Suc i))"
  by pat_completeness auto
termination by (relation "measure (\<lambda>(n, _, i). n - i)") auto

declare test_ranges_from.simps [simp del]

definition test_calculate_ranges :: "nat \<Rightarrow> token_range list option" where
  "test_calculate_ranges num_ranges =
     (let token_space = max_token - min_token + 1
      in if num_ranges = 0 then None else Some (test_ranges_from num_ranges (token_space div int num_ranges) 0))"

text \<open>The loop over the partition keys, from the second on with a comma before each.\<close>

fun test_token_columns :: "nat \<Rightarrow> string list \<Rightarrow> string \<Rightarrow> string" where
  "test_token_columns i [] columns = columns"
| "test_token_columns i (k # ks) columns =
     test_token_columns (Suc i) ks ((if 0 < i then columns @ '', '' else columns) @ k)"

definition test_build_range_query :: "string \<Rightarrow> string list \<Rightarrow> token_range \<Rightarrow> string" where
  "test_build_range_query table partition_keys r =
     (let columns = test_token_columns 0 partition_keys []
      in ''SELECT * FROM '' @ table @
         '' WHERE token('' @ columns @ '') >= '' @ int_to_string (sint (tr_start r)) @
         '' AND token('' @ columns @ '') <= '' @ int_to_string (sint (tr_end r)))"

subsection \<open>Helper of the dual-reader tests\<close>

definition make_config :: "bool \<Rightarrow> string list \<Rightarrow> string list \<Rightarrow> dr_filter_config" where
  "make_config enabled tables domains = default_dr_filter_config
     \<lparr>dr_cfg_enabled := enabled, dr_cfg_compare_tables := tables, dr_cfg_compare_system_domain_ids := domains\<rparr>"

section \<open>Lemmas\<close>

subsection \<open>The copies\<close>

interpretation test_gov: blacklist_governor tg_should_skip_table tg_check_tenant_id tg_is_enabled
    tg_reload_config "\<lambda>g. g" "\<lambda>_. True" tg_table_blacklist tg_tenant_blacklist "\<lambda>g. g"
  by unfold_locales (auto simp: tg_should_skip_table_def tg_check_tenant_id_def tg_reload_config_def tg_is_enabled_def)

lemma test_governor_run_id [simp]: "test_governor_run ops g = g"
  using test_gov.run_keeps [of ops g] by (simp add: test_governor_run_def)

lemma test_ranges_from_eq:
  "test_ranges_from n (range_size n) i =
     map (\<lambda>i. \<lparr>tr_start = word_of_int (range_start n i), tr_end = word_of_int (range_end n i)\<rparr>) [i..<n]"
proof (induction "n - i" arbitrary: i)
  case 0
  then show ?case by (subst test_ranges_from.simps) simp
next
  case (Suc k)
  then have "i < n" "k = n - Suc i" by simp_all
  then show ?case
    using Suc(1) [of "Suc i"]
    by (subst test_ranges_from.simps) (simp add: range_start_def range_end_def Let_def upt_conv_Cons)
qed

lemma test_calculate_ranges_eq: "0 < n \<Longrightarrow> test_calculate_ranges n = Some (generate_ranges n)"
  using test_ranges_from_eq [of n 0]
  by (simp add: test_calculate_ranges_def generate_ranges_def range_size_def token_space_def Let_def)

lemma test_token_columns_from:
  "0 < i \<Longrightarrow> test_token_columns i ks columns = columns @ concat (map (\<lambda>k. '', '' @ k) ks)"
  by (induction ks arbitrary: i columns) simp_all

lemma join_with_concat: "join_with sep (k # ks) = k @ concat (map (\<lambda>k. sep @ k) ks)"
  by (induction ks arbitrary: k) simp_all

lemma test_token_columns_eq: "test_token_columns 0 ks [] = token_columns ks"
  by (cases ks) (simp_all add: test_token_columns_from token_columns_def join_with_concat del: join_with.simps(3))

text \<open>The copy of the query lacks the \<open>JSON\<close> of the loader's.\<close>

lemma test_query_differs:
  "\<exists>rest. test_build_range_query table ks r = ''SELECT * FROM '' @ rest \<and>
     build_range_query table ks r = ''SELECT JSON * FROM '' @ rest"
  by (simp add: test_build_range_query_def build_range_query_def test_token_columns_eq Let_def)

subsection \<open>The governors after any operations\<close>

lemma dw_run_decides:
  "fst (dw_check_tenant_id i (dw_governor_run ops (dw_governor_new cfg))) =
     (if i \<in> set (dw_cfg_tenant_blacklist cfg) then SkipTenant else Allow)"
  "dw_is_enabled (dw_governor_run ops (dw_governor_new cfg)) \<longleftrightarrow>
     dw_cfg_tenant_blacklist cfg \<noteq> [] \<or> dw_cfg_table_blacklist cfg \<noteq> []"
  unfolding dw_governor_run_def dw_gov.tenant_stable [OF dw_governor_inv_new] dw_gov.enabled_stable [OF dw_governor_inv_new]
  by (simp_all add: dw_check_tenant_id_def dw_is_enabled_def dw_governor_new_def Let_def)

lemma ss_run_decides:
  "fst (ss_check_tenant_id i (ss_governor_run ops (ss_governor_new cfg))) =
     (if i \<in> set (ss_cfg_tenant_blacklist cfg) then SkipTenant else Allow)"
  "ss_is_enabled (ss_governor_run ops (ss_governor_new cfg)) \<longleftrightarrow>
     ss_cfg_tenant_blacklist cfg \<noteq> [] \<or> ss_cfg_table_blacklist cfg \<noteq> []"
  unfolding ss_governor_run_def ss_gov.tenant_stable [OF ss_governor_inv_new] ss_gov.enabled_stable [OF ss_governor_inv_new]
  by (simp_all add: ss_check_tenant_id_def ss_is_enabled_def ss_governor_new_def Let_def)

subsection \<open>The ranges\<close>

text \<open>What the cases of \<open>test_token_range.cpp\<close> check for 4 and 256 ranges, for any number of them.\<close>

lemma test_ranges:
  assumes "0 < n" "n \<le> 2 ^ 64"
  shows "\<exists>rs. test_calculate_ranges n = Some rs \<and> length rs = n \<and>
    sint (tr_start (rs ! 0)) = - (2 ^ 63) \<and> sint (tr_end (rs ! (n - 1))) = 2 ^ 63 - 1 \<and>
    (\<forall>i. Suc i < n \<longrightarrow> sint (tr_end (rs ! i)) + 1 = sint (tr_start (rs ! Suc i))) \<and>
    (\<forall>i < n. sint (tr_start (rs ! i)) \<le> sint (tr_end (rs ! i)))"
  using generate_ranges_ends [OF assms] range_bounds(2) [OF _ assms(2)] assms
  by (auto simp: test_calculate_ranges_eq generate_ranges_nth)

section \<open>Properties\<close>

text \<open>C23. The blacklist governors of the dual writer and of the loader, after any sequence of
  decisions and reloads, and the governor that the unit tests check in their place, built from the
  same lists, are interchangeable: they skip the same tables (those that the list names or has a
  pattern \<open>*.suffix\<close> for) and the same tenants, and are enabled in the same cases.\<close>

theorem blacklist_governors_agree:
  "let dw = dw_governor_run ops
         (dw_governor_new \<lparr>dw_cfg_tenant_blacklist = tenants, dw_cfg_table_blacklist = tables, dw_cfg_tenant_id_columns = cols\<rparr>);
       ss = ss_governor_run ops'
         (ss_governor_new \<lparr>ss_cfg_tenant_blacklist = tenants, ss_cfg_table_blacklist = tables, ss_cfg_tenant_id_columns = cols'\<rparr>);
       tg = test_governor_run ops'' (test_governor_new tables tenants);
       on_table = (if table_blacklisted (set tables) t then SkipTable else Allow);
       on_tenant = (if i \<in> set tenants then SkipTenant else Allow);
       enabled = (\<not> (tables = [] \<and> tenants = []))
   in fst (dw_should_skip_table t dw) = on_table \<and> fst (ss_should_skip_table t ss) = on_table \<and>
      fst (tg_should_skip_table t tg) = on_table \<and>
      fst (dw_check_tenant_id i dw) = on_tenant \<and> fst (ss_check_tenant_id i ss) = on_tenant \<and>
      fst (tg_check_tenant_id i tg) = on_tenant \<and>
      dw_is_enabled dw = enabled \<and> ss_is_enabled ss = enabled \<and> tg_is_enabled tg = enabled"
  by (simp add: dw_gov.decides ss_gov.decides test_gov.decides dw_run_decides ss_run_decides Let_def)
    (auto simp: test_governor_new_def tg_check_tenant_id_def tg_is_enabled_def)

end
