(* ===== verification/Test_Cases.thy ===== *)
theory Test_Cases
  imports Unit_Tests
begin

text \<open>
  The cases of the unit tests (\<open>tests/test_*.cpp\<close>), each as the conjunction of its \<open>REQUIRE\<close>s in
  the order of the source, over the definitions that model the code under test. Together they
  are a conformance check of the model: every case of the repository's own suite holds.

  A decision returns the governor with its statistics, which the next call takes. Copying or
  moving an object gives the same value; a moved-from object is not used afterwards.
\<close>

section \<open>Definitions\<close>

subsection \<open>\<open>test_types.cpp\<close>\<close>

definition case_discrepancy_type_names :: bool where
  "case_discrepancy_type_names \<longleftrightarrow>
     discrepancy_type_to_string MissingInTarget = ''MissingInTarget'' \<and>
     discrepancy_type_to_string MissingInSource = ''MissingInSource'' \<and>
     discrepancy_type_to_string DataMismatch = ''DataMismatch'' \<and>
     discrepancy_type_to_string TimestampMismatch = ''TimestampMismatch''"

definition case_discrepancy_defaults :: "nat \<Rightarrow> bool" where
  "case_discrepancy_defaults now \<longleftrightarrow>
     (let disc = new_discrepancy now in
      disc_id disc = [] \<and> disc_table disc = [] \<and> disc_key disc = [] \<and> disc_type disc = DataMismatch \<and>
      disc_source_value disc = None \<and> disc_target_value disc = None)"

definition case_discrepancy_copy :: "nat \<Rightarrow> bool" where
  "case_discrepancy_copy now \<longleftrightarrow>
     (let original = (new_discrepancy now)\<lparr>disc_id := ''disc-001'', disc_table := ''ks.assets'',
            disc_type := MissingInTarget, disc_source_value := Some ''{\"id\": 42}'',
            disc_key := [(''system_domain_id'', ''domain-abc'')]\<rparr>;
          copy = original
      in disc_id copy = ''disc-001'' \<and> disc_table copy = ''ks.assets'' \<and> disc_type copy = MissingInTarget \<and>
         disc_source_value copy = Some ''{\"id\": 42}'' \<and>
         map_of (disc_key copy) ''system_domain_id'' = Some ''domain-abc'')"

definition case_discrepancy_move :: "nat \<Rightarrow> bool" where
  "case_discrepancy_move now \<longleftrightarrow>
     (let original = (new_discrepancy now)\<lparr>disc_id := ''disc-002'', disc_table := ''ks.files''\<rparr>;
          moved = original
      in disc_id moved = ''disc-002'' \<and> disc_table moved = ''ks.files'')"

definition case_result_defaults :: "nat \<Rightarrow> bool" where
  "case_result_defaults now \<longleftrightarrow>
     (let r = new_validation_result now in
      vr_table r = [] \<and> vr_rows_checked r = 0 \<and> vr_rows_matched r = 0 \<and> vr_discrepancies r = [] \<and>
      vr_consistency_percentage r = 100 \<and> vr_source_only r = False)"

definition case_summary_source_only :: "(real \<Rightarrow> string) \<Rightarrow> nat \<Rightarrow> bool" where
  "case_summary_source_only show_float now \<longleftrightarrow>
     (let r = (new_validation_result now)\<lparr>vr_table := ''ks.assets'', vr_source_only := True\<rparr>;
          text = summary show_float r
      in str_find ''ks.assets'' text \<noteq> None \<and> str_find ''[source-only]'' text \<noteq> None)"

definition case_summary_discrepancies :: "(real \<Rightarrow> string) \<Rightarrow> nat \<Rightarrow> bool" where
  "case_summary_discrepancies show_float now \<longleftrightarrow>
     (let r = (new_validation_result now)\<lparr>vr_table := ''ks.files'', vr_rows_checked := 1000, vr_rows_matched := 990,
            vr_consistency_percentage := 99, vr_source_only := False\<rparr>;
          disc = (new_discrepancy now)\<lparr>disc_id := ''d1'', disc_table := ''ks.files'', disc_type := MissingInTarget\<rparr>;
          text = summary show_float (r\<lparr>vr_discrepancies := vr_discrepancies r @ [disc]\<rparr>)
      in str_find ''checked=1000'' text \<noteq> None \<and> str_find ''matched=990'' text \<noteq> None \<and>
         str_find ''discrepancies=1'' text \<noteq> None \<and> str_find ''[source-only]'' text = None)"

definition case_result_copy_move :: "nat \<Rightarrow> bool" where
  "case_result_copy_move now \<longleftrightarrow>
     (let r = (new_validation_result now)\<lparr>vr_table := ''ks.collections'', vr_rows_checked := 500, vr_rows_matched := 495\<rparr>;
          original = r\<lparr>vr_discrepancies := vr_discrepancies r @ [(new_discrepancy now)\<lparr>disc_id := ''d-copy-test''\<rparr>]\<rparr>;
          copy = original;
          moved = copy
      in vr_table copy = ''ks.collections'' \<and> length (vr_discrepancies copy) = 1 \<and>
         disc_id (vr_discrepancies copy ! 0) = ''d-copy-test'' \<and>
         vr_rows_checked moved = 500 \<and> length (vr_discrepancies moved) = 1)"

subsection \<open>\<open>test_config.cpp\<close>\<close>

definition case_database_defaults :: bool where
  "case_database_defaults \<longleftrightarrow>
     (let cfg = default_database_config in
      db_driver cfg = [] \<and> db_port cfg = 9042 \<and> db_connection_timeout_ms cfg = 5000 \<and>
      db_request_timeout_ms cfg = 30000 \<and> db_pool_size cfg = 8 \<and> db_speculative_execution cfg = False \<and>
      db_speculative_delay_ms cfg = 100 \<and> db_username cfg = None \<and> db_password cfg = None)"

definition case_database_copy :: bool where
  "case_database_copy \<longleftrightarrow>
     (let original = default_database_config\<lparr>db_driver := ''scylla'', db_hosts := [''node1'', ''node2'', ''node3''],
            db_keyspace := ''production'', db_username := Some ''admin'', db_password := Some ''secret''\<rparr>;
          copy = original;
          assigned = original
      in db_driver copy = ''scylla'' \<and> length (db_hosts copy) = 3 \<and> db_keyspace copy = ''production'' \<and>
         db_username copy = Some ''admin'' \<and> length (db_hosts assigned) = 3 \<and> db_keyspace assigned = ''production'')"

definition case_database_move :: bool where
  "case_database_move \<longleftrightarrow>
     (let original = default_database_config\<lparr>db_driver := ''cassandra'', db_hosts := [''gcp-node-1'', ''gcp-node-2''],
            db_keyspace := ''iconik_production''\<rparr>;
          moved = original
      in db_driver moved = ''cassandra'' \<and> length (db_hosts moved) = 2 \<and> db_keyspace moved = ''iconik_production'')"

definition case_observability_defaults :: bool where
  "case_observability_defaults \<longleftrightarrow>
     (let cfg = default_observability_config in
      obs_metrics_port cfg = 9092 \<and> obs_log_level cfg = ''info'' \<and> obs_jaeger_endpoint cfg = None)"

definition case_observability_copy_move :: bool where
  "case_observability_copy_move \<longleftrightarrow>
     (let original = default_observability_config\<lparr>obs_metrics_port := 9090, obs_log_level := ''debug'',
            obs_jaeger_endpoint := Some ''http://jaeger:14268/api/traces''\<rparr>;
          copy = original;
          moved = copy
      in obs_metrics_port copy = 9090 \<and> obs_jaeger_endpoint copy = Some ''http://jaeger:14268/api/traces'' \<and>
         obs_log_level moved = ''debug'')"

subsection \<open>\<open>test_filter_governor.cpp\<close>\<close>

definition case_table_exact :: bool where
  "case_table_exact \<longleftrightarrow>
     (let gov = test_governor_new [''keyspace.secret_table'', ''stats_keyspace.user_audit''] [] in
      fst (tg_should_skip_table ''keyspace.secret_table'' gov) = SkipTable \<and>
      fst (tg_should_skip_table ''stats_keyspace.user_audit'' gov) = SkipTable \<and>
      fst (tg_should_skip_table ''keyspace.public_table'' gov) = Allow \<and>
      fst (tg_should_skip_table ''other.table'' gov) = Allow)"

definition case_table_wildcard :: bool where
  "case_table_wildcard \<longleftrightarrow>
     (let gov = test_governor_new [''*.migrations'', ''*.celery_task_info''] [] in
      fst (tg_should_skip_table ''any_keyspace.migrations'' gov) = SkipTable \<and>
      fst (tg_should_skip_table ''another.migrations'' gov) = SkipTable \<and>
      fst (tg_should_skip_table ''ks.celery_task_info'' gov) = SkipTable \<and>
      fst (tg_should_skip_table ''ks.actual_data'' gov) = Allow)"

definition case_tenants :: bool where
  "case_tenants \<longleftrightarrow>
     (let gov = test_governor_new [] [''tenant-123'', ''tenant-456''] in
      fst (tg_check_tenant_id ''tenant-123'' gov) = SkipTenant \<and>
      fst (tg_check_tenant_id ''tenant-456'' gov) = SkipTenant \<and>
      fst (tg_check_tenant_id ''tenant-789'' gov) = Allow \<and>
      fst (tg_check_tenant_id [] gov) = Allow)"

definition case_enabled :: bool where
  "case_enabled \<longleftrightarrow>
     \<not> tg_is_enabled (test_governor_new [] []) \<and>
     tg_is_enabled (test_governor_new [''ks.table''] []) \<and>
     tg_is_enabled (test_governor_new [] [''tid''])"

definition case_allow_all :: bool where
  "case_allow_all \<longleftrightarrow>
     (let gov = test_governor_new [] [] in
      fst (tg_should_skip_table ''any.table'' gov) = Allow \<and>
      fst (tg_check_tenant_id ''any-tenant'' gov) = Allow \<and>
      \<not> tg_is_enabled gov)"

definition case_decision_names :: bool where
  "case_decision_names \<longleftrightarrow>
     filter_decision_to_string Allow = ''Allow'' \<and>
     filter_decision_to_string SkipTable = ''SkipTable'' \<and>
     filter_decision_to_string SkipTenant = ''SkipTenant'' \<and>
     filter_decision_to_string SourceOnly = ''SourceOnly''"

subsection \<open>\<open>test_dual_reader_filter.cpp\<close>\<close>

definition case_disabled :: bool where
  "case_disabled \<longleftrightarrow>
     (let gov = dr_governor_new (make_config False [''ks.table_a''] [''domain-1'']);
          (r1, gov1) = dr_decide ''ks.other_table'' ''unknown-domain'' gov;
          (r2, gov2) = dr_decide ''ks.table_a'' ''domain-1'' gov1
      in r1 = DualRead \<and> r2 = DualRead \<and> \<not> dr_is_enabled gov2)"

definition case_table_not_listed :: bool where
  "case_table_not_listed \<longleftrightarrow>
     (let gov = dr_governor_new (make_config True [''ks.approved_table''] []);
          (r1, gov1) = dr_decide ''ks.other_table'' [] gov;
          (r2, gov2) = dr_decide ''ks.approved_table'' [] gov1
      in r1 = ReadSourceOnly \<and> r2 = DualRead)"

definition case_domain_not_listed :: bool where
  "case_domain_not_listed \<longleftrightarrow>
     (let gov = dr_governor_new (make_config True [] [''domain-abc-123'']);
          (r1, gov1) = dr_decide ''ks.any_table'' ''domain-abc-123'' gov;
          (r2, gov2) = dr_decide ''ks.any_table'' ''domain-xyz-999'' gov1
      in r1 = DualRead \<and> r2 = ReadSourceOnly)"

definition case_and_gate :: bool where
  "case_and_gate \<longleftrightarrow>
     (let gov = dr_governor_new (make_config True [''ks.assets''] [''domain-abc-123'', ''domain-def-456'']);
          (r1, gov1) = dr_decide ''ks.assets'' ''domain-abc-123'' gov;
          (r2, gov2) = dr_decide ''ks.other'' ''domain-abc-123'' gov1;
          (r3, gov3) = dr_decide ''ks.assets'' ''domain-unknown'' gov2;
          (r4, gov4) = dr_decide ''ks.other'' ''domain-unknown'' gov3
      in r1 = DualRead \<and> r2 = ReadSourceOnly \<and> r3 = ReadSourceOnly \<and> r4 = ReadSourceOnly)"

definition case_no_domain :: bool where
  "case_no_domain \<longleftrightarrow>
     (let gov = dr_governor_new (make_config True [''ks.assets''] [''domain-abc-123''])
      in fst (dr_decide ''ks.assets'' [] gov) = DualRead)"

definition case_stats :: bool where
  "case_stats \<longleftrightarrow>
     (let gov = dr_governor_new (make_config True [''ks.assets''] [''domain-abc'']);
          (_, gov1) = dr_decide ''ks.assets'' ''domain-abc'' gov;
          (_, gov2) = dr_decide ''ks.other'' ''domain-abc'' gov1;
          (_, gov3) = dr_decide ''ks.assets'' ''domain-xyz'' gov2;
          (_, gov4) = dr_decide ''ks.assets'' [] gov3;
          stats = dr_gov_stats gov4
      in dr_dual_reads stats = 2 \<and> dr_source_only_reads stats = 2 \<and>
         dr_tables_filtered stats = 1 \<and> dr_domains_filtered stats = 1)"

text \<open>The source calls this case \<open>empty whitelists with enabled=true blocks everything\<close>.\<close>

definition case_empty_whitelists :: bool where
  "case_empty_whitelists \<longleftrightarrow>
     (let gov = dr_governor_new (make_config True [] [])
      in fst (dr_decide ''ks.any'' ''any-domain'' gov) = DualRead)"

subsection \<open>\<open>test_token_range.cpp\<close>\<close>

definition with_ranges :: "nat \<Rightarrow> (token_range list \<Rightarrow> bool) \<Rightarrow> bool" where
  "with_ranges n check = (case test_calculate_ranges n of None \<Rightarrow> False | Some ranges \<Rightarrow> check ranges)"

definition case_ranges_cover :: bool where
  "case_ranges_cover \<longleftrightarrow> with_ranges 256 (\<lambda>ranges.
     length ranges = 256 \<and> sint (tr_start (hd ranges)) = min_token \<and> sint (tr_end (last ranges)) = max_token)"

definition case_ranges_contiguous :: bool where
  "case_ranges_contiguous \<longleftrightarrow> with_ranges 4 (\<lambda>ranges.
     length ranges = 4 \<and>
     list_all (\<lambda>i. tr_end (ranges ! i) <s tr_start (ranges ! (i + 1)) \<and>
         tr_end (ranges ! i) + 1 = tr_start (ranges ! (i + 1))) [0..<length ranges - 1])"

definition case_ranges_positive :: bool where
  "case_ranges_positive \<longleftrightarrow> with_ranges 256 (list_all (\<lambda>r. tr_start r \<le>s tr_end r))"

definition case_single_key :: bool where
  "case_single_key \<longleftrightarrow>
     test_build_range_query ''test.table'' [''id''] \<lparr>tr_start = - 1000, tr_end = 1000\<rparr> =
       ''SELECT * FROM test.table WHERE token(id) >= -1000 AND token(id) <= 1000''"

definition case_composite_key :: bool where
  "case_composite_key \<longleftrightarrow>
     test_build_range_query ''mattiasa_files_keyspace.formats'' [''system_domain_id'', ''id'']
       \<lparr>tr_start = - 1000, tr_end = 1000\<rparr> =
       ''SELECT * FROM mattiasa_files_keyspace.formats '' @
       ''WHERE token(system_domain_id, id) >= -1000 '' @
       ''AND token(system_domain_id, id) <= 1000''"

definition case_triple_key :: bool where
  "case_triple_key \<longleftrightarrow>
     test_build_range_query ''multi.table'' [''tenant_id'', ''region'', ''entity_id'']
       \<lparr>tr_start = 0, tr_end = 100\<rparr> =
       ''SELECT * FROM multi.table '' @
       ''WHERE token(tenant_id, region, entity_id) >= 0 '' @
       ''AND token(tenant_id, region, entity_id) <= 100''"

subsection \<open>The suite\<close>

definition unit_tests :: "(real \<Rightarrow> string) \<Rightarrow> nat \<Rightarrow> bool list" where
  "unit_tests show_float now =
     [case_discrepancy_type_names, case_discrepancy_defaults now, case_discrepancy_copy now,
      case_discrepancy_move now, case_result_defaults now, case_summary_source_only show_float now,
      case_summary_discrepancies show_float now, case_result_copy_move now,
      case_database_defaults, case_database_copy, case_database_move, case_observability_defaults,
      case_observability_copy_move,
      case_table_exact, case_table_wildcard, case_tenants, case_enabled, case_allow_all, case_decision_names,
      case_disabled, case_table_not_listed, case_domain_not_listed, case_and_gate, case_no_domain, case_stats,
      case_empty_whitelists,
      case_ranges_cover, case_ranges_contiguous, case_ranges_positive,
      case_single_key, case_composite_key, case_triple_key]"

section \<open>Lemmas\<close>

lemma type_cases:
  "case_discrepancy_type_names" "case_discrepancy_defaults now" "case_discrepancy_copy now"
  "case_discrepancy_move now" "case_result_defaults now" "case_result_copy_move now"
  by (simp_all add: case_discrepancy_type_names_def case_discrepancy_defaults_def case_discrepancy_copy_def
      case_discrepancy_move_def case_result_defaults_def case_result_copy_move_def new_discrepancy_def
      new_validation_result_def)

lemma str_find_infix: "str_find p (a @ p @ b) \<noteq> None"
proof (induction a)
  case Nil
  show ?case using is_prefix_append [of p b] by (cases "p @ b") auto
qed (auto split: if_splits)

lemma str_find_absent: "c \<notin> set s \<Longrightarrow> str_find (c # p) s = None"
  by (induction s) (auto simp: is_prefix_def)

lemma digit_chars: "digit_char 0 = CHR ''0''" "digit_char (Suc 0) = CHR ''1''" "digit_char 9 = CHR ''9''"
  by code_simp+

lemma printed_counts:
  "nat_to_string 0 = ''0''" "nat_to_string 1 = ''1''" "nat_to_string 1000 = ''1000''" "nat_to_string 990 = ''990''"
  by (simp_all add: nat_to_string.simps [of 0] nat_to_string.simps [of "Suc 0"] nat_to_string.simps [of 1000]
      nat_to_string.simps [of 100] nat_to_string.simps [of 10] nat_to_string.simps [of 990]
      nat_to_string.simps [of 99] nat_to_string.simps [of 9] digit_chars)

text \<open>The printed percentage is a number, without brackets.\<close>

lemma summary_cases:
  "case_summary_source_only show_float now"
  "CHR ''['' \<notin> set (show_float 99) \<Longrightarrow> case_summary_discrepancies show_float now"
proof -
  have "summary show_float ((new_validation_result now)\<lparr>vr_table := ''ks.assets'', vr_source_only := True\<rparr>) =
      ''table='' @ ''ks.assets'' @ '' checked=0 matched=0 discrepancies=0 consistency='' @ show_float 100 @ ''%'' @ '' [source-only]''"
    by (simp add: summary_def new_validation_result_def printed_counts)
  moreover have "str_find ''ks.assets'' (''table='' @ ''ks.assets'' @ x) \<noteq> None" for x by (rule str_find_infix)
  moreover have "str_find ''[source-only]'' ((''table=ks.assets checked=0 matched=0 discrepancies=0 consistency='' @ show_float 100 @ ''% '')
      @ ''[source-only]'' @ []) \<noteq> None" by (rule str_find_infix)
  ultimately show "case_summary_source_only show_float now"
    by (simp add: case_summary_source_only_def Let_def)
next
  assume no_bracket: "CHR ''['' \<notin> set (show_float 99)"
  let ?disc = "(new_discrepancy now)\<lparr>disc_id := ''d1'', disc_table := ''ks.files'', disc_type := MissingInTarget\<rparr>"
  let ?r = "(new_validation_result now)\<lparr>vr_table := ''ks.files'', vr_rows_checked := 1000, vr_rows_matched := 990,
      vr_consistency_percentage := 99, vr_source_only := False\<rparr>"
  let ?tail = "'' consistency='' @ show_float 99 @ ''%''"
  have shown: "summary show_float (?r\<lparr>vr_discrepancies := vr_discrepancies ?r @ [?disc]\<rparr>) =
      ''table=ks.files checked=1000 matched=990 discrepancies=1'' @ ?tail"
    by (simp add: summary_def new_validation_result_def printed_counts printed_counts(2) [simplified])
  have "str_find ''checked=1000'' (''table=ks.files '' @ ''checked=1000'' @ '' matched=990 discrepancies=1'' @ ?tail) \<noteq> None"
    "str_find ''matched=990'' (''table=ks.files checked=1000 '' @ ''matched=990'' @ '' discrepancies=1'' @ ?tail) \<noteq> None"
    "str_find ''discrepancies=1'' (''table=ks.files checked=1000 matched=990 '' @ ''discrepancies=1'' @ ?tail) \<noteq> None"
    by (rule str_find_infix)+
  moreover have "str_find ''[source-only]'' (''table=ks.files checked=1000 matched=990 discrepancies=1'' @ ?tail) = None"
    using no_bracket by (intro str_find_absent) simp
  ultimately show "case_summary_discrepancies show_float now"
    unfolding case_summary_discrepancies_def Let_def shown by simp
qed

lemma config_cases:
  "case_database_defaults" "case_database_copy" "case_database_move" "case_observability_defaults"
  "case_observability_copy_move"
  by (simp_all add: case_database_defaults_def case_database_copy_def case_database_move_def
      case_observability_defaults_def case_observability_copy_move_def default_database_config_def
      default_observability_config_def)

lemma governor_cases:
  "case_table_exact" "case_table_wildcard" "case_tenants" "case_enabled" "case_allow_all" "case_decision_names"
  by code_simp+

lemma reader_filter_cases:
  "case_disabled" "case_table_not_listed" "case_domain_not_listed" "case_and_gate" "case_no_domain" "case_stats"
  "case_empty_whitelists"
  by (simp_all add: case_disabled_def case_table_not_listed_def case_domain_not_listed_def case_and_gate_def
      case_no_domain_def case_stats_def case_empty_whitelists_def dr_governor_new_def make_config_def
      default_dr_filter_config_def dr_decide_def dr_is_enabled_def Let_def)

lemma range_cases: "case_ranges_cover" "case_ranges_contiguous" "case_ranges_positive"
proof -
  obtain rs where rs: "test_calculate_ranges 256 = Some rs" "length rs = 256"
    "sint (tr_start (rs ! 0)) = - (2 ^ 63)" "sint (tr_end (rs ! (256 - 1))) = 2 ^ 63 - 1"
    "\<forall>i < 256. sint (tr_start (rs ! i)) \<le> sint (tr_end (rs ! i))"
    using test_ranges [of 256] by auto
  have "rs \<noteq> []" using rs(2) by auto
  then have "hd rs = rs ! 0" "last rs = rs ! (256 - 1)" using rs(2) by (simp_all add: hd_conv_nth last_conv_nth)
  then show "case_ranges_cover"
    using rs by (simp add: case_ranges_cover_def with_ranges_def min_token_def max_token_def)
  show "case_ranges_positive"
    using rs by (simp add: case_ranges_positive_def with_ranges_def list_all_length word_sle_eq)
  obtain qs where qs: "test_calculate_ranges 4 = Some qs" "length qs = 4"
    "\<forall>i. Suc i < 4 \<longrightarrow> sint (tr_end (qs ! i)) + 1 = sint (tr_start (qs ! Suc i))"
    using test_ranges [of 4] by auto
  have "tr_end (qs ! i) <s tr_start (qs ! (i + 1)) \<and> tr_end (qs ! i) + 1 = tr_start (qs ! (i + 1))" if "i < 3" for i
  proof -
    have "sint (tr_end (qs ! i)) + 1 = sint (tr_start (qs ! Suc i))" using qs(3) that by simp
    moreover have "tr_end (qs ! i) + 1 = word_of_int (sint (tr_end (qs ! i)) + 1)"
      by (simp add: wi_hom_add [symmetric] del: of_int_add)
    ultimately show ?thesis by (simp add: word_sless_alt)
  qed
  then show "case_ranges_contiguous"
    using qs(1,2) by (simp add: case_ranges_contiguous_def with_ranges_def list_all_iff)
qed

lemma query_cases: "case_single_key" "case_composite_key" "case_triple_key"
  by code_simp+

text \<open>Every case of the suite holds of the model.\<close>

lemma unit_tests_pass:
  "CHR ''['' \<notin> set (show_float 99) \<Longrightarrow> list_all id (unit_tests show_float now)"
  by (simp add: unit_tests_def type_cases summary_cases config_cases governor_cases reader_filter_cases
      range_cases query_cases)

end
