(* ===== verification/Index_Manager.thy ===== *)
theory Index_Manager
  imports Svckit_Database
begin

text \<open>
  Secondary indexes around a bulk load (\<open>services/sstable-loader/src/index_manager.cpp\<close>):
  the strategy interface, its sequential and its parallel implementation, the manager, the
  YAML loader and the factory.

  The threads of a parallel batch take effect in the order that the choices of \<open>sched\<close> give
  (\<open>run_order\<close>): any order, in which every thread runs exactly once before the batch is
  joined. Sleeps and logging are left out.
\<close>

section \<open>Definitions\<close>

record index_info =
  ix_keyspace :: string
  ix_table :: string
  ix_index_name :: string
  ix_column_name :: string
  ix_index_type :: string

subsection \<open>Statements\<close>

definition drop_ddl :: "index_info \<Rightarrow> string" where
  "drop_ddl ix = ''DROP INDEX IF EXISTS '' @ ix_keyspace ix @ ''.'' @ ix_index_name ix"

definition create_ddl :: "index_info \<Rightarrow> string" where
  "create_ddl ix =
     ''CREATE INDEX IF NOT EXISTS '' @ ix_index_name ix @ '' ON '' @ ix_keyspace ix @ ''.'' @
     ix_table ix @ '' ('' @ ix_column_name ix @ '')''"

definition verify_query :: "index_info \<Rightarrow> string" where
  "verify_query ix =
     ''SELECT index_name FROM system_schema.indexes WHERE keyspace_name = '' @
     [CHR 0x27] @ ix_keyspace ix @ [CHR 0x27] @ '' AND table_name = '' @
     [CHR 0x27] @ ix_table ix @ [CHR 0x27] @ '' AND index_name = '' @
     [CHR 0x27] @ ix_index_name ix @ [CHR 0x27]"

subsection \<open>Sequential strategy\<close>

definition drop_one ::
  "'w driver \<Rightarrow> scylla_connection \<Rightarrow> index_info \<Rightarrow> string list \<times> 'w io \<Rightarrow> string list \<times> 'w io" where
  "drop_one d conn ix st =
     (case conn_execute d conn (drop_ddl ix) (snd st) of
        (Inr _, s) \<Rightarrow> (fst st @ [ix_index_name ix], s)
      | (Inl _, s) \<Rightarrow> (fst st, s))"

definition standard_drop_indexes ::
  "'w driver \<Rightarrow> scylla_connection \<Rightarrow> index_info list \<Rightarrow> 'w io \<Rightarrow> string list \<times> 'w io" where
  "standard_drop_indexes d conn ixs s = fold (drop_one d conn) ixs ([], s)"

fun standard_rebuild_indexes ::
  "'w driver \<Rightarrow> scylla_connection \<Rightarrow> index_info list \<Rightarrow> 'w io \<Rightarrow> unit outcome \<times> 'w io" where
  "standard_rebuild_indexes d conn [] s = (Inr (), s)"
| "standard_rebuild_indexes d conn (ix # ixs) s =
     (case conn_execute d conn (create_ddl ix) s of
        (Inr _, s') \<Rightarrow> standard_rebuild_indexes d conn ixs s'
      | (Inl e, s') \<Rightarrow>
          (Inl (DatabaseError (''Failed to rebuild index '' @ ix_index_name ix @ '': '' @ what e)), s'))"

fun standard_verify_indexes ::
  "'w driver \<Rightarrow> scylla_connection \<Rightarrow> index_info list \<Rightarrow> 'w io \<Rightarrow> bool \<times> 'w io" where
  "standard_verify_indexes d conn [] s = (True, s)"
| "standard_verify_indexes d conn (ix # ixs) s =
     (case conn_execute d conn (verify_query ix) s of
        (Inr _, s') \<Rightarrow> standard_verify_indexes d conn ixs s'
      | (Inl _, s') \<Rightarrow> (False, s'))"

subsection \<open>Parallel strategy\<close>

type_synonym schedule = "index_info list \<Rightarrow> nat list"

definition effective_parallelism :: "nat \<Rightarrow> nat" where
  "effective_parallelism parallelism = max parallelism 1"

definition parallel_drop_indexes ::
  "'w driver \<Rightarrow> scylla_connection \<Rightarrow> nat \<Rightarrow> schedule \<Rightarrow> index_info list \<Rightarrow> 'w io \<Rightarrow> string list \<times> 'w io" where
  "parallel_drop_indexes d conn parallelism sched ixs s =
     fold (\<lambda>batch st. fold (drop_one d conn) (run_order (sched batch) batch) st)
       (batches_of (effective_parallelism parallelism) ixs) ([], s)"

definition rebuild_one ::
  "'w driver \<Rightarrow> scylla_connection \<Rightarrow> index_info \<Rightarrow> string list \<times> 'w io \<Rightarrow> string list \<times> 'w io" where
  "rebuild_one d conn ix st =
     (case conn_execute d conn (create_ddl ix) (snd st) of
        (Inr _, s) \<Rightarrow> (fst st, s)
      | (Inl _, s) \<Rightarrow> (fst st @ [ix_index_name ix], s))"

definition parallel_rebuild_indexes ::
  "'w driver \<Rightarrow> scylla_connection \<Rightarrow> nat \<Rightarrow> schedule \<Rightarrow> index_info list \<Rightarrow> 'w io \<Rightarrow> unit outcome \<times> 'w io" where
  "parallel_rebuild_indexes d conn parallelism sched ixs s =
     (let (failures, s') = fold (\<lambda>batch st. fold (rebuild_one d conn) (run_order (sched batch) batch) st)
            (batches_of (effective_parallelism parallelism) ixs) ([], s)
      in if failures \<noteq> []
         then (Inl (DatabaseError (''Failed to rebuild '' @ nat_to_string (length failures) @ '' indexes'')), s')
         else (Inr (), s'))"

definition parallel_verify_indexes ::
  "'w driver \<Rightarrow> scylla_connection \<Rightarrow> index_info list \<Rightarrow> 'w io \<Rightarrow> bool \<times> 'w io" where
  "parallel_verify_indexes d conn ixs s = standard_verify_indexes d conn ixs s"

subsection \<open>The manager\<close>

datatype index_strategy = StandardIndexStrategy | ParallelIndexStrategy nat

fun strategy_name :: "index_strategy \<Rightarrow> string" where
  "strategy_name StandardIndexStrategy = ''StandardIndexStrategy''"
| "strategy_name (ParallelIndexStrategy _) = ''ParallelIndexStrategy''"

fun drop_indexes ::
  "index_strategy \<Rightarrow> 'w driver \<Rightarrow> scylla_connection \<Rightarrow> schedule \<Rightarrow> index_info list \<Rightarrow> 'w io
   \<Rightarrow> string list \<times> 'w io" where
  "drop_indexes StandardIndexStrategy d conn sched ixs s = standard_drop_indexes d conn ixs s"
| "drop_indexes (ParallelIndexStrategy n) d conn sched ixs s =
     parallel_drop_indexes d conn n sched ixs s"

fun rebuild_indexes ::
  "index_strategy \<Rightarrow> 'w driver \<Rightarrow> scylla_connection \<Rightarrow> schedule \<Rightarrow> index_info list \<Rightarrow> 'w io
   \<Rightarrow> unit outcome \<times> 'w io" where
  "rebuild_indexes StandardIndexStrategy d conn sched ixs s = standard_rebuild_indexes d conn ixs s"
| "rebuild_indexes (ParallelIndexStrategy n) d conn sched ixs s =
     parallel_rebuild_indexes d conn n sched ixs s"

fun verify_indexes ::
  "index_strategy \<Rightarrow> 'w driver \<Rightarrow> scylla_connection \<Rightarrow> index_info list \<Rightarrow> 'w io \<Rightarrow> bool \<times> 'w io" where
  "verify_indexes StandardIndexStrategy d conn ixs s = standard_verify_indexes d conn ixs s"
| "verify_indexes (ParallelIndexStrategy n) d conn ixs s = parallel_verify_indexes d conn ixs s"

record index_manager =
  im_strategy :: index_strategy
  im_conn :: scylla_connection
  im_indexes :: "index_info list"

definition index_count :: "index_manager \<Rightarrow> nat" where
  "index_count im = length (im_indexes im)"

definition drop_all :: "'w driver \<Rightarrow> schedule \<Rightarrow> index_manager \<Rightarrow> 'w io \<Rightarrow> string list \<times> 'w io" where
  "drop_all d sched im s = drop_indexes (im_strategy im) d (im_conn im) sched (im_indexes im) s"

definition rebuild_all :: "'w driver \<Rightarrow> schedule \<Rightarrow> index_manager \<Rightarrow> 'w io \<Rightarrow> unit outcome \<times> 'w io" where
  "rebuild_all d sched im s = rebuild_indexes (im_strategy im) d (im_conn im) sched (im_indexes im) s"

definition verify_all :: "'w driver \<Rightarrow> index_manager \<Rightarrow> 'w io \<Rightarrow> bool \<times> 'w io" where
  "verify_all d im s = verify_indexes (im_strategy im) d (im_conn im) (im_indexes im) s"

definition drop_keyspace ::
  "'w driver \<Rightarrow> schedule \<Rightarrow> string \<Rightarrow> index_manager \<Rightarrow> 'w io \<Rightarrow> string list \<times> 'w io" where
  "drop_keyspace d sched keyspace im s =
     drop_indexes (im_strategy im) d (im_conn im) sched
       (filter (\<lambda>ix. ix_keyspace ix = keyspace) (im_indexes im)) s"

definition rebuild_keyspace ::
  "'w driver \<Rightarrow> schedule \<Rightarrow> string \<Rightarrow> index_manager \<Rightarrow> 'w io \<Rightarrow> unit outcome \<times> 'w io" where
  "rebuild_keyspace d sched keyspace im s =
     rebuild_indexes (im_strategy im) d (im_conn im) sched
       (filter (\<lambda>ix. ix_keyspace ix = keyspace) (im_indexes im)) s"

definition create_index_manager ::
  "scylla_connection \<Rightarrow> index_info list \<Rightarrow> nat \<Rightarrow> index_manager" where
  "create_index_manager conn ixs parallelism =
     \<lparr>im_strategy = (if 1 < parallelism then ParallelIndexStrategy parallelism else StandardIndexStrategy),
      im_conn = conn, im_indexes = ixs\<rparr>"

subsection \<open>Configuration\<close>

definition parse_index_info :: "'n yaml_api \<Rightarrow> 'n \<Rightarrow> index_info option" where
  "parse_index_info y n =
     (if y_is_scalar y n then None
      else
        case y_string y (y_child y n ''keyspace'') of None \<Rightarrow> None | Some ks \<Rightarrow>
        case y_string y (y_child y n ''table'') of None \<Rightarrow> None | Some tbl \<Rightarrow>
        case y_string y (y_child y n ''index_name'') of None \<Rightarrow> None | Some nm \<Rightarrow>
        case y_string y (y_child y n ''column_name'') of None \<Rightarrow> None | Some col \<Rightarrow>
        Some \<lparr>ix_keyspace = ks, ix_table = tbl, ix_index_name = nm, ix_column_name = col,
              ix_index_type =
                (case y_string y (y_child y n ''index_type'') of Some t \<Rightarrow> t | None \<Rightarrow> ''secondary'')\<rparr>)"

fun parse_index_infos :: "'n yaml_api \<Rightarrow> 'n list \<Rightarrow> index_info list option" where
  "parse_index_infos y [] = Some []"
| "parse_index_infos y (n # ns) =
     (case parse_index_info y n of
        None \<Rightarrow> None
      | Some ix \<Rightarrow> map_option ((#) ix) (parse_index_infos y ns))"

definition load_indexes_from_config ::
  "'n host_env \<Rightarrow> 'n yaml_api \<Rightarrow> string \<Rightarrow> load_error + index_info list" where
  "load_indexes_from_config h y path =
     (case load_yaml_root h y path of
        Inl e \<Rightarrow> Inl (LoadSync e)
      | Inr doc \<Rightarrow>
          if \<not> y_defined y doc \<or> \<not> y_is_sequence y doc
          then Inl (LoadSync (ConfigError ''Index config must be a YAML sequence''))
          else
            case parse_index_infos y (y_items y doc) of
              None \<Rightarrow> Inl LoadYaml
            | Some ixs \<Rightarrow> Inr ixs)"

section \<open>The strategy interface\<close>

text \<open>
  What the manager relies on, for either strategy: a drop runs the \<open>DROP\<close> of every index
  exactly once and reports only names of these indexes; a rebuild that does not throw has run
  the \<open>CREATE\<close> of every index exactly once, and one that throws has run a part of them.
\<close>

locale index_operations =
  fixes drop_op :: "index_info list \<Rightarrow> 's \<Rightarrow> string list \<times> 's"
    and rebuild_op :: "index_info list \<Rightarrow> 's \<Rightarrow> unit outcome \<times> 's"
    and history :: "'s \<Rightarrow> 'k list"
    and drop_calls :: "index_info \<Rightarrow> 'k list"
    and create_calls :: "index_info \<Rightarrow> 'k list"
  assumes drop_each: "\<exists>new. history (snd (drop_op ixs s)) = history s @ new \<and>
      mset new = mset (concat (map drop_calls ixs))"
    and dropped_names: "mset (fst (drop_op ixs s)) \<subseteq># mset (map ix_index_name ixs)"
    and rebuild_each: "rebuild_op ixs s = (Inr u, s') \<Longrightarrow> \<exists>new. history s' = history s @ new \<and>
      mset new = mset (concat (map create_calls ixs))"
    and rebuild_part: "\<exists>new. history (snd (rebuild_op ixs s)) = history s @ new \<and>
      mset new \<subseteq># mset (concat (map create_calls ixs))"
begin

text \<open>The operations on one keyspace leave the indexes of every other keyspace alone.\<close>

lemma keyspace_drop:
  "\<exists>new. history (snd (drop_op (filter (\<lambda>ix. ix_keyspace ix = ks) ixs) s)) = history s @ new \<and>
     (\<forall>c \<in> set new. \<exists>ix \<in> set ixs. ix_keyspace ix = ks \<and> c \<in> set (drop_calls ix))"
proof -
  obtain new where new: "history (snd (drop_op (filter (\<lambda>ix. ix_keyspace ix = ks) ixs) s)) = history s @ new"
    "mset new = mset (concat (map drop_calls (filter (\<lambda>ix. ix_keyspace ix = ks) ixs)))"
    using drop_each by blast
  then show ?thesis
    using mset_eq_setD [OF new(2)] by (intro exI [of _ new]) auto
qed

lemma keyspace_rebuild:
  "\<exists>new. history (snd (rebuild_op (filter (\<lambda>ix. ix_keyspace ix = ks) ixs) s)) = history s @ new \<and>
     (\<forall>c \<in> set new. \<exists>ix \<in> set ixs. ix_keyspace ix = ks \<and> c \<in> set (create_calls ix))"
proof -
  obtain new where new: "history (snd (rebuild_op (filter (\<lambda>ix. ix_keyspace ix = ks) ixs) s)) = history s @ new"
    "mset new \<subseteq># mset (concat (map create_calls (filter (\<lambda>ix. ix_keyspace ix = ks) ixs)))"
    using rebuild_part by blast
  then show ?thesis
    using set_mset_mono [OF new(2)] by (intro exI [of _ new]) auto
qed

end

section \<open>Lemmas\<close>

lemma drop_one_step:
  assumes "drop_one d conn ix (names, s) = (names', s')"
  shows "io_calls s' = io_calls s @ exec_calls conn (drop_ddl ix)"
    and "names' = names @ (if isl (fst (conn_execute d conn (drop_ddl ix) s)) then [] else [ix_index_name ix])"
  using assms
  by (auto simp: drop_one_def dest: io_calls_executeD split: prod.splits sum.splits)

lemma rebuild_one_step:
  assumes "rebuild_one d conn ix (names, s) = (names', s')"
  shows "io_calls s' = io_calls s @ exec_calls conn (create_ddl ix)"
    and "names' = names @ (if isl (fst (conn_execute d conn (create_ddl ix) s)) then [ix_index_name ix] else [])"
  using assms
  by (auto simp: rebuild_one_def dest: io_calls_executeD split: prod.splits sum.splits)

lemma fold_drop_calls:
  "io_calls (snd (fold (drop_one d conn) ixs (names, s))) =
     io_calls s @ concat (map (\<lambda>ix. exec_calls conn (drop_ddl ix)) ixs)"
proof (induction ixs arbitrary: names s)
  case (Cons ix ixs)
  obtain names' s' where "drop_one d conn ix (names, s) = (names', s')" by force
  with drop_one_step(1) [OF this] Cons show ?case by simp
qed simp

lemma fold_drop_names:
  "mset (fst (fold (drop_one d conn) ixs (names, s))) \<subseteq># mset names + mset (map ix_index_name ixs)"
proof (induction ixs arbitrary: names s)
  case (Cons ix ixs)
  obtain names' s' where one: "drop_one d conn ix (names, s) = (names', s')" by force
  have "mset names' \<subseteq># mset names + {#ix_index_name ix#}"
    using drop_one_step(2) [OF one] by simp
  then have "mset names' + mset (map ix_index_name ixs) \<subseteq>#
      (mset names + {#ix_index_name ix#}) + mset (map ix_index_name ixs)"
    by (rule mset_subset_eq_mono_add) simp
  moreover have "mset (fst (fold (drop_one d conn) ixs (names', s'))) \<subseteq>#
      mset names' + mset (map ix_index_name ixs)" by (rule Cons)
  ultimately show ?case
    using one subset_mset.order_trans by fastforce
qed simp

lemma fold_rebuild_calls:
  "io_calls (snd (fold (rebuild_one d conn) ixs (names, s))) =
     io_calls s @ concat (map (\<lambda>ix. exec_calls conn (create_ddl ix)) ixs)"
proof (induction ixs arbitrary: names s)
  case (Cons ix ixs)
  obtain names' s' where "rebuild_one d conn ix (names, s) = (names', s')" by force
  with rebuild_one_step(1) [OF this] Cons show ?case by simp
qed simp

lemma standard_rebuild_calls:
  assumes "standard_rebuild_indexes d conn ixs s = (r, s')"
  shows "\<exists>done rest. ixs = done @ rest \<and> (r = Inr () \<longrightarrow> rest = []) \<and>
    io_calls s' = io_calls s @ concat (map (\<lambda>ix. exec_calls conn (create_ddl ix)) done)"
  using assms
proof (induction ixs arbitrary: s)
  case (Cons ix ixs)
  obtain r1 s1 where ex: "conn_execute d conn (create_ddl ix) s = (r1, s1)" by force
  show ?case
  proof (cases r1)
    case (Inl e)
    then show ?thesis
      using Cons.prems ex io_calls_executeD [OF ex]
      by (intro exI [of _ "[ix]"] exI [of _ ixs]) auto
  next
    case (Inr u)
    then obtain dn rest where "ixs = dn @ rest" "r = Inr () \<longrightarrow> rest = []"
      "io_calls s' = io_calls s1 @ concat (map (\<lambda>ix. exec_calls conn (create_ddl ix)) dn)"
      using Cons.IH [of s1] Cons.prems ex by auto
    then show ?thesis
      using io_calls_executeD [OF ex] by (intro exI [of _ "ix # dn"] exI [of _ rest]) simp
  qed
qed simp

abbreviation par_order :: "nat \<Rightarrow> schedule \<Rightarrow> index_info list \<Rightarrow> index_info list" where
  "par_order n sched ixs \<equiv>
     concat (map (\<lambda>b. run_order (sched b) b) (batches_of (effective_parallelism n) ixs))"

lemma mset_par_order: "mset (par_order n sched ixs) = mset ixs"
  by (subst mset_concat_map_order) (simp_all add: concat_batches_of effective_parallelism_def)

lemma parallel_drop_flat:
  "parallel_drop_indexes d conn n sched ixs s = fold (drop_one d conn) (par_order n sched ixs) ([], s)"
  by (simp add: parallel_drop_indexes_def fold_fold_concat)

lemma parallel_rebuild_flat:
  "parallel_rebuild_indexes d conn n sched ixs s =
     (let (failures, s') = fold (rebuild_one d conn) (par_order n sched ixs) ([], s)
      in if failures \<noteq> []
         then (Inl (DatabaseError (''Failed to rebuild '' @ nat_to_string (length failures) @ '' indexes'')), s')
         else (Inr (), s'))"
  by (simp add: parallel_rebuild_indexes_def fold_fold_concat)

interpretation ix_std: index_operations "standard_drop_indexes d conn" "standard_rebuild_indexes d conn"
    io_calls "\<lambda>ix. exec_calls conn (drop_ddl ix)" "\<lambda>ix. exec_calls conn (create_ddl ix)"
  for d :: "'w driver" and conn
proof unfold_locales
  fix ixs and s :: "'w io"
  show "\<exists>new. io_calls (snd (standard_drop_indexes d conn ixs s)) = io_calls s @ new \<and>
      mset new = mset (concat (map (\<lambda>ix. exec_calls conn (drop_ddl ix)) ixs))"
    by (simp add: standard_drop_indexes_def fold_drop_calls)
  show "mset (fst (standard_drop_indexes d conn ixs s)) \<subseteq># mset (map ix_index_name ixs)"
    using fold_drop_names [of d conn ixs "[]" s] by (simp add: standard_drop_indexes_def)
  obtain r s1 where run: "standard_rebuild_indexes d conn ixs s = (r, s1)" by force
  then show "\<exists>new. io_calls (snd (standard_rebuild_indexes d conn ixs s)) = io_calls s @ new \<and>
      mset new \<subseteq># mset (concat (map (\<lambda>ix. exec_calls conn (create_ddl ix)) ixs))"
    using standard_rebuild_calls [OF run] by auto
next
  fix ixs and s s' :: "'w io" and u
  assume run: "standard_rebuild_indexes d conn ixs s = (Inr u, s')"
  show "\<exists>new. io_calls s' = io_calls s @ new \<and>
      mset new = mset (concat (map (\<lambda>ix. exec_calls conn (create_ddl ix)) ixs))"
    using standard_rebuild_calls [OF run] by auto
qed

interpretation ix_par: index_operations "parallel_drop_indexes d conn n sched"
    "parallel_rebuild_indexes d conn n sched"
    io_calls "\<lambda>ix. exec_calls conn (drop_ddl ix)" "\<lambda>ix. exec_calls conn (create_ddl ix)"
  for d :: "'w driver" and conn n sched
proof unfold_locales
  fix ixs and s :: "'w io"
  show "\<exists>new. io_calls (snd (parallel_drop_indexes d conn n sched ixs s)) = io_calls s @ new \<and>
      mset new = mset (concat (map (\<lambda>ix. exec_calls conn (drop_ddl ix)) ixs))"
    using mset_concat_map_cong [OF mset_par_order] by (simp add: parallel_drop_flat fold_drop_calls)
  show "mset (fst (parallel_drop_indexes d conn n sched ixs s)) \<subseteq># mset (map ix_index_name ixs)"
    using fold_drop_names [of d conn "par_order n sched ixs" "[]" s] mset_par_order [of sched n ixs]
    by (simp add: parallel_drop_flat)
  show "\<exists>new. io_calls (snd (parallel_rebuild_indexes d conn n sched ixs s)) = io_calls s @ new \<and>
      mset new \<subseteq># mset (concat (map (\<lambda>ix. exec_calls conn (create_ddl ix)) ixs))"
    using mset_concat_map_cong [OF mset_par_order [of sched n ixs], of "\<lambda>ix. exec_calls conn (create_ddl ix)"]
      fold_rebuild_calls [of d conn "par_order n sched ixs" "[]" s]
    by (auto simp: parallel_rebuild_flat case_prod_beta Let_def)
next
  fix ixs and s s' :: "'w io" and u
  assume run: "parallel_rebuild_indexes d conn n sched ixs s = (Inr u, s')"
  show "\<exists>new. io_calls s' = io_calls s @ new \<and>
      mset new = mset (concat (map (\<lambda>ix. exec_calls conn (create_ddl ix)) ixs))"
    using run mset_concat_map_cong [OF mset_par_order [of sched n ixs], of "\<lambda>ix. exec_calls conn (create_ddl ix)"]
      fold_rebuild_calls [of d conn "par_order n sched ixs" "[]" s]
    by (auto simp: parallel_rebuild_flat case_prod_beta Let_def split: if_splits)
qed

subsection \<open>Drivers whose answers depend on the statement only\<close>

definition answers_by_statement :: "'w driver \<Rightarrow> (nat \<Rightarrow> string \<Rightarrow> string option) \<Rightarrow> bool" where
  "answers_by_statement d answer \<longleftrightarrow> (\<forall>se q w. fst (cass_session_execute d se q w) = answer se q)"

definition accepted :: "(nat \<Rightarrow> string \<Rightarrow> string option) \<Rightarrow> scylla_connection \<Rightarrow> string \<Rightarrow> bool" where
  "accepted answer conn q \<longleftrightarrow> live conn \<and> answer (the (conn_session conn)) q = None"

lemma execute_accepted:
  assumes "answers_by_statement d answer"
  shows "isl (fst (conn_execute d conn q s)) = (\<not> accepted answer conn q)"
proof (cases "live conn")
  case True
  obtain rc w where "cass_session_execute d (the (conn_session conn)) q (io_world s) = (rc, w)" by force
  moreover from this have "rc = answer (the (conn_session conn)) q"
    using assms unfolding answers_by_statement_def by (metis fst_conv)
  ultimately show ?thesis
    using True by (auto simp: conn_execute_live accepted_def split: option.splits)
next
  case False
  then show ?thesis
    using conn_execute_dead [OF False, of d q s] by (auto simp: accepted_def)
qed

lemma fold_drop_accepted:
  assumes "answers_by_statement d answer"
  shows "fst (fold (drop_one d conn) ixs (names, s)) =
    names @ map ix_index_name (filter (\<lambda>ix. accepted answer conn (drop_ddl ix)) ixs)"
proof (induction ixs arbitrary: names s)
  case (Cons ix ixs)
  obtain names' s' where one: "drop_one d conn ix (names, s) = (names', s')" by force
  with drop_one_step(2) [OF one] Cons show ?case by (simp add: execute_accepted [OF assms])
qed simp

lemma fold_rebuild_accepted:
  assumes "answers_by_statement d answer"
  shows "fst (fold (rebuild_one d conn) ixs (names, s)) =
    names @ map ix_index_name (filter (\<lambda>ix. \<not> accepted answer conn (create_ddl ix)) ixs)"
proof (induction ixs arbitrary: names s)
  case (Cons ix ixs)
  obtain names' s' where one: "rebuild_one d conn ix (names, s) = (names', s')" by force
  with rebuild_one_step(2) [OF one] Cons show ?case by (simp add: execute_accepted [OF assms])
qed simp

lemma standard_rebuild_accepted:
  assumes "answers_by_statement d answer"
  shows "isl (fst (standard_rebuild_indexes d conn ixs s)) =
    (\<exists>ix \<in> set ixs. \<not> accepted answer conn (create_ddl ix))"
proof (induction ixs arbitrary: s)
  case (Cons ix ixs)
  obtain r s1 where ex: "conn_execute d conn (create_ddl ix) s = (r, s1)" by force
  then have "isl r = (\<not> accepted answer conn (create_ddl ix))"
    using execute_accepted [OF assms, of conn "create_ddl ix" s] by simp
  with Cons ex show ?case by (cases r) auto
qed simp

lemma set_par_order: "set (par_order n sched ixs) = set ixs"
  using mset_eq_setD [OF mset_par_order] .

section \<open>Properties\<close>

text \<open>C38. The two strategies are interchangeable: on a cluster whose answers depend on the
  statement only, for every parallelism and every order of the threads, the parallel strategy
  drops the same indexes as the sequential one (as a multiset of reported names), and its
  rebuild throws exactly when the sequential one does.\<close>

theorem index_strategies_agree:
  assumes "\<forall>se q w. fst (cass_session_execute d se q w) = answer se q"
  shows "mset (fst (drop_indexes (ParallelIndexStrategy n) d conn sched ixs s)) =
      mset (fst (drop_indexes StandardIndexStrategy d conn sched ixs s)) \<and>
    isl (fst (rebuild_indexes (ParallelIndexStrategy n) d conn sched ixs s)) =
      isl (fst (rebuild_indexes StandardIndexStrategy d conn sched ixs s))"
proof
  have a: "answers_by_statement d answer" using assms by (simp add: answers_by_statement_def)
  have "mset (map ix_index_name (filter P (par_order n sched ixs))) =
      mset (map ix_index_name (filter P ixs))" for P
    by (simp add: mset_par_order del: mset_concat)
  then show "mset (fst (drop_indexes (ParallelIndexStrategy n) d conn sched ixs s)) =
      mset (fst (drop_indexes StandardIndexStrategy d conn sched ixs s))"
    by (simp add: parallel_drop_flat standard_drop_indexes_def fold_drop_accepted [OF a])
  have "filter (\<lambda>ix. \<not> accepted answer conn (create_ddl ix)) (par_order n sched ixs) \<noteq> [] \<longleftrightarrow>
      (\<exists>ix \<in> set ixs. \<not> accepted answer conn (create_ddl ix))"
    by (auto simp: filter_empty_conv set_par_order simp del: set_concat)
  then show "isl (fst (rebuild_indexes (ParallelIndexStrategy n) d conn sched ixs s)) =
      isl (fst (rebuild_indexes StandardIndexStrategy d conn sched ixs s))"
    by (simp add: parallel_rebuild_flat standard_rebuild_accepted [OF a] fold_rebuild_accepted [OF a]
        case_prod_beta Let_def)
qed

definition example_index :: "string \<Rightarrow> index_info" where
  "example_index name =
     \<lparr>ix_keyspace = ''ks'', ix_table = ''t'', ix_index_name = name, ix_column_name = ''c'',
      ix_index_type = ''secondary''\<rparr>"

theorem index_strategies_agree_witness:
  "mset (fst (drop_indexes (ParallelIndexStrategy 2) (scripted_driver (\<lambda>_ _ _. None)) (example_connection 1)
     (\<lambda>_. [1]) [example_index ''a'', example_index ''b''] io_start)) = {#''a'', ''b''#}"
proof -
  let ?d = "scripted_driver (\<lambda>_ _ _. None)" and ?ixs = "[example_index ''a'', example_index ''b'']"
  have "\<forall>se q w. fst (cass_session_execute ?d se q w) = (\<lambda>_ _. None) se q"
    by (simp add: scripted_driver_def)
  moreover have "fst (drop_indexes StandardIndexStrategy ?d (example_connection 1) (\<lambda>_. [1]) ?ixs io_start) =
      [''a'', ''b'']"
    by (simp add: standard_drop_indexes_def drop_one_def conn_execute_def scripted_driver_def
        example_connection_def example_index_def)
  ultimately show ?thesis
    using index_strategies_agree [of ?d "\<lambda>_ _. None" 2 "example_connection 1" "\<lambda>_. [1]" ?ixs io_start]
    by simp
qed

text \<open>The keyspace operations of the index manager are confined to their keyspace, with
  either strategy and also when a rebuild throws halfway: every driver call they add is the
  \<open>DROP\<close>, or the \<open>CREATE\<close>, of one of the manager's indexes in that keyspace.\<close>

lemma keyspace_operations_confined:
  "(\<exists>new. io_calls (snd (drop_keyspace d sched ks im s)) = io_calls s @ new \<and>
      (\<forall>c \<in> set new. \<exists>ix \<in> set (im_indexes im).
         ix_keyspace ix = ks \<and> c \<in> set (exec_calls (im_conn im) (drop_ddl ix)))) \<and>
   (\<exists>new. io_calls (snd (rebuild_keyspace d sched ks im s)) = io_calls s @ new \<and>
      (\<forall>c \<in> set new. \<exists>ix \<in> set (im_indexes im).
         ix_keyspace ix = ks \<and> c \<in> set (exec_calls (im_conn im) (create_ddl ix))))"
proof (cases "im_strategy im")
  case StandardIndexStrategy
  then show ?thesis
    using ix_std.keyspace_drop [of d "im_conn im" ks "im_indexes im" s]
      ix_std.keyspace_rebuild [of d "im_conn im" ks "im_indexes im" s]
    by (simp add: drop_keyspace_def rebuild_keyspace_def)
next
  case (ParallelIndexStrategy n)
  then show ?thesis
    using ix_par.keyspace_drop [of d "im_conn im" n sched ks "im_indexes im" s]
      ix_par.keyspace_rebuild [of d "im_conn im" n sched ks "im_indexes im" s]
    by (simp add: drop_keyspace_def rebuild_keyspace_def)
qed

end
