(* ===== verification/Validator.thy ===== *)
theory Validator
  imports Dual_Reader
begin

text \<open>
  The \<open>Validator\<close> of \<open>services/dual-reader/src/validator.cpp\<close>: the comparison of the row
  counts of one table on both clusters. The counts that the source takes from the driver's
  result are still the constant 0 there; \<open>compare_counts\<close> is the code after the two queries
  for arbitrary counts, and \<open>validator_validate_table\<close> calls it as the source does.

  \<open>dbl\<close> and \<open>flt\<close> round a real number to \<open>double\<close> and to \<open>float\<close>. The cast of the rounded-up
  product to \<open>uint64_t\<close> is defined in C++ only below \<open>2 ^ 64\<close>.
\<close>

section \<open>Definitions\<close>

record validator =
  va_source :: scylla_connection
  va_target :: scylla_connection

definition rows_to_check :: "(real \<Rightarrow> real) \<Rightarrow> real \<Rightarrow> u64 \<Rightarrow> u64" where
  "rows_to_check dbl sample_rate source_count =
     word_of_int \<lceil>dbl (dbl (real (unat source_count)) * sample_rate)\<rceil>"

definition missing_row :: "nat \<Rightarrow> string \<Rightarrow> nat \<Rightarrow> discrepancy" where
  "missing_row now table i =
     (new_discrepancy now)\<lparr>disc_id := ''disc-'' @ nat_to_string i, disc_table := table,
        disc_type := MissingInTarget, disc_detected_at := now\<rparr>"

definition missing_rows :: "nat \<Rightarrow> string \<Rightarrow> u64 \<Rightarrow> u64 \<Rightarrow> discrepancy list" where
  "missing_rows now table source_count target_count =
     (if source_count > target_count
      then map (missing_row now table) [0 ..< unat (min (source_count - target_count) 10)]
      else [])"

definition consistency :: "(real \<Rightarrow> real) \<Rightarrow> u64 \<Rightarrow> u64 \<Rightarrow> real" where
  "consistency flt rows_matched rows_checked =
     (if rows_checked > 0
      then flt (flt (flt (real (unat rows_matched)) / flt (real (unat rows_checked))) * 100)
      else 100)"

definition compare_counts ::
  "(real \<Rightarrow> real) \<Rightarrow> (real \<Rightarrow> real) \<Rightarrow> nat \<Rightarrow> real \<Rightarrow> u64 \<Rightarrow> u64 \<Rightarrow> validation_result \<Rightarrow> validation_result" where
  "compare_counts dbl flt now sample_rate source_count target_count result =
     (let checked = rows_to_check dbl sample_rate source_count;
          r1 = result\<lparr>vr_rows_checked := checked\<rparr>;
          r2 = (if source_count = target_count then r1\<lparr>vr_rows_matched := checked\<rparr>
                else r1\<lparr>vr_discrepancies := vr_discrepancies r1 @
                          missing_rows now (vr_table r1) source_count target_count\<rparr>)
      in r2\<lparr>vr_consistency_percentage := consistency flt (vr_rows_matched r2) (vr_rows_checked r2)\<rparr>)"

definition validator_validate_table ::
  "(real \<Rightarrow> real) \<Rightarrow> (real \<Rightarrow> real) \<Rightarrow> nat \<Rightarrow> 'w driver \<Rightarrow> string \<Rightarrow> real \<Rightarrow> u32 \<Rightarrow> validator \<Rightarrow> 'w io
   \<Rightarrow> validation_result outcome \<times> 'w io" where
  "validator_validate_table dbl flt now d table sample_rate batch_size v s =
     (let result = (new_validation_result now)\<lparr>vr_table := table, vr_validation_time := now,
                     vr_source_only := False\<rparr>;
          source_query = ''SELECT * FROM '' @ table;
          target_query = source_query
      in case conn_execute d (va_source v) source_query s of
           (Inl e, s1) \<Rightarrow> (Inl e, s1)
         | (Inr _, s1) \<Rightarrow>
             let source_count = 0 in
             (case conn_execute d (va_target v) target_query s1 of
                (Inl e, s2) \<Rightarrow> (Inl e, s2)
              | (Inr _, s2) \<Rightarrow>
                  let target_count = 0
                  in (Inr (compare_counts dbl flt now sample_rate source_count target_count result), s2)))"

section \<open>Lemmas\<close>

lemma rows_to_check_none: "dbl 0 = 0 \<Longrightarrow> rows_to_check dbl rate 0 = 0"
  by (simp add: rows_to_check_def)

lemma missing_rows_ids: "distinct (map disc_id (missing_rows now t n m))"
  by (auto simp: missing_rows_def missing_row_def new_discrepancy_def distinct_map inj_on_def
      nat_to_string_inject)

lemma missing_rows_length:
  "length (missing_rows now t n m) = min (unat n - unat m) 10"
proof (cases "m < n")
  case True
  then have "unat (n - m) = unat n - unat m"
    by (simp add: unat_diff_less)
  then show ?thesis
    using True by (simp add: missing_rows_def min_def word_le_nat_alt)
next
  case False
  then show ?thesis by (simp add: missing_rows_def word_less_nat_alt)
qed

lemma consistency_full:
  assumes "flt 1 = 1" "flt 100 = 100" "mono flt"
  shows "consistency flt n n = 100"
proof (cases "n > 0")
  case True
  then have "0 < unat n" by (simp add: word_less_nat_alt)
  then have "1 \<le> real (unat n)" by linarith
  then have "1 \<le> flt (real (unat n))"
    using assms monoD by metis
  with True assms show ?thesis by (simp add: consistency_def)
qed (simp add: consistency_def)

lemma consistency_none:
  assumes "flt 0 = 0"
  shows "consistency flt 0 n = (if n = 0 then 100 else 0)"
  using assms by (simp add: consistency_def word_gt_0)

section \<open>Properties\<close>

text \<open>The comparison of row counts: equal counts give a fully matched result at 100 percent
  without discrepancies; different counts match no row, so the consistency is 0 percent (100
  when the sample is empty), and the shortfall of the target is reported as that many missing
  rows, at most ten, with distinct ids and for this table. Surplus rows of the target are not
  reported. Stated for any rounding that is monotone and exact on 0, 1 and 100, as IEEE
  rounding is.\<close>

lemma compare_counts_report:
  assumes "flt 0 = 0" "flt 1 = 1" "flt 100 = 100" "mono flt"
  shows "let v = compare_counts dbl flt now rate n m
               ((new_validation_result t0)\<lparr>vr_table := table\<rparr>)
         in (if n = m then vr_rows_matched v = vr_rows_checked v \<and> vr_consistency_percentage v = 100
             else vr_rows_matched v = 0 \<and>
               vr_consistency_percentage v = (if vr_rows_checked v = 0 then 100 else 0)) \<and>
            length (vr_discrepancies v) = min (unat n - unat m) 10 \<and>
            distinct (map disc_id (vr_discrepancies v)) \<and>
            list_all (\<lambda>x. disc_table x = table \<and> disc_type x = MissingInTarget) (vr_discrepancies v)"
proof -
  have "list_all (\<lambda>x. disc_table x = table \<and> disc_type x = MissingInTarget) (missing_rows now table n m)"
    by (auto simp: missing_rows_def missing_row_def list_all_iff)
  then show ?thesis
    using missing_rows_ids [of now table n m] missing_rows_length [of now table n m]
    by (simp add: compare_counts_def new_validation_result_def Let_def
        consistency_full assms consistency_none)
qed

text \<open>The validator and the reader are interchangeable on a table that passes the filter
  gate: they make the same calls and return the same result or error.\<close>

lemma validator_agrees_with_reader:
  assumes "dbl 0 = 0" "\<not> gate_skips r table []"
  shows "validator_validate_table dbl flt now d table rate batch
           \<lparr>va_source = rd_source r, va_target = rd_target r\<rparr> s =
         (let (out, r', s') = reader_validate_table now secs d table r s in (out, s'))"
  using assms
  by (simp add: validator_validate_table_def reader_validate_table_def select_all_def Let_def
      case_prod_beta reader_gate_decides frame_simps compare_counts_def rows_to_check_none
      missing_rows_def consistency_def new_validation_result_def split: sum.splits)

end
