(* ===== verification/Dashboard_State.thy ===== *)
theory Dashboard_State
  imports Complex_Main Command_Line "HOL-Library.Signed_Division"
begin

text \<open>
  The state of the terminal dashboard (\<open>services/tui-dash/include/tui_dash/state.hpp\<close> and
  \<open>src/state.cpp\<close>): the migration figures, the list of tables, the activity log of at most
  100 entries, and the strings it displays.

  \<open>dbl\<close> rounds a real number to \<open>double\<close>; \<open>now\<close> is the reading of \<open>Clock::now()\<close>. A \<open>double\<close>
  cast to \<open>int\<close> is truncated; C++ leaves the cast undefined outside the range of \<open>int\<close>, which
  the model does not bound. \<open>local_time\<close> is \<open>localtime_r\<close>, which depends on the time zone of
  the host.
\<close>

section \<open>Definitions\<close>

subsection \<open>Formatting of the C library\<close>

definition c_trunc :: "real \<Rightarrow> int" where
  "c_trunc x = (if 0 \<le> x then \<lfloor>x\<rfloor> else \<lceil>x\<rceil>)"

text \<open>\<open>printf\<close>'s \<open>%02d\<close>.\<close>

definition pad2 :: "int \<Rightarrow> string" where
  "pad2 i = (if length (int_to_string i) < 2 then ''0'' @ int_to_string i else int_to_string i)"

text \<open>\<open>printf\<close>'s \<open>%.<k>f\<close>: the nearest decimal, a tie to the even digit.\<close>

definition round_half_even :: "real \<Rightarrow> int" where
  "round_half_even x =
     (let f = \<lfloor>x\<rfloor>; r = x - of_int f
      in if r < 1 / 2 then f else if r > 1 / 2 then f + 1 else if even f then f else f + 1)"

fun dec_digits :: "nat \<Rightarrow> nat \<Rightarrow> string" where
  "dec_digits 0 n = []"
| "dec_digits (Suc k) n = dec_digits k (n div 10) @ [digit_char (n mod 10)]"

definition c_fixed :: "nat \<Rightarrow> real \<Rightarrow> string" where
  "c_fixed k x =
     (let n = nat (round_half_even (\<bar>x\<bar> * 10 ^ k))
      in (if x < 0 then ''-'' else []) @ nat_to_string (n div 10 ^ k) @ ''.'' @ dec_digits k (n mod 10 ^ k))"

subsection \<open>State\<close>

record table_status =
  ts_name :: string
  ts_status :: string
  ts_progress :: real
  ts_rows_migrated :: u64
  ts_rows_total :: u64

record log_entry =
  le_timestamp :: nat
  le_level :: string
  le_message :: string

record dashboard_state =
  ds_total_rows :: u64
  ds_migrated_rows :: u64
  ds_failed_rows :: u64
  ds_filtered_rows :: u64
  ds_throughput :: real
  ds_progress_percent :: real
  ds_tables_total :: u32
  ds_tables_completed :: u32
  ds_tables_skipped :: u32
  ds_ranges_total :: u32
  ds_ranges_completed :: u32
  ds_is_running :: bool
  ds_is_paused :: bool
  ds_elapsed_secs :: real
  ds_elapsed_display :: string
  ds_tables :: "table_status list"
  ds_activity_log :: "log_entry list"
  ds_scroll_offset :: u64

definition new_dashboard_state :: dashboard_state where
  "new_dashboard_state =
     \<lparr>ds_total_rows = 0, ds_migrated_rows = 0, ds_failed_rows = 0, ds_filtered_rows = 0,
      ds_throughput = 0, ds_progress_percent = 0,
      ds_tables_total = 0, ds_tables_completed = 0, ds_tables_skipped = 0,
      ds_ranges_total = 0, ds_ranges_completed = 0,
      ds_is_running = False, ds_is_paused = False, ds_elapsed_secs = 0,
      ds_elapsed_display = ''00:00:00'', ds_tables = [], ds_activity_log = [],
      ds_scroll_offset = 0\<rparr>"

subsection \<open>Operations\<close>

definition add_log :: "nat \<Rightarrow> string \<Rightarrow> string \<Rightarrow> dashboard_state \<Rightarrow> dashboard_state" where
  "add_log now level message st =
     (let entries = ds_activity_log st @ [\<lparr>le_timestamp = now, le_level = level, le_message = message\<rparr>]
      in st\<lparr>ds_activity_log := (if length entries > 100 then tl entries else entries)\<rparr>)"

definition toggle_pause :: "nat \<Rightarrow> dashboard_state \<Rightarrow> dashboard_state" where
  "toggle_pause now st =
     (if ds_is_running st
      then let st' = st\<lparr>ds_is_paused := \<not> ds_is_paused st\<rparr>
           in add_log now (if ds_is_paused st' then ''WARN'' else ''INFO'')
                (if ds_is_paused st' then ''Migration paused by user'' else ''Migration resumed'') st'
      else st)"

definition dashboard_reset :: "nat \<Rightarrow> dashboard_state \<Rightarrow> dashboard_state" where
  "dashboard_reset now st = add_log now ''INFO'' ''Dashboard reset'' new_dashboard_state"

definition scroll_up :: "dashboard_state \<Rightarrow> dashboard_state" where
  "scroll_up st =
     (if ds_scroll_offset st > 0 then st\<lparr>ds_scroll_offset := ds_scroll_offset st - 1\<rparr> else st)"

definition scroll_down :: "dashboard_state \<Rightarrow> dashboard_state" where
  "scroll_down st = st\<lparr>ds_scroll_offset := ds_scroll_offset st + 1\<rparr>"

definition hms :: "int \<Rightarrow> int \<Rightarrow> int \<Rightarrow> string" where
  "hms h m s = pad2 h @ '':'' @ pad2 m @ '':'' @ pad2 s"

definition update_elapsed :: "dashboard_state \<Rightarrow> dashboard_state" where
  "update_elapsed st =
     (let secs = c_trunc (ds_elapsed_secs st)
      in st\<lparr>ds_elapsed_display := hms (secs sdiv 3600) ((secs smod 3600) sdiv 60) (secs smod 60)\<rparr>)"

definition update_progress :: "(real \<Rightarrow> real) \<Rightarrow> dashboard_state \<Rightarrow> dashboard_state" where
  "update_progress dbl st =
     (if ds_total_rows st > 0
      then st\<lparr>ds_progress_percent :=
             dbl (dbl (dbl (real (unat (ds_migrated_rows st))) / dbl (real (unat (ds_total_rows st)))) * 100)\<rparr>
      else st)"

subsection \<open>Helpers\<close>

definition format_number :: "(real \<Rightarrow> real) \<Rightarrow> u64 \<Rightarrow> string" where
  "format_number dbl n =
     (let scaled = (\<lambda>unit. c_fixed 2 (dbl (dbl (real (unat n)) / unit)))
      in if n \<ge> 1000000000 then scaled (10 ^ 9) @ ''B''
         else if n \<ge> 1000000 then scaled (10 ^ 6) @ ''M''
         else if n \<ge> 1000 then scaled (10 ^ 3) @ ''K''
         else nat_to_string (unat n))"

definition format_time :: "(nat \<Rightarrow> int \<times> int \<times> int) \<Rightarrow> nat \<Rightarrow> string" where
  "format_time local_time tp = (case local_time tp of (h, m, s) \<Rightarrow> hms h m s)"

section \<open>Lemmas\<close>

lemma c_trunc_nonneg: "0 \<le> x \<Longrightarrow> c_trunc x = \<lfloor>x\<rfloor>"
  by (simp add: c_trunc_def)

lemma length_dec_digits [simp]: "length (dec_digits k n) = k"
  by (induction k arbitrary: n) auto

lemma digits_value_pad2:
  assumes "0 \<le> i"
  shows "digits_value (pad2 i) = nat i"
proof -
  have "digits_value (''0'' @ s) = digits_value s" for s
    by (simp add: digits_value_def)
  then show ?thesis
    using assms by (simp add: pad2_def int_to_string_def digits_value_nat_to_string)
qed

text \<open>The log is a window of the last 100 entries on everything that was logged.\<close>

definition last_n :: "nat \<Rightarrow> 'a list \<Rightarrow> 'a list" where
  "last_n n xs = drop (length xs - n) xs"

lemma length_last_n [simp]: "length (last_n n xs) = min (length xs) n"
  by (simp add: last_n_def)

lemma last_n_all: "length xs \<le> n \<Longrightarrow> last_n n xs = xs"
  by (simp add: last_n_def)

lemma last_n_snoc: "0 < n \<Longrightarrow> last_n n (last_n n xs @ [x]) = last_n n (xs @ [x])"
proof (cases "length xs < n")
  case False
  then have "Suc (length xs) - (length xs - n + n) + (length xs - n) = Suc (length xs) - n" by simp
  then show ?thesis by (simp add: last_n_def)
qed (simp add: last_n_def)

lemma add_log_window:
  assumes "ds_activity_log st = last_n 100 es"
  shows "ds_activity_log (add_log t l m st) =
    last_n 100 (es @ [\<lparr>le_timestamp = t, le_level = l, le_message = m\<rparr>])" (is "_ = last_n 100 (es @ [?e])")
proof -
  let ?xs = "last_n 100 es @ [?e]"
  have "(if length ?xs > 100 then tl ?xs else ?xs) = last_n 100 ?xs"
    by (auto simp: last_n_def drop_Suc tl_drop [symmetric])
  then show ?thesis
    using assms last_n_snoc [of 100 es ?e] by (simp add: add_log_def Let_def)
qed

lemma add_log_frame [simp]:
  "ds_total_rows (add_log t l m st) = ds_total_rows st"
  "ds_migrated_rows (add_log t l m st) = ds_migrated_rows st"
  "ds_failed_rows (add_log t l m st) = ds_failed_rows st"
  "ds_filtered_rows (add_log t l m st) = ds_filtered_rows st"
  "ds_throughput (add_log t l m st) = ds_throughput st"
  "ds_progress_percent (add_log t l m st) = ds_progress_percent st"
  "ds_tables_total (add_log t l m st) = ds_tables_total st"
  "ds_tables_completed (add_log t l m st) = ds_tables_completed st"
  "ds_tables_skipped (add_log t l m st) = ds_tables_skipped st"
  "ds_ranges_total (add_log t l m st) = ds_ranges_total st"
  "ds_ranges_completed (add_log t l m st) = ds_ranges_completed st"
  "ds_is_running (add_log t l m st) = ds_is_running st"
  "ds_is_paused (add_log t l m st) = ds_is_paused st"
  "ds_elapsed_secs (add_log t l m st) = ds_elapsed_secs st"
  "ds_elapsed_display (add_log t l m st) = ds_elapsed_display st"
  "ds_tables (add_log t l m st) = ds_tables st"
  "ds_scroll_offset (add_log t l m st) = ds_scroll_offset st"
  by (simp_all add: add_log_def Let_def)

lemma update_elapsed_frame [simp]:
  "ds_total_rows (update_elapsed st) = ds_total_rows st" "ds_migrated_rows (update_elapsed st) = ds_migrated_rows st"
  "ds_failed_rows (update_elapsed st) = ds_failed_rows st" "ds_filtered_rows (update_elapsed st) = ds_filtered_rows st"
  "ds_throughput (update_elapsed st) = ds_throughput st" "ds_progress_percent (update_elapsed st) = ds_progress_percent st"
  "ds_tables_total (update_elapsed st) = ds_tables_total st" "ds_tables_completed (update_elapsed st) = ds_tables_completed st"
  "ds_tables_skipped (update_elapsed st) = ds_tables_skipped st" "ds_is_running (update_elapsed st) = ds_is_running st"
  "ds_is_paused (update_elapsed st) = ds_is_paused st" "ds_elapsed_secs (update_elapsed st) = ds_elapsed_secs st"
  "ds_tables (update_elapsed st) = ds_tables st" "ds_activity_log (update_elapsed st) = ds_activity_log st"
  "ds_ranges_total (update_elapsed st) = ds_ranges_total st"
  "ds_ranges_completed (update_elapsed st) = ds_ranges_completed st"
  by (simp_all add: update_elapsed_def Let_def)

lemma length_add_log: "length (ds_activity_log st) \<le> 100 \<Longrightarrow> length (ds_activity_log (add_log t l m st)) \<le> 100"
  by (simp add: add_log_def Let_def)

lemma minutes_less: "n mod 3600 div 60 < (60 :: int)"
  using pos_mod_bound [of 3600 n] by simp

text \<open>The elapsed time reads back as the truncated number of seconds.\<close>

lemma update_elapsed_reads_back:
  fixes st :: dashboard_state
  assumes "0 \<le> ds_elapsed_secs st"
  shows "\<exists>h m s. ds_elapsed_display (update_elapsed st) = h @ '':'' @ m @ '':'' @ s \<and>
    digits_value m < 60 \<and> digits_value s < 60 \<and>
    digits_value h * 3600 + digits_value m * 60 + digits_value s = nat \<lfloor>ds_elapsed_secs st\<rfloor>"
proof -
  define n where "n = \<lfloor>ds_elapsed_secs st\<rfloor>"
  have n: "0 \<le> n" using assms by (simp add: n_def)
  have s: "n sdiv 3600 = n div 3600" "(n smod 3600) sdiv 60 = n mod 3600 div 60" "n smod 60 = n mod 60"
    using n by (simp_all add: signed_divide_int_def signed_modulo_int_def sgn_if)
  have shown: "ds_elapsed_display (update_elapsed st) = hms (n div 3600) (n mod 3600 div 60) (n mod 60)"
    using assms by (simp add: update_elapsed_def Let_def c_trunc_nonneg n_def [symmetric] s)
  define h m r where "h = n div 3600" and "m = n mod 3600 div 60" and "r = n mod 60"
  have nonneg: "0 \<le> h" "0 \<le> m" "0 \<le> r" and less: "m < 60" "r < 60"
    using n by (simp_all add: h_def m_def r_def pos_imp_zdiv_nonneg_iff minutes_less)
  have "r = n mod 3600 mod 60" by (simp add: r_def mod_mod_cancel)
  then have "m * 60 + r = n mod 3600" by (simp add: m_def)
  then have "n = h * 3600 + m * 60 + r" using div_mult_mod_eq [of n 3600] unfolding h_def by linarith
  then have "nat n = nat h * 3600 + nat m * 60 + nat r"
    using nonneg by (simp add: nat_add_distrib nat_mult_distrib)
  then have "digits_value (pad2 m) < 60 \<and> digits_value (pad2 r) < 60 \<and>
      digits_value (pad2 h) * 3600 + digits_value (pad2 m) * 60 + digits_value (pad2 r) = nat n"
    using less by (simp add: digits_value_pad2 nonneg nat_less_iff)
  moreover have "ds_elapsed_display (update_elapsed st) = pad2 h @ '':'' @ pad2 m @ '':'' @ pad2 r"
    unfolding shown hms_def h_def m_def r_def ..
  ultimately show ?thesis unfolding n_def by blast
qed

end
