(* ===== verification/Dashboard_Client.thy ===== *)
theory Dashboard_Client
  imports Dashboard_State Service_Api
begin

text \<open>
  The live mode of the terminal dashboard (\<open>services/tui-dash/src/api.cpp\<close>): \<open>ApiClient\<close> polls the
  \<open>/status\<close> endpoint of the loader and copies its figures into the dashboard state.

  The outcome of the HTTP request is an argument: \<open>Inl\<close> the library's error text, or \<open>Inr\<close> the
  status and the body. \<open>now k\<close> is the clock at the \<open>k\<close>-th \<open>add_log\<close> statement, those of
  \<open>update_state\<close> first and then the two of \<open>fetch_status\<close>. A
  field of the wrong type makes \<open>value()\<close> throw; the fields before it are then already updated.
\<close>

section \<open>Definitions\<close>

record api_client =
  ac_base_url :: string
  ac_host :: string
  ac_port :: int
  ac_connected :: bool
  ac_last_error :: string

definition strip_slashes :: "string \<Rightarrow> string" where
  "strip_slashes url = rev (dropWhile (\<lambda>c. c = CHR ''/'') (rev url))"

text \<open>\<^term>\<open>None\<close> is the exception of \<open>std::stoi\<close>.\<close>

definition create_api_client :: "string \<Rightarrow> api_client option" where
  "create_api_client base_url =
     (let url = strip_slashes base_url;
          host_start = (case str_find ''://'' url of Some i \<Rightarrow> i + 3 | None \<Rightarrow> 0);
          client = (\<lambda>h p. \<lparr>ac_base_url = base_url, ac_host = h, ac_port = p, ac_connected = False,
                            ac_last_error = []\<rparr>)
      in case find_char (CHR '':'') (drop host_start url) of
           Some k \<Rightarrow>
             map_option (client (take k (drop host_start url))) (c_stoi (drop (host_start + k + 1) url))
         | None \<Rightarrow> Some (client (drop host_start url) 9092))"

type_synonym setter = "dashboard_state \<Rightarrow> string + dashboard_state"

fun run_setters :: "setter list \<Rightarrow> dashboard_state \<Rightarrow> string option \<times> dashboard_state" where
  "run_setters [] st = (None, st)"
| "run_setters (f # fs) st = (case f st of Inl e \<Rightarrow> (Some e, st) | Inr st' \<Rightarrow> run_setters fs st')"

definition status_setters :: "('j, 'm) json_doc_scheme \<Rightarrow> 'j \<Rightarrow> setter list" where
  "status_setters js m =
     [\<lambda>st. map_sum id (\<lambda>v. st\<lparr>ds_total_rows := v\<rparr>) (jd_value_u64 js m ''total_rows'' 0),
      \<lambda>st. map_sum id (\<lambda>v. st\<lparr>ds_migrated_rows := v\<rparr>) (jd_value_u64 js m ''migrated_rows'' 0),
      \<lambda>st. map_sum id (\<lambda>v. st\<lparr>ds_failed_rows := v\<rparr>) (jd_value_u64 js m ''failed_rows'' 0),
      \<lambda>st. map_sum id (\<lambda>v. st\<lparr>ds_filtered_rows := v\<rparr>) (jd_value_u64 js m ''filtered_rows'' 0),
      \<lambda>st. map_sum id (\<lambda>v. st\<lparr>ds_throughput := v\<rparr>) (jd_value_real js m ''throughput_rows_per_sec'' 0),
      \<lambda>st. map_sum id (\<lambda>v. st\<lparr>ds_progress_percent := v\<rparr>) (jd_value_real js m ''progress_percent'' 0),
      \<lambda>st. map_sum id (\<lambda>v. st\<lparr>ds_tables_total := v\<rparr>) (jd_value_u32 js m ''tables_total'' 0),
      \<lambda>st. map_sum id (\<lambda>v. st\<lparr>ds_tables_completed := v\<rparr>) (jd_value_u32 js m ''tables_completed'' 0),
      \<lambda>st. map_sum id (\<lambda>v. st\<lparr>ds_tables_skipped := v\<rparr>) (jd_value_u32 js m ''tables_skipped'' 0),
      \<lambda>st. map_sum id (\<lambda>v. st\<lparr>ds_is_running := v\<rparr>) (jd_value_bool js m ''is_running'' False),
      \<lambda>st. map_sum id (\<lambda>v. st\<lparr>ds_is_paused := v\<rparr>) (jd_value_bool js m ''is_paused'' False),
      \<lambda>st. map_sum id (\<lambda>v. st\<lparr>ds_elapsed_secs := v\<rparr>) (jd_value_real js m ''elapsed_secs'' 0)]"

definition log_if :: "bool \<Rightarrow> nat \<Rightarrow> string \<Rightarrow> string \<Rightarrow> dashboard_state \<Rightarrow> dashboard_state" where
  "log_if b now level message st = (if b then add_log now level message st else st)"

definition log_transitions ::
  "(nat \<Rightarrow> nat) \<Rightarrow> string \<Rightarrow> dashboard_state \<Rightarrow> dashboard_state \<Rightarrow> dashboard_state" where
  "log_transitions now base_url prev st =
     (let failed = ds_failed_rows st - ds_failed_rows prev;
          st1 = log_if (\<not> ds_is_running prev \<and> ds_is_running st) (now 0) ''INFO''
                  (''Connected to sstable-loader at '' @ base_url) st;
          st2 = log_if (ds_is_running prev \<and> \<not> ds_is_running st \<and> ds_migrated_rows st > 0) (now 1)
                  ''INFO'' ''Migration completed'' st1;
          st3 = log_if (\<not> ds_is_paused prev \<and> ds_is_paused st) (now 2) ''WARN'' ''Migration paused'' st2;
          st4 = log_if (ds_is_paused prev \<and> \<not> ds_is_paused st \<and> ds_is_running st) (now 3) ''INFO''
                  ''Migration resumed'' st3
      in log_if (ds_failed_rows st > ds_failed_rows prev \<and> failed > 100) (now 4) ''WARN''
           (nat_to_string (unat failed) @ '' rows failed'') st4)"

definition update_state ::
  "('j, 'm) json_doc_scheme \<Rightarrow> (nat \<Rightarrow> nat) \<Rightarrow> string \<Rightarrow> 'j \<Rightarrow> dashboard_state \<Rightarrow> string option \<times> dashboard_state" where
  "update_state js now base_url body st =
     (if \<not> j_contains js body ''migration'' then (None, st)
      else
        case run_setters (status_setters js (j_at js body ''migration'')) st of
          (Some e, st') \<Rightarrow> (Some e, st')
        | (None, st') \<Rightarrow> (None, log_transitions now base_url st (update_elapsed st')))"

definition fetch_status ::
  "('j, 'm) json_doc_scheme \<Rightarrow> (nat \<Rightarrow> nat) \<Rightarrow> string + (int \<times> string) \<Rightarrow> api_client \<times> dashboard_state
   \<Rightarrow> api_client \<times> dashboard_state" where
  "fetch_status js now res = (\<lambda>(c, st).
     let failed = (\<lambda>e st'.
           let err = ''Parse error: '' @ e
           in (c\<lparr>ac_connected := False, ac_last_error := err\<rparr>,
               add_log (now 6) ''ERROR'' (''Failed to parse API response: '' @ err) st'))
     in case res of
          Inl err \<Rightarrow>
            (c\<lparr>ac_connected := False\<rparr>,
             log_if (ac_connected c) (now 5) ''WARN'' (''Lost connection to sstable-loader: '' @ err) st)
        | Inr (status, text) \<Rightarrow>
            if status \<noteq> 200
            then (c\<lparr>ac_connected := False, ac_last_error := ''HTTP '' @ int_to_string status\<rparr>, st)
            else
              case j_parse js text of
                None \<Rightarrow> failed (jd_parse_error js text) st
              | Some body \<Rightarrow>
                  (case update_state js now (ac_base_url c) body st of
                     (Some e, st') \<Rightarrow> failed e st'
                   | (None, st') \<Rightarrow> (c\<lparr>ac_connected := True, ac_last_error := []\<rparr>, st')))"

section \<open>Lemmas\<close>

lemma strip_slashes_snoc [simp]: "strip_slashes (url @ ''/'') = strip_slashes url"
  by (simp add: strip_slashes_def)

lemma strip_slashes_done: "url \<noteq> [] \<Longrightarrow> last url \<noteq> CHR ''/'' \<Longrightarrow> strip_slashes url = url"
  by (cases url rule: rev_cases) (simp_all add: strip_slashes_def)

lemma log_if_frame [simp]:
  "ds_total_rows (log_if b t l m st) = ds_total_rows st"
  "ds_migrated_rows (log_if b t l m st) = ds_migrated_rows st"
  "ds_failed_rows (log_if b t l m st) = ds_failed_rows st"
  "ds_filtered_rows (log_if b t l m st) = ds_filtered_rows st"
  "ds_throughput (log_if b t l m st) = ds_throughput st"
  "ds_progress_percent (log_if b t l m st) = ds_progress_percent st"
  "ds_tables_total (log_if b t l m st) = ds_tables_total st"
  "ds_tables_completed (log_if b t l m st) = ds_tables_completed st"
  "ds_tables_skipped (log_if b t l m st) = ds_tables_skipped st"
  "ds_is_running (log_if b t l m st) = ds_is_running st"
  "ds_is_paused (log_if b t l m st) = ds_is_paused st"
  "ds_elapsed_secs (log_if b t l m st) = ds_elapsed_secs st"
  "ds_elapsed_display (log_if b t l m st) = ds_elapsed_display st"
  "ds_tables (log_if b t l m st) = ds_tables st"
  by (simp_all add: log_if_def)

lemma log_transitions_frame [simp]:
  "ds_total_rows (log_transitions now u prev st) = ds_total_rows st"
  "ds_migrated_rows (log_transitions now u prev st) = ds_migrated_rows st"
  "ds_failed_rows (log_transitions now u prev st) = ds_failed_rows st"
  "ds_filtered_rows (log_transitions now u prev st) = ds_filtered_rows st"
  "ds_throughput (log_transitions now u prev st) = ds_throughput st"
  "ds_progress_percent (log_transitions now u prev st) = ds_progress_percent st"
  "ds_tables_total (log_transitions now u prev st) = ds_tables_total st"
  "ds_tables_completed (log_transitions now u prev st) = ds_tables_completed st"
  "ds_tables_skipped (log_transitions now u prev st) = ds_tables_skipped st"
  "ds_is_running (log_transitions now u prev st) = ds_is_running st"
  "ds_is_paused (log_transitions now u prev st) = ds_is_paused st"
  "ds_elapsed_secs (log_transitions now u prev st) = ds_elapsed_secs st"
  "ds_elapsed_display (log_transitions now u prev st) = ds_elapsed_display st"
  "ds_tables (log_transitions now u prev st) = ds_tables st"
  by (simp_all add: log_transitions_def Let_def)

lemma elapsed_zero: "ds_elapsed_secs st = 0 \<Longrightarrow> ds_elapsed_display (update_elapsed st) = ''00:00:00''"
proof -
  have "hms 0 0 0 = ''00:00:00''" by code_simp
  then show "ds_elapsed_secs st = 0 \<Longrightarrow> ?thesis"
    by (simp add: update_elapsed_def Let_def c_trunc_def)
qed

text \<open>Every field the loader publishes is read back by the dashboard; the two that it reads and
  the loader does not publish get the default.\<close>

lemma status_fields_read:
  fixes js :: "('j, 'm) json_doc_scheme" and stats :: migration_stats
  assumes "json_laws js"
  defines "m \<equiv> put_fields js (migration_fields js stats) (jd_null js)"
  shows "jd_value_u64 js m ''total_rows'' 0 = Inr (ms_total_rows stats)"
    "jd_value_u64 js m ''migrated_rows'' 0 = Inr (ms_migrated_rows stats)"
    "jd_value_u64 js m ''failed_rows'' 0 = Inr (ms_failed_rows stats)"
    "jd_value_u64 js m ''filtered_rows'' 0 = Inr (ms_filtered_rows stats)"
    "jd_value_real js m ''throughput_rows_per_sec'' 0 = Inr 0"
    "jd_value_real js m ''progress_percent'' 0 = Inr (ms_progress_percent stats)"
    "jd_value_u32 js m ''tables_total'' 0 = Inr (ucast (ms_tables_total stats))"
    "jd_value_u32 js m ''tables_completed'' 0 = Inr (ucast (ms_tables_completed stats))"
    "jd_value_u32 js m ''tables_skipped'' 0 = Inr (ucast (ms_tables_skipped stats))"
    "jd_value_bool js m ''is_running'' False = Inr (ms_is_running stats)"
    "jd_value_bool js m ''is_paused'' False = Inr (ms_is_paused stats)"
    "jd_value_real js m ''elapsed_secs'' 0 = Inr 0"
proof -
  note props = put_fields_props [where kvs = "migration_fields js stats", OF assms(1) json_null(2) [OF assms(1)]]
  have obj: "jd_is_object js m" using props(2) by (simp add: m_def migration_fields_def)
  have distinct: "distinct (map fst (migration_fields js stats))" by (simp add: migration_fields_def)
  have field: "j_contains js m k \<and> j_at js m k = v" if "map_of (migration_fields js stats) k = Some v" for k v
    using props(3) [of k] props(4) [OF distinct that] that
    by (auto simp: m_def dest!: map_of_SomeD intro: rev_image_eqI)
  have no_field: "\<not> j_contains js m k" if "k \<notin> fst ` set (migration_fields js stats)" for k
    using props(3) [of k] that json_null(1) [OF assms(1)] by (simp add: m_def)
  have uint: "jd_value_u64 js m k d = Inr n \<and> jd_value_u32 js m k d' = Inr (ucast n)"
    if "map_of (migration_fields js stats) k = Some (jd_uint js n)" for k n d d'
    using field [OF that] obj assms(1) by (simp add: json_laws_def)
  have real: "jd_value_real js m k d = Inr x" if "map_of (migration_fields js stats) k = Some (jd_real js x)" for k x d
    using field [OF that] obj assms(1) by (simp add: json_laws_def)
  have bool: "jd_value_bool js m k d = Inr b" if "map_of (migration_fields js stats) k = Some (jd_bool js b)" for k b d
    using field [OF that] obj assms(1) by (simp add: json_laws_def)
  have default: "jd_value_real js m k d = Inr d" if "k \<notin> fst ` set (migration_fields js stats)" for k d
    using no_field [OF that] obj assms(1) by (simp add: json_laws_def)
  show "jd_value_u64 js m ''total_rows'' 0 = Inr (ms_total_rows stats)"
    "jd_value_u64 js m ''migrated_rows'' 0 = Inr (ms_migrated_rows stats)"
    "jd_value_u64 js m ''failed_rows'' 0 = Inr (ms_failed_rows stats)"
    "jd_value_u64 js m ''filtered_rows'' 0 = Inr (ms_filtered_rows stats)"
    "jd_value_u32 js m ''tables_total'' 0 = Inr (ucast (ms_tables_total stats))"
    "jd_value_u32 js m ''tables_completed'' 0 = Inr (ucast (ms_tables_completed stats))"
    "jd_value_u32 js m ''tables_skipped'' 0 = Inr (ucast (ms_tables_skipped stats))"
    using uint by (simp_all add: migration_fields_def)
  show "jd_value_real js m ''progress_percent'' 0 = Inr (ms_progress_percent stats)"
    using real by (simp add: migration_fields_def)
  show "jd_value_bool js m ''is_running'' False = Inr (ms_is_running stats)"
    "jd_value_bool js m ''is_paused'' False = Inr (ms_is_paused stats)"
    using bool by (simp_all add: migration_fields_def)
  show "jd_value_real js m ''throughput_rows_per_sec'' 0 = Inr 0" "jd_value_real js m ''elapsed_secs'' 0 = Inr 0"
    using default by (simp_all add: migration_fields_def)
qed

lemma status_setters_run:
  assumes "json_laws js"
  shows "run_setters (status_setters js (put_fields js (migration_fields js stats) (jd_null js))) st =
    (None, st\<lparr>ds_total_rows := ms_total_rows stats, ds_migrated_rows := ms_migrated_rows stats,
       ds_failed_rows := ms_failed_rows stats, ds_filtered_rows := ms_filtered_rows stats,
       ds_throughput := 0, ds_progress_percent := ms_progress_percent stats,
       ds_tables_total := ucast (ms_tables_total stats), ds_tables_completed := ucast (ms_tables_completed stats),
       ds_tables_skipped := ucast (ms_tables_skipped stats), ds_is_running := ms_is_running stats,
       ds_is_paused := ms_is_paused stats, ds_elapsed_secs := 0\<rparr>)"
  by (simp add: status_setters_def status_fields_read [OF assms])

text \<open>The address of the loader, with or without a path after the port; a bracketed IPv6
  address ends the program.\<close>

lemma api_client_address:
  assumes "CHR '':'' \<notin> set h" "CHR ''/'' \<notin> set h" "n < 2 ^ 31"
  shows "create_api_client (''http://'' @ h @ '':'' @ nat_to_string n) =
    Some \<lparr>ac_base_url = ''http://'' @ h @ '':'' @ nat_to_string n, ac_host = h, ac_port = int n,
          ac_connected = False, ac_last_error = []\<rparr>"
proof -
  let ?url = "''http://'' @ h @ '':'' @ nat_to_string n"
  obtain d where d: "d < 10" "last (nat_to_string n) = digit_char d"
    using nat_to_string_digits [of "last (nat_to_string n)" n] by auto
  then have "of_char (last (nat_to_string n)) = 48 + d"
    by (simp add: of_char_digit_char)
  then have "last (nat_to_string n) \<noteq> CHR ''/''" by auto
  then have "strip_slashes ?url = ?url"
    by (intro strip_slashes_done) auto
  moreover have "str_find ''://'' ?url = Some 4"
    by (simp add: is_prefix_def)
  moreover have "drop (8 + length h) ?url = nat_to_string n"
    by (simp add: numeral_eq_Suc)
  ultimately show ?thesis
    using assms c_stoi_nat_to_string [OF assms(3)] by (simp add: create_api_client_def Let_def)
qed

lemma api_client_ipv6: "create_api_client ''http://[::1]:9092'' = None"
  by code_simp

section \<open>Properties\<close>

text \<open>C28. The dashboard mirrors the loader: when the body of the loader's \<open>/status\<close> response is
  parsed back as the document that was printed, one poll leaves the dashboard connected, with
  the loader's row counters, progress and flags, and with its table counters cut to 32 bits.
  The throughput and the elapsed time are not part of the document, so both are shown as
  zero.\<close>

theorem dashboard_mirrors_loader:
  assumes laws: "json_laws js"
    and served: "fst (loader_api js serialize fl d source target flt mtr (GET ''/status'') l s) =
      Response resp"
    and parsed: "j_parse js (hr_body resp) = Some (loader_status_body js (loader_get_stats fl l) flt)"
    and poll: "fetch_status js now (Inr (200, hr_body resp)) (c, st) = (c', st')"
  shows "ac_connected c' \<and> ds_total_rows st' = ld_total_rows l \<and> ds_migrated_rows st' = ld_migrated_rows l \<and>
    ds_failed_rows st' = ld_failed_rows l \<and> ds_filtered_rows st' = ld_filtered_rows l \<and>
    ds_progress_percent st' = ms_progress_percent (loader_get_stats fl l) \<and>
    ds_tables_total st' = ucast (ld_tables_total l) \<and> ds_tables_completed st' = ucast (ld_tables_completed l) \<and>
    ds_tables_skipped st' = ucast (ld_tables_skipped l) \<and>
    ds_is_running st' = ld_running l \<and> ds_is_paused st' = ld_paused l \<and>
    ds_throughput st' = 0 \<and> ds_elapsed_display st' = ''00:00:00'' \<and> ds_tables st' = ds_tables st"
proof -
  let ?stats = "loader_get_stats fl l"
  have "update_state js now (ac_base_url c) (loader_status_body js ?stats flt) st = (None, st')" "ac_connected c'"
    using poll parsed
    by (auto simp: fetch_status_def Let_def update_state_def status_setters_run [OF laws]
        loader_status_section [OF laws] split: option.splits prod.splits)
  then show ?thesis
    by (auto simp: update_state_def loader_status_section [OF laws] status_setters_run [OF laws] elapsed_zero
        loader_get_stats_def)
qed

text \<open>A document tree that satisfies the laws; its text is fixed, and stands for one document.\<close>

datatype json_tree = JNull | JString string | JUint u64 | JReal real | JBool bool
  | JArray "json_tree list" | JObject "(string \<times> json_tree) list"

fun tree_entries :: "json_tree \<Rightarrow> (string \<times> json_tree) list" where
  "tree_entries (JObject kvs) = kvs"
| "tree_entries _ = []"

fun tree_real :: "json_tree \<Rightarrow> string + real" where
  "tree_real (JReal x) = Inr x"
| "tree_real _ = Inl ''type_error''"

fun tree_uint :: "json_tree \<Rightarrow> string + u64" where
  "tree_uint (JUint n) = Inr n"
| "tree_uint _ = Inl ''type_error''"

fun tree_bool :: "json_tree \<Rightarrow> string + bool" where
  "tree_bool (JBool b) = Inr b"
| "tree_bool _ = Inl ''type_error''"

definition tree_value :: "(json_tree \<Rightarrow> string + 'a) \<Rightarrow> json_tree \<Rightarrow> string \<Rightarrow> 'a \<Rightarrow> string + 'a" where
  "tree_value get j k dflt = (case map_of (tree_entries j) k of None \<Rightarrow> Inr dflt | Some v \<Rightarrow> get v)"

definition tree_doc :: "json_tree \<Rightarrow> json_tree json_doc" where
  "tree_doc document =
     \<lparr>j_parse = (\<lambda>_. Some document), j_contains = (\<lambda>j k. map_of (tree_entries j) k \<noteq> None),
      j_at = (\<lambda>j k. the (map_of (tree_entries j) k)), j_is_string = (\<lambda>j. case j of JString _ \<Rightarrow> True | _ \<Rightarrow> False),
      j_get_string = (\<lambda>j. case j of JString t \<Rightarrow> t | _ \<Rightarrow> []), j_dump = (\<lambda>_. Some ''document''),
      jd_null = JNull, jd_is_object = (\<lambda>j. case j of JObject _ \<Rightarrow> True | _ \<Rightarrow> False),
      jd_put = (\<lambda>j k v. JObject (umap_assign k v (tree_entries j))), jd_string = JString, jd_uint = JUint,
      jd_real = JReal, jd_bool = JBool, jd_array = JArray,
      jd_strings = (\<lambda>kvs. JObject (map (\<lambda>(k, v). (k, JString v)) kvs)), jd_parse_error = (\<lambda>_. []),
      jd_value_u64 = tree_value tree_uint, jd_value_u32 = tree_value (\<lambda>j. map_sum id ucast (tree_uint j)),
      jd_value_real = tree_value tree_real, jd_value_bool = tree_value tree_bool\<rparr>"

lemma tree_doc_laws: "json_laws (tree_doc document)"
  by (auto simp: json_laws_def tree_doc_def jd_writable_def tree_value_def)

theorem dashboard_mirrors_loader_witness:
  "let l = (example_loader 4)\<lparr>ld_running := True, ld_total_rows := 5\<rparr>;
       js = tree_doc (loader_status_body (tree_doc JNull) (loader_get_stats id l) None);
       (c', st') = fetch_status js id (Inr (200, ''document''))
                     (the (create_api_client ''http://localhost:9092''), new_dashboard_state)
   in ac_connected c' \<and> ds_total_rows st' = 5 \<and> ds_is_running st'"
proof -
  let ?l = "(example_loader 4)\<lparr>ld_running := True, ld_total_rows := 5\<rparr>"
  let ?body = "loader_status_body (tree_doc JNull) (loader_get_stats id ?l) None"
  let ?js = "tree_doc ?body"
  let ?resp = "\<lparr>hr_status = None, hr_content_type = ''application/json'', hr_body = ''document''\<rparr>"
  let ?c = "the (create_api_client ''http://localhost:9092'')"
  have served: "fst (loader_api ?js (\<lambda>_. []) id example_up None None None None (GET ''/status'') ?l io_start) =
      Response ?resp"
    by (simp add: loader_api_def json_response_def tree_doc_def)
  have parsed: "j_parse ?js (hr_body ?resp) = Some (loader_status_body ?js (loader_get_stats id ?l) None)"
    by (simp add: tree_doc_def loader_status_body_def put_section_def put_in_def put_fields_def migration_fields_def
        Let_def)
  obtain c' st' where poll: "fetch_status ?js id (Inr (200, hr_body ?resp)) (?c, new_dashboard_state) = (c', st')"
    by (cases "fetch_status ?js id (Inr (200, hr_body ?resp)) (?c, new_dashboard_state)")
  show ?thesis
    using dashboard_mirrors_loader [OF tree_doc_laws served parsed poll] poll by (simp add: Let_def)
qed

end
