(* ===== verification/Dashboard_Demo.thy ===== *)
theory Dashboard_Demo
  imports Dashboard_State
begin

text \<open>
  The demo mode of the terminal dashboard (\<open>services/tui-dash/src/mock.cpp\<close>): a generator that
  simulates the migration of eight tables, one update of the dashboard state per tick.

  The draws of one update from the generator's random distributions and its clock readings are
  a record \<open>demo_draws\<close>; \<open>draws_in_range\<close> states the ranges of the distributions. \<open>dd_now k\<close> is
  the clock at the \<open>k\<close>-th \<open>add_log\<close> statement of the function, in the order of the text. The
  \<open>size_t\<close> index of the current table is a natural number: it never exceeds the number of
  tables.
\<close>

section \<open>Definitions\<close>

record demo_draws =
  dd_rows :: u64
  dd_fail :: int
  dd_fail_count :: u64
  dd_jitter :: real
  dd_inc :: real
  dd_msg :: nat
  dd_warn_chance :: int
  dd_warn :: nat
  dd_now :: "nat \<Rightarrow> nat"

definition draws_in_range :: "demo_draws \<Rightarrow> bool" where
  "draws_in_range d \<longleftrightarrow>
     500 \<le> dd_rows d \<and> dd_rows d \<le> 2500 \<and> 1 \<le> dd_fail d \<and> dd_fail d \<le> 100 \<and>
     1 \<le> dd_fail_count d \<and> dd_fail_count d \<le> 10 \<and> -2000 \<le> dd_jitter d \<and> dd_jitter d \<le> 2000 \<and>
     1 / 2 \<le> dd_inc d \<and> dd_inc d \<le> 2 \<and> dd_msg d \<le> 4 \<and>
     1 \<le> dd_warn_chance d \<and> dd_warn_chance d \<le> 3 \<and> dd_warn d \<le> 2"

record mock_generator =
  mg_tick_count :: u64
  mg_current_table :: nat
  mg_started :: bool

definition create_mock_generator :: mock_generator where
  "create_mock_generator = \<lparr>mg_tick_count = 0, mg_current_table = 0, mg_started = False\<rparr>"

definition demo_tables :: "(string \<times> u64) list" where
  "demo_tables =
     [(''acls_keyspace.group_acls'', 3487274),
      (''acls_keyspace.user_acls'', 12450000),
      (''assets_keyspace.assets'', 8234567),
      (''assets_keyspace.asset_versions'', 45678901),
      (''assets_keyspace.segments'', 18234123),
      (''collections_keyspace.collections'', 2345678),
      (''files_keyspace.files'', 5678901),
      (''metadata_keyspace.custom_metadata'', 15890234)]"

definition demo_table :: "nat \<Rightarrow> string \<times> u64 \<Rightarrow> table_status" where
  "demo_table i def =
     \<lparr>ts_name = fst def, ts_status = (if i = 0 then ''RUNNING'' else ''PENDING''), ts_progress = 0,
      ts_rows_migrated = 0, ts_rows_total = snd def\<rparr>"

definition initialize_demo ::
  "(real \<Rightarrow> real) \<Rightarrow> (nat \<Rightarrow> nat) \<Rightarrow> dashboard_state \<Rightarrow> dashboard_state" where
  "initialize_demo dbl now st =
     (let st1 = st\<lparr>ds_is_running := True, ds_is_paused := False,
                   ds_tables_total := of_nat (length demo_tables),
                   ds_total_rows := sum_list (map snd demo_tables),
                   ds_tables := ds_tables st @ map2 demo_table [0 ..< length demo_tables] demo_tables\<rparr>;
          st2 = st1\<lparr>ds_ranges_total := ds_tables_total st1 * 128\<rparr>;
          st3 = add_log (now 0) ''INFO'' ''TUI Dashboard initialized - Demo Mode'' st2;
          st4 = add_log (now 1) ''INFO''
                  (''Migration target: '' @ nat_to_string (unat (ds_tables_total st3)) @ '' tables, '' @
                   format_number dbl (ds_total_rows st3) @ '' total rows'') st3;
          st5 = add_log (now 2) ''INFO'' ''Connected to source cluster: cassandra-gcp-eu-1.example.com'' st4;
          st6 = add_log (now 3) ''INFO'' ''Connected to target cluster: scylla-aws-us-1.example.com'' st5
      in add_log (now 4) ''INFO'' (''Starting migration: '' @ fst (hd demo_tables)) st6)"

definition migrate_rows :: "demo_draws \<Rightarrow> dashboard_state \<Rightarrow> dashboard_state" where
  "migrate_rows d st =
     st\<lparr>ds_migrated_rows := min (ds_migrated_rows st + dd_rows d) (ds_total_rows st)\<rparr>"

definition simulate_failure :: "demo_draws \<Rightarrow> dashboard_state \<Rightarrow> dashboard_state" where
  "simulate_failure d st =
     (if dd_fail d = 1
      then add_log (dd_now d 0) ''WARN''
             (''Insert retry failed for '' @ nat_to_string (unat (dd_fail_count d)) @
              '' rows - LOCAL_QUORUM unavailable'')
             (st\<lparr>ds_failed_rows := ds_failed_rows st + dd_fail_count d\<rparr>)
      else st)"

definition advance_table ::
  "(real \<Rightarrow> real) \<Rightarrow> demo_draws \<Rightarrow> nat \<Rightarrow> dashboard_state \<Rightarrow> nat \<times> dashboard_state" where
  "advance_table dbl d idx st =
     (if idx < length (ds_tables st)
      then
        let table = ds_tables st ! idx;
            progress = dbl (ts_progress table + dd_inc d);
            t1 = table\<lparr>ts_progress := progress, ts_rows_migrated :=
                   word_of_int \<lfloor>dbl (dbl (progress / 100) * dbl (real (unat (ts_rows_total table))))\<rfloor>\<rparr>
        in if progress \<ge> 100
           then
             let t2 = t1\<lparr>ts_progress := 100, ts_status := ''DONE'', ts_rows_migrated := ts_rows_total t1\<rparr>;
                 st1 = st\<lparr>ds_tables := (ds_tables st)[idx := t2],
                          ds_tables_completed := ds_tables_completed st + 1,
                          ds_ranges_completed := ds_ranges_completed st + 128\<rparr>;
                 st2 = add_log (dd_now d 1) ''INFO'' (''Table '' @ ts_name t2 @ '' migration completed'') st1;
                 idx' = idx + 1
             in if idx' < length (ds_tables st2)
                then (idx',
                      let st3 = st2\<lparr>ds_tables :=
                                  (ds_tables st2)[idx' := (ds_tables st2 ! idx')\<lparr>ts_status := ''RUNNING''\<rparr>]\<rparr>
                      in add_log (dd_now d 2) ''INFO'' (''Starting migration: '' @ ts_name (ds_tables st3 ! idx')) st3)
                else (idx', st2)
           else (idx, st\<lparr>ds_tables := (ds_tables st)[idx := t1]\<rparr>)
      else (idx, st))"

definition check_complete :: "demo_draws \<Rightarrow> nat \<Rightarrow> dashboard_state \<Rightarrow> dashboard_state" where
  "check_complete d idx st =
     (if ds_migrated_rows st \<ge> ds_total_rows st \<or> idx \<ge> length (ds_tables st)
      then add_log (dd_now d 3) ''INFO'' ''Migration completed successfully''
             (st\<lparr>ds_is_running := False, ds_migrated_rows := ds_total_rows st, ds_progress_percent := 100\<rparr>)
      else st)"

definition demo_messages :: "string list" where
  "demo_messages =
     [''Processing token range -9223372036854775808 to -8646911284551352321'',
      ''Batch insert: 1000 rows committed'',
      ''Token range completed, moving to next segment'',
      ''Connection pool: 8/8 active connections'',
      ''Memory usage: 1.2GB / 4GB allocated'']"

definition demo_warnings :: "string list" where
  "demo_warnings =
     [''Slow response from target node scylla-target-2.aws.example.com'',
      ''Retry attempt 1/3 for batch insert'',
      ''Speculative execution triggered - coordinator slow'']"

definition periodic_logs :: "demo_draws \<Rightarrow> u64 \<Rightarrow> dashboard_state \<Rightarrow> dashboard_state" where
  "periodic_logs d ticks st =
     (let st1 = (if ticks mod 50 = 0 then add_log (dd_now d 4) ''INFO'' (demo_messages ! dd_msg d) st else st)
      in if ticks mod 200 = 0 \<and> dd_warn_chance d = 1
         then add_log (dd_now d 5) ''WARN'' (demo_warnings ! dd_warn d) st1
         else st1)"

definition mock_update ::
  "(real \<Rightarrow> real) \<Rightarrow> demo_draws \<Rightarrow> mock_generator \<times> dashboard_state \<Rightarrow> mock_generator \<times> dashboard_state" where
  "mock_update dbl d = (\<lambda>(g, st).
     let g1 = g\<lparr>mg_tick_count := mg_tick_count g + 1\<rparr>
     in if \<not> mg_started g1 then (g1\<lparr>mg_started := True\<rparr>, initialize_demo dbl (dd_now d) st)
        else
          let st1 = update_elapsed (st\<lparr>ds_elapsed_secs := dbl (ds_elapsed_secs st + dbl (1 / 10))\<rparr>)
          in if ds_is_paused st1 \<or> \<not> ds_is_running st1 then (g1, st1)
             else
               let st2 = simulate_failure d (migrate_rows d st1);
                   st3 = update_progress dbl (st2\<lparr>ds_throughput := dbl (15000 + dd_jitter d)\<rparr>);
                   (idx, st4) = advance_table dbl d (mg_current_table g1) st3
               in (g1\<lparr>mg_current_table := idx\<rparr>,
                   periodic_logs d (mg_tick_count g1) (check_complete d idx st4)))"

section \<open>The demo's invariant\<close>

text \<open>Rounding to \<open>double\<close> is monotone and exact on half-integers of at most 53 bits.\<close>

definition double_rounding :: "(real \<Rightarrow> real) \<Rightarrow> bool" where
  "double_rounding dbl \<longleftrightarrow>
     mono dbl \<and> (\<forall>k. \<bar>k\<bar> \<le> 2 ^ 53 \<longrightarrow> dbl (of_int k / 2) = of_int k / 2)"

text \<open>Tables before the current one are done, the current one is running, later ones wait.\<close>

definition demo_table_ok :: "nat \<Rightarrow> nat \<Rightarrow> table_status \<Rightarrow> bool" where
  "demo_table_ok idx i t \<longleftrightarrow>
     (if i < idx then ts_status t = ''DONE'' \<and> ts_progress t = 100 \<and> ts_rows_migrated t = ts_rows_total t
      else if i = idx then ts_status t = ''RUNNING'' \<and> 0 \<le> ts_progress t \<and> ts_progress t < 100 \<and>
        ts_rows_migrated t \<le> ts_rows_total t
      else ts_status t = ''PENDING'' \<and> ts_progress t = 0 \<and> ts_rows_migrated t = 0)"

definition demo_tables_ok :: "nat \<Rightarrow> table_status list \<Rightarrow> bool" where
  "demo_tables_ok idx ts \<longleftrightarrow>
     idx \<le> 8 \<and> map (\<lambda>t. (ts_name t, ts_rows_total t)) ts = demo_tables \<and>
     (\<forall>i < 8. demo_table_ok idx i (ts ! i))"

text \<open>\<open>n\<close> bounds the work so far: each update that works moves the current table on by at
  least half a percent and the counter by at most 2500 rows.\<close>

definition demo_ok :: "nat \<Rightarrow> nat \<Rightarrow> dashboard_state \<Rightarrow> bool" where
  "demo_ok n idx st \<longleftrightarrow>
     demo_tables_ok idx (ds_tables st) \<and>
     ds_tables_total st = 8 \<and> ds_tables_completed st = of_nat idx \<and>
     ds_ranges_total st = 1024 \<and> ds_ranges_completed st = of_nat (128 * idx) \<and>
     ds_total_rows st = 111999678 \<and>
     0 \<le> ds_progress_percent st \<and> ds_progress_percent st \<le> 100 \<and>
     (if ds_is_running st
      then idx < 8 \<and> unat (ds_migrated_rows st) \<le> 2500 * n \<and>
        real n \<le> 200 * real idx + 2 * ts_progress (ds_tables st ! idx)
      else idx = 8 \<and> ds_migrated_rows st = ds_total_rows st \<and> ds_progress_percent st = 100)"

section \<open>Lemmas\<close>

lemma double_rounding_nat: "double_rounding dbl \<Longrightarrow> n \<le> 2 ^ 52 \<Longrightarrow> dbl (real n) = real n"
  unfolding double_rounding_def by (elim conjE allE [where x = "2 * int n"]) simp

lemma double_rounding_mono: "double_rounding dbl \<Longrightarrow> x \<le> y \<Longrightarrow> dbl x \<le> dbl y"
  by (simp add: double_rounding_def mono_def)

text \<open>The share of a row count stays within it.\<close>

lemma rounded_share:
  assumes "double_rounding dbl" "0 \<le> q" "q \<le> 1" "n \<le> 2 ^ 52"
  shows "0 \<le> dbl (dbl q * dbl (real n)) \<and> dbl (dbl q * dbl (real n)) \<le> real n"
proof -
  have q: "0 \<le> dbl q" "dbl q \<le> 1"
    using assms double_rounding_mono [of dbl 0 q] double_rounding_mono [of dbl q 1]
      double_rounding_nat [of dbl 0] double_rounding_nat [of dbl 1] by auto
  have "0 \<le> dbl q * real n" "dbl q * real n \<le> real n"
    using q by (auto intro: mult_left_le_one_le)
  then have "dbl 0 \<le> dbl (dbl q * real n)" "dbl (dbl q * real n) \<le> dbl (real n)"
    by (simp_all add: double_rounding_mono assms(1))
  then show ?thesis
    using double_rounding_nat [OF assms(1), of 0] double_rounding_nat [OF assms(1,4)] by simp
qed

lemma share_word_le:
  fixes m :: u64
  assumes "double_rounding dbl" "0 \<le> q" "q \<le> 1" "unat m \<le> 2 ^ 52"
  shows "(word_of_int \<lfloor>dbl (dbl q * dbl (real (unat m)))\<rfloor> :: u64) \<le> m"
proof -
  let ?f = "\<lfloor>dbl (dbl q * dbl (real (unat m)))\<rfloor>"
  have "0 \<le> ?f" "?f \<le> int (unat m)"
    using rounded_share [OF assms] by (simp_all add: floor_le_iff)
  then have w: "(word_of_int ?f :: u64) = word_of_nat (nat ?f)" by simp
  have "nat ?f \<le> unat m"
    using \<open>?f \<le> int (unat m)\<close> by (simp only: nat_le_iff)
  then have "nat ?f mod 2 ^ 64 \<le> unat m"
    using mod_less_eq_dividend [of "nat ?f" "2 ^ 64"] by (rule order_trans [rotated])
  then show ?thesis
    unfolding w word_le_nat_alt unat_of_nat by simp
qed

lemma length_demo_tables [simp]: "length demo_tables = 8"
  by (simp add: demo_tables_def)

lemma demo_tables_ok_length: "demo_tables_ok idx ts \<Longrightarrow> length ts = 8"
  unfolding demo_tables_ok_def using length_demo_tables by (metis length_map)

lemma demo_table_rows: "\<forall>x \<in> set demo_tables. unat (snd x) \<le> 2 ^ 52"
proof -
  have "list_all (\<lambda>x. unat (snd x) \<le> 2 ^ 52) demo_tables" by (simp add: demo_tables_def)
  then show ?thesis by (simp only: list_all_iff)
qed

lemma demo_tables_ok_rows:
  assumes "demo_tables_ok idx ts" "i < 8"
  shows "unat (ts_rows_total (ts ! i)) \<le> 2 ^ 52"
proof -
  have "map (\<lambda>t. (ts_name t, ts_rows_total t)) ts ! i \<in> set demo_tables"
    using assms nth_mem [of i demo_tables] by (simp add: demo_tables_ok_def)
  then show ?thesis
    using assms(2) demo_tables_ok_length [OF assms(1)] demo_table_rows by fastforce
qed

lemma demo_tables_ok_update:
  assumes ok: "demo_tables_ok idx ts" and i: "i < 8"
    and same: "ts_name t = ts_name (ts ! i)" "ts_rows_total t = ts_rows_total (ts ! i)"
    and idx': "idx' \<le> 8" and t: "demo_table_ok idx' i t"
    and others: "\<And>j. j < 8 \<Longrightarrow> j \<noteq> i \<Longrightarrow> demo_table_ok idx j (ts ! j) \<Longrightarrow> demo_table_ok idx' j (ts ! j)"
  shows "demo_tables_ok idx' (ts[i := t])"
proof -
  have "map (\<lambda>t. (ts_name t, ts_rows_total t)) (ts[i := t]) = map (\<lambda>t. (ts_name t, ts_rows_total t)) ts"
    using demo_tables_ok_length [OF ok] i by (simp add: map_update same list_update_same_conv)
  then show ?thesis
    using ok i idx' t others demo_tables_ok_length [OF ok] unfolding demo_tables_ok_def
    by (auto simp: nth_list_update)
qed

text \<open>One update moves the current table on by half a percent, whatever the rounding.\<close>

lemma progress_advances:
  assumes "double_rounding dbl" "1 / 2 \<le> inc" "idx < 8" "0 \<le> p" "p < 100"
    and "real n \<le> 200 * real idx + 2 * p"
  shows "real (n + 1) \<le> 200 * real idx + 2 * dbl (p + inc)" "0 \<le> dbl (p + inc)"
proof -
  let ?k = "int (n + 1) - 200 * int idx"
  have "real n < 1600" using assms by linarith
  then have "\<bar>?k\<bar> \<le> 2 ^ 53" using assms(3) by simp
  then have "of_int ?k / 2 = dbl (of_int ?k / 2)"
    using assms(1) unfolding double_rounding_def by metis
  also have "\<dots> \<le> dbl (p + inc)"
  proof (rule double_rounding_mono [OF assms(1)])
    show "of_int ?k / 2 \<le> p + inc" using assms(2,6) by simp
  qed
  finally show "real (n + 1) \<le> 200 * real idx + 2 * dbl (p + inc)" by simp
  show "0 \<le> dbl (p + inc)"
    using double_rounding_mono [OF assms(1), of 0 "p + inc"] double_rounding_nat [OF assms(1), of 0] assms by simp
qed

lemma advance_table_frame:
  assumes "advance_table dbl d idx st = (idx', st')"
  shows "ds_total_rows st' = ds_total_rows st" "ds_migrated_rows st' = ds_migrated_rows st"
    "ds_tables_total st' = ds_tables_total st" "ds_ranges_total st' = ds_ranges_total st"
    "ds_is_running st' = ds_is_running st" "ds_is_paused st' = ds_is_paused st"
    "ds_progress_percent st' = ds_progress_percent st" "ds_elapsed_secs st' = ds_elapsed_secs st"
    "ds_tables_completed st' = ds_tables_completed st + of_nat (idx' - idx)"
    "ds_ranges_completed st' = ds_ranges_completed st + of_nat (128 * (idx' - idx))"
  using assms by (auto simp: advance_table_def Let_def split: if_splits)

lemma finish_table_ok:
  fixes ts :: "table_status list"
  assumes ok: "demo_tables_ok idx ts" "idx < 8"
  defines "finished \<equiv> ts[idx := (ts ! idx)\<lparr>ts_progress := 100, ts_status := ''DONE'',
              ts_rows_migrated := ts_rows_total (ts ! idx)\<rparr>]"
  shows "demo_tables_ok (idx + 1)
    (if idx + 1 < 8 then finished[idx + 1 := (finished ! (idx + 1))\<lparr>ts_status := ''RUNNING''\<rparr>] else finished)"
proof -
  have len: "length finished = 8" using demo_tables_ok_length [OF ok(1)] by (simp add: finished_def)
  have nth: "finished ! j = (if j = idx then (ts ! idx)\<lparr>ts_progress := 100, ts_status := ''DONE'',
      ts_rows_migrated := ts_rows_total (ts ! idx)\<rparr> else ts ! j)" for j
    using ok(2) demo_tables_ok_length [OF ok(1)] by (auto simp: finished_def nth_list_update)
  let ?f = "\<lambda>t. (ts_name t, ts_rows_total t)"
  have "map ?f finished = map ?f ts"
    using ok(2) demo_tables_ok_length [OF ok(1)] by (simp add: finished_def map_update list_update_same_conv)
  then have fs: "map ?f finished = demo_tables" using ok(1) by (simp add: demo_tables_ok_def)
  have "map ?f (finished[idx + 1 := (finished ! (idx + 1))\<lparr>ts_status := ''RUNNING''\<rparr>]) = map ?f finished"
    if "idx + 1 < 8" using that len by (simp add: map_update list_update_same_conv)
  with fs have "map ?f (finished[idx + 1 := (finished ! (idx + 1))\<lparr>ts_status := ''RUNNING''\<rparr>]) = demo_tables"
    if "idx + 1 < 8" using that by simp
  then show ?thesis
    using ok fs len by (auto simp: demo_tables_ok_def demo_table_ok_def nth_list_update nth)
qed

lemma advance_table_ok:
  assumes adv: "advance_table dbl d idx st = (idx', st')"
    and r: "double_rounding dbl" and d: "draws_in_range d"
    and ok: "demo_tables_ok idx (ds_tables st)" "idx < 8"
    and work: "real n \<le> 200 * real idx + 2 * ts_progress (ds_tables st ! idx)"
  shows "demo_tables_ok idx' (ds_tables st') \<and> idx \<le> idx' \<and>
    (idx' < 8 \<longrightarrow> real (n + 1) \<le> 200 * real idx' + 2 * ts_progress (ds_tables st' ! idx'))"
proof -
  let ?t = "ds_tables st ! idx"
  define p where "p = dbl (ts_progress ?t + dd_inc d)"
  have len: "length (ds_tables st) = 8" by (rule demo_tables_ok_length [OF ok(1)])
  have running: "demo_table_ok idx idx ?t" using ok by (simp add: demo_tables_ok_def)
  then have old: "0 \<le> ts_progress ?t" "ts_progress ?t < 100" by (simp_all add: demo_table_ok_def)
  have new: "real (n + 1) \<le> 200 * real idx + 2 * p" "0 \<le> p"
    using progress_advances [OF r _ ok(2) old work, of "dd_inc d"] d by (auto simp: p_def draws_in_range_def)
  show ?thesis
  proof (cases "100 \<le> p")
    case False
    let ?t1 = "?t\<lparr>ts_progress := p, ts_rows_migrated :=
                 word_of_int \<lfloor>dbl (dbl (p / 100) * dbl (real (unat (ts_rows_total ?t))))\<rfloor>\<rparr>"
    have st': "idx' = idx" "ds_tables st' = (ds_tables st)[idx := ?t1]"
      using adv False ok(2) len by (auto simp: advance_table_def Let_def p_def)
    have "demo_table_ok idx idx ?t1"
      using running False new share_word_le [OF r _ _ demo_tables_ok_rows [OF ok]] by (simp add: demo_table_ok_def)
    then have "demo_tables_ok idx' (ds_tables st')"
      unfolding st' using ok by (intro demo_tables_ok_update) simp_all
    then show ?thesis using new st' ok(2) len by simp
  next
    case True
    let ?t2 = "?t\<lparr>ts_progress := 100, ts_status := ''DONE'', ts_rows_migrated := ts_rows_total ?t\<rparr>"
    let ?ts = "(ds_tables st)[idx := ?t2]"
    let ?ts' = "if idx + 1 < 8 then ?ts[idx + 1 := (?ts ! (idx + 1))\<lparr>ts_status := ''RUNNING''\<rparr>] else ?ts"
    have st': "idx' = idx + 1" "ds_tables st' = ?ts'"
      using adv True ok(2) len by (auto simp: advance_table_def Let_def p_def split: if_splits)
    have ts: "demo_tables_ok idx' ?ts'"
      using finish_table_ok [OF ok] by (simp add: st'(1))
    have "ts_progress (?ts' ! idx') = 0" if "idx' < 8"
      using ok that len by (simp add: st'(1) demo_tables_ok_def demo_table_ok_def)
    moreover have "real n < real (200 * idx + 200)" using work old(2) by simp
    then have "real (n + 1) \<le> 200 * real idx'" unfolding st'(1) of_nat_less_iff by simp
    ultimately show ?thesis using ts st' by simp
  qed
qed

lemma update_progress_bounds:
  assumes "double_rounding dbl" "unat (ds_migrated_rows st) \<le> unat (ds_total_rows st)"
    "unat (ds_total_rows st) \<le> 2 ^ 52" "0 < ds_total_rows st"
  shows "0 \<le> ds_progress_percent (update_progress dbl st) \<and> ds_progress_percent (update_progress dbl st) \<le> 100"
proof -
  define m t where "m = unat (ds_migrated_rows st)" and "t = unat (ds_total_rows st)"
  have "m \<le> t" "t \<le> 2 ^ 52" "0 < t"
    using assms by (simp_all add: m_def t_def word_less_nat_alt)
  then have "dbl (real m) = real m" "dbl (real t) = real t" "real m / real t \<le> 1"
    using double_rounding_nat [OF assms(1)] by (simp_all add: divide_le_eq_1)
  then show ?thesis
    using rounded_share [OF assms(1), of "real m / real t" 100] double_rounding_nat [OF assms(1), of 100] assms(4)
    by (simp add: update_progress_def m_def [symmetric] t_def [symmetric] del: of_nat_unat)
qed

lemma migrated_rows_bound:
  assumes "draws_in_range d" "unat (ds_migrated_rows st) \<le> 2500 * n"
  shows "unat (ds_migrated_rows (migrate_rows d st)) \<le> 2500 * (n + 1)"
    "ds_migrated_rows (migrate_rows d st) \<le> ds_total_rows st"
proof -
  have "unat (dd_rows d) \<le> 2500" using assms(1) by (simp add: draws_in_range_def word_le_nat_alt)
  moreover have "unat (ds_migrated_rows st + dd_rows d) \<le> unat (ds_migrated_rows st) + unat (dd_rows d)"
    by (simp only: unat_word_ariths mod_less_eq_dividend)
  ultimately show "unat (ds_migrated_rows (migrate_rows d st)) \<le> 2500 * (n + 1)"
    using assms(2) by (auto simp: migrate_rows_def min_def word_le_nat_alt)
qed (simp add: migrate_rows_def)

lemma demo_ok_log [simp]: "demo_ok n idx (add_log t l m st) = demo_ok n idx st"
  by (simp add: demo_ok_def)

lemma demo_ok_periodic [simp]: "demo_ok n idx (periodic_logs d t st) = demo_ok n idx st"
  by (simp add: periodic_logs_def Let_def)

lemma demo_ok_elapsed [simp]: "demo_ok n idx (update_elapsed (st\<lparr>ds_elapsed_secs := e\<rparr>)) = demo_ok n idx st"
  by (simp add: demo_ok_def update_elapsed_def Let_def)

lemma periodic_logs_frame [simp]:
  "ds_is_paused (periodic_logs d t st) = ds_is_paused st" "ds_is_running (periodic_logs d t st) = ds_is_running st"
  by (simp_all add: periodic_logs_def Let_def)

lemma demo_running_bound:
  assumes "demo_ok n idx st" "ds_is_running st"
  shows "n < 1600" "idx < 8"
proof -
  show idx: "idx < 8" using assms by (simp add: demo_ok_def)
  then have "ts_progress (ds_tables st ! idx) < 100"
    using assms by (auto simp: demo_ok_def demo_tables_ok_def demo_table_ok_def)
  moreover have "real n \<le> 200 * real idx + 2 * ts_progress (ds_tables st ! idx)"
    using assms by (simp add: demo_ok_def)
  ultimately have "real n < 1600" using idx by simp
  then show "n < 1600" by simp
qed

text \<open>The work of one update on a state that is running and not paused.\<close>

lemma demo_work_ok:
  assumes r: "double_rounding dbl" and d: "draws_in_range d"
    and ok: "demo_ok n idx st" and run: "ds_is_running st"
    and adv: "advance_table dbl d idx (update_progress dbl
               ((simulate_failure d (migrate_rows d st))\<lparr>ds_throughput := x\<rparr>)) = (idx', st')"
  shows "demo_ok (n + 1) idx' (check_complete d idx' st')"
proof -
  let ?st3 = "update_progress dbl ((simulate_failure d (migrate_rows d st))\<lparr>ds_throughput := x\<rparr>)"
  note bound = demo_running_bound [OF ok run]
  have total: "ds_total_rows st = 111999678" and migrated: "unat (ds_migrated_rows st) \<le> 2500 * n"
    using ok run by (simp_all add: demo_ok_def)
  have st3: "ds_migrated_rows ?st3 = ds_migrated_rows (migrate_rows d st)" "ds_total_rows ?st3 = ds_total_rows st"
    "ds_tables ?st3 = ds_tables st" "ds_tables_total ?st3 = ds_tables_total st"
    "ds_tables_completed ?st3 = ds_tables_completed st" "ds_ranges_total ?st3 = ds_ranges_total st"
    "ds_ranges_completed ?st3 = ds_ranges_completed st" "ds_is_running ?st3 = ds_is_running st"
    by (simp_all add: update_progress_def simulate_failure_def migrate_rows_def)
  have percent: "0 \<le> ds_progress_percent ?st3 \<and> ds_progress_percent ?st3 \<le> 100"
    using migrated_rows_bound [OF d migrated] total
    by (intro update_progress_bounds [OF r])
       (simp_all add: simulate_failure_def migrate_rows_def word_le_nat_alt)
  have tables: "demo_tables_ok idx' (ds_tables st')" "idx \<le> idx'"
    "idx' < 8 \<longrightarrow> real (n + 1) \<le> 200 * real idx' + 2 * ts_progress (ds_tables st' ! idx')"
    using advance_table_ok [OF adv r d] ok run by (auto simp: demo_ok_def st3)
  note frame = advance_table_frame [OF adv] and rows = migrated_rows_bound(1) [OF d migrated]
  have "unat (ds_migrated_rows st') < unat (ds_total_rows st')"
    using rows bound total by (simp add: frame st3)
  moreover have "idx' \<le> 8" "length (ds_tables st') = 8"
    using tables(1) demo_tables_ok_length by (auto simp: demo_tables_ok_def)
  ultimately show ?thesis
    using tables ok run rows percent total
    by (auto simp: check_complete_def demo_ok_def frame st3 word_le_nat_alt of_nat_diff)
qed

lemma mock_update_ok:
  assumes "double_rounding dbl" "draws_in_range d" "mg_started g" "demo_ok n (mg_current_table g) st"
    and upd: "mock_update dbl d (g, st) = (g', st')"
  shows "mg_started g' \<and> ds_is_paused st' = ds_is_paused st \<and> (ds_is_running st' \<longrightarrow> ds_is_running st) \<and>
    demo_ok (if ds_is_running st \<and> \<not> ds_is_paused st then n + 1 else n) (mg_current_table g') st'"
proof (cases "ds_is_running st \<and> \<not> ds_is_paused st")
  case False
  then show ?thesis
    using assms by (auto simp: mock_update_def Let_def update_elapsed_def demo_ok_def)
next
  case True
  let ?st1 = "update_elapsed (st\<lparr>ds_elapsed_secs := dbl (ds_elapsed_secs st + dbl (1 / 10))\<rparr>)"
  obtain idx st4 where adv: "advance_table dbl d (mg_current_table g) (update_progress dbl
      ((simulate_failure d (migrate_rows d ?st1))\<lparr>ds_throughput := dbl (15000 + dd_jitter d)\<rparr>)) = (idx, st4)"
    by fastforce
  have run: "ds_is_running ?st1" "\<not> ds_is_paused ?st1" using True by (simp_all add: update_elapsed_def Let_def)
  have st': "mg_started g'" "mg_current_table g' = idx"
    "st' = periodic_logs d (mg_tick_count g + 1) (check_complete d idx st4)"
    using upd adv run assms(3) by (auto simp: mock_update_def Let_def)
  have "demo_ok (n + 1) idx (check_complete d idx st4)"
    using demo_work_ok [OF assms(1,2) _ run(1) adv] assms(4) by simp
  moreover have "\<not> ds_is_paused st4"
    using run(2) by (simp add: advance_table_frame(6) [OF adv] update_progress_def simulate_failure_def migrate_rows_def)
  ultimately show ?thesis
    using True by (simp add: st' check_complete_def)
qed

text \<open>A state without a migration: the start of the program, and after a reset.\<close>

definition idle_state :: "dashboard_state \<Rightarrow> bool" where
  "idle_state st \<longleftrightarrow>
     ds_tables st = [] \<and> \<not> ds_is_running st \<and> ds_total_rows st = 0 \<and> ds_migrated_rows st = 0 \<and>
     ds_progress_percent st = 0 \<and> ds_tables_total st = 0 \<and> ds_tables_completed st = 0 \<and>
     ds_ranges_total st = 0 \<and> ds_ranges_completed st = 0"

lemma initialize_demo_ok:
  assumes "idle_state st"
  shows "demo_ok 0 0 (initialize_demo dbl now st)" "ds_is_running (initialize_demo dbl now st)"
    "\<not> ds_is_paused (initialize_demo dbl now st)"
proof -
  let ?ts = "map2 demo_table [0 ..< 8] demo_tables"
  have rows: "sum_list (map snd demo_tables) = 111999678" by (simp add: demo_tables_def)
  have "map (\<lambda>t. (ts_name t, ts_rows_total t)) ?ts = demo_tables"
    by (rule nth_equalityI) (simp_all add: demo_table_def)
  moreover have "demo_table_ok 0 i (?ts ! i)" if "i < 8" for i
    using that by (simp add: demo_table_ok_def demo_table_def)
  ultimately have "demo_tables_ok 0 ?ts" by (simp add: demo_tables_ok_def)
  then show "demo_ok 0 0 (initialize_demo dbl now st)"
    using assms rows by (simp add: initialize_demo_def Let_def demo_ok_def idle_state_def demo_table_def)
qed (simp_all add: initialize_demo_def Let_def)

text \<open>A reset clears the state but not the generator: the demo never runs again.\<close>

lemma idle_after_reset:
  assumes "idle_state st" "mg_started g" "mock_update dbl d (g, st) = (g', st')"
  shows "idle_state st' \<and> mg_started g'"
  using assms by (auto simp: mock_update_def Let_def idle_state_def)

lemma mock_run_progress:
  assumes "double_rounding dbl" "\<forall>d \<in> set ds. draws_in_range d"
    and "mg_started g" "demo_ok n (mg_current_table g) st" "\<not> ds_is_paused st"
    and "fold (mock_update dbl) ds (g, st) = (g', st')"
  shows "\<exists>m. mg_started g' \<and> demo_ok m (mg_current_table g') st' \<and> 
    (ds_is_running st' \<longrightarrow> ds_is_running st \<and> m = n + length ds)"
  using assms(2-)
proof (induction ds arbitrary: n g st)
  case (Cons d ds)
  obtain g1 st1 where step: "mock_update dbl d (g, st) = (g1, st1)" by fastforce
  let ?n = "if ds_is_running st \<and> \<not> ds_is_paused st then n + 1 else n"
  have ok: "mg_started g1" "demo_ok ?n (mg_current_table g1) st1" "\<not> ds_is_paused st1"
    "ds_is_running st1 \<longrightarrow> ds_is_running st"
    using mock_update_ok [OF assms(1) _ Cons.prems(2,3) step] Cons.prems(1,4) by simp_all
  obtain m where m: "mg_started g'" "demo_ok m (mg_current_table g') st'"
    "ds_is_running st' \<longrightarrow> ds_is_running st1 \<and> m = ?n + length ds"
    using Cons.IH [OF _ ok(1-3)] Cons.prems(1,5) step by auto
  then show ?case using ok(4) Cons.prems(4) by auto
qed auto

section \<open>Valid figures\<close>

text \<open>What every number and every table on the screen satisfies.\<close>

definition valid_table :: "table_status \<Rightarrow> bool" where
  "valid_table t \<longleftrightarrow>
     ts_status t \<in> {''PENDING'', ''RUNNING'', ''DONE''} \<and> 0 \<le> ts_progress t \<and> ts_progress t \<le> 100 \<and>
     ts_rows_migrated t \<le> ts_rows_total t \<and>
     (ts_status t = ''DONE'' \<longrightarrow> ts_progress t = 100 \<and> ts_rows_migrated t = ts_rows_total t)"

definition valid_figures :: "dashboard_state \<Rightarrow> bool" where
  "valid_figures st \<longleftrightarrow>
     list_all valid_table (ds_tables st) \<and>
     ds_tables_total st = of_nat (length (ds_tables st)) \<and>
     ds_tables_completed st = of_nat (length (filter (\<lambda>t. ts_status t = ''DONE'') (ds_tables st))) \<and>
     ds_ranges_completed st \<le> ds_ranges_total st \<and> ds_migrated_rows st \<le> ds_total_rows st \<and>
     0 \<le> ds_progress_percent st \<and> ds_progress_percent st \<le> 100"

lemma demo_tables_done:
  assumes "demo_tables_ok idx ts"
  shows "length (filter (\<lambda>t. ts_status t = ''DONE'') ts) = idx"
proof -
  have "{i. i < length ts \<and> ts_status (ts ! i) = ''DONE''} = {..< idx}"
    using assms demo_tables_ok_length [OF assms]
    by (auto simp: demo_tables_ok_def demo_table_ok_def split: if_splits)
  then show ?thesis by (simp add: length_filter_conv_card)
qed

lemma demo_table_valid: "demo_table_ok idx i t \<Longrightarrow> valid_table t"
  by (auto simp: demo_table_ok_def valid_table_def split: if_splits)

lemma demo_tables_valid: "demo_tables_ok idx ts \<Longrightarrow> list_all valid_table ts"
  using demo_tables_ok_length [of idx ts] demo_table_valid
  by (auto simp: demo_tables_ok_def list_all_length)

lemma demo_ok_valid:
  assumes "demo_ok n idx st"
  shows "valid_figures st"
proof -
  have ts: "demo_tables_ok idx (ds_tables st)" and idx: "idx \<le> 8"
    using assms by (simp_all add: demo_ok_def demo_tables_ok_def)
  have "ds_migrated_rows st \<le> ds_total_rows st"
  proof (cases "ds_is_running st")
    case True
    then show ?thesis
      using assms demo_running_bound [OF assms] by (simp add: demo_ok_def word_le_nat_alt)
  qed (use assms in \<open>simp add: demo_ok_def\<close>)
  moreover have "(of_nat (128 * idx) :: u32) \<le> 1024"
    using idx by (simp add: word_le_nat_alt unat_of_nat del: of_nat_mult)
  ultimately show ?thesis
    using assms demo_tables_done [OF ts] demo_tables_valid [OF ts] demo_tables_ok_length [OF ts]
    by (simp add: valid_figures_def demo_ok_def)
qed

lemma idle_valid: "idle_state st \<Longrightarrow> valid_figures st"
  by (simp add: idle_state_def valid_figures_def)

end
