(* ===== verification/Dashboard_Screen.thy ===== *)
theory Dashboard_Screen
  imports Dashboard_Client Dashboard_Demo
begin

text \<open>
  The program of the terminal dashboard (\<open>services/tui-dash/src/main.cpp\<close>): what it draws, its key
  handler and its update thread.

  FTXUI is not part of the repository: an \<open>element\<close> is the tree of the calls that build it. The
  update thread and the key handler run under one mutex, so the program is a sequence of
  events, each a whole iteration of the update loop or a whole key press, in any order.
  \<open>flt\<close> rounds to \<open>float\<close>.
\<close>

section \<open>Definitions\<close>

subsection \<open>Elements\<close>

type_synonym color = "nat \<times> nat \<times> nat"

datatype decorator = Color color | BgColor color | Bold | Dim | Center | Border | BorderEmpty | Flex | Width nat

datatype element =
    Text string
  | Gauge real
  | Hbox "element list"
  | Vbox "element list"
  | Styled element "decorator list"

definition kRed :: color where "kRed = (220, 50, 47)"
definition kDarkRed :: color where "kDarkRed = (139, 0, 0)"
definition kWhite :: color where "kWhite = (253, 246, 227)"
definition kSilver :: color where "kSilver = (147, 161, 161)"
definition kGold :: color where "kGold = (255, 193, 37)"
definition kDarkGold :: color where "kDarkGold = (184, 134, 11)"
definition kBgDark :: color where "kBgDark = (0, 20, 30)"
definition kBgPanel :: color where "kBgPanel = (7, 30, 41)"
definition kSuccess :: color where "kSuccess = (133, 153, 0)"
definition kError :: color where "kError = (220, 50, 47)"

subsection \<open>Rendering\<close>

definition stat_box :: "string \<Rightarrow> string \<Rightarrow> color \<Rightarrow> element" where
  "stat_box label val value_color =
     Styled (Vbox
       [Styled (Text label) [Color kSilver, Dim, Center],
        Styled (Text []) [Center],
        Styled (Text val) [Color value_color, Bold, Center]]) [Border, Flex, BgColor kBgPanel]"

definition render_header :: "dashboard_state \<Rightarrow> bool \<Rightarrow> bool \<Rightarrow> element" where
  "render_header st demo_mode api_connected =
     (let status_text = (if ds_is_running st then if ds_is_paused st then ''[PAUSED]'' else ''[RUNNING]''
                         else ''[STOPPED]'');
          status_color = (if ds_is_running st then if ds_is_paused st then kGold else kSuccess else kSilver);
          mode_text = (if demo_mode then ''DEMO'' else if api_connected then ''LIVE'' else ''DISCONNECTED'');
          mode_color = (if demo_mode then kGold else if api_connected then kSuccess else kRed)
      in Styled (Hbox
           [Styled (Text '' SCYLLA-CLUSTER-SYNC '') [Color kWhite, BgColor kDarkRed, Bold],
            Text ''  '',
            Styled (Text ''TUI DASHBOARD'') [Color kGold, Bold],
            Text ''  '',
            Styled (Text (''['' @ mode_text @ '']'')) [Color mode_color, Bold],
            Text ''  '',
            Styled (Text status_text) [Color status_color, Bold],
            Text ''  '',
            Styled (Text (ds_elapsed_display st)) [Color kSilver]]) [Center, BorderEmpty])"

definition render_stats :: "(real \<Rightarrow> real) \<Rightarrow> dashboard_state \<Rightarrow> element" where
  "render_stats dbl st =
     Hbox
       [stat_box ''TOTAL ROWS'' (format_number dbl (ds_total_rows st)) kWhite,
        stat_box ''MIGRATED'' (format_number dbl (ds_migrated_rows st)) kSuccess,
        stat_box ''FAILED'' (format_number dbl (ds_failed_rows st))
          (if ds_failed_rows st > 0 then kError else kSilver),
        stat_box ''THROUGHPUT'' (int_to_string (c_trunc (ds_throughput st)) @ '' rows/sec'') kGold]"

definition clamp :: "real \<Rightarrow> real \<Rightarrow> real \<Rightarrow> real" where
  "clamp x lo hi = (if x < lo then lo else if hi < x then hi else x)"

text \<open>\<open>snprintf\<close> into a buffer of 16 bytes.\<close>

definition percent_text :: "nat \<Rightarrow> real \<Rightarrow> string" where
  "percent_text k x = take 15 (c_fixed k x @ ''%'')"

definition render_progress :: "(real \<Rightarrow> real) \<Rightarrow> (real \<Rightarrow> real) \<Rightarrow> dashboard_state \<Rightarrow> element" where
  "render_progress dbl flt st =
     Styled (Vbox
       [Styled (Gauge (flt (dbl (clamp (ds_progress_percent st) 0 100 / 100)))) [Color kGold],
        Styled (Hbox
          [Styled (Text ''Tables: '') [Color kSilver],
           Styled (Text (nat_to_string (unat (ds_tables_completed st)) @ ''/'' @
                         nat_to_string (unat (ds_tables_total st)))) [Color kWhite, Bold],
           Text ''  |  '',
           Styled (Text ''Skipped: '') [Color kSilver],
           Styled (Text (nat_to_string (unat (ds_tables_skipped st))))
             [Color (if ds_tables_skipped st > 0 then kError else kSilver)],
           Text ''  |  '',
           Styled (Text ''Ranges: '') [Color kSilver],
           Styled (Text (nat_to_string (unat (ds_ranges_completed st)) @ ''/'' @
                         nat_to_string (unat (ds_ranges_total st)))) [Color kWhite],
           Text ''  |  '',
           Styled (Text (percent_text 2 (ds_progress_percent st))) [Color kGold, Bold]]) [Center]])
     [Border, Color kDarkGold, BgColor kBgPanel]"

definition render_table :: "table_status \<Rightarrow> element" where
  "render_table t =
     (let c0 = kSilver;
          c1 = (if ts_status t = ''DONE'' then kSuccess else c0);
          c2 = (if ts_status t = ''RUNNING'' then kGold else c1);
          status_color = (if ts_status t = ''FAILED'' then kError else c2)
      in Hbox
           [Styled (Text (ts_status t)) [Color status_color, Width 12],
            Styled (Text (ts_name t)) [Color kWhite, Flex],
            Styled (Text (percent_text 1 (ts_progress t))) [Color kSilver, Width 10]])"

definition render_tables :: "dashboard_state \<Rightarrow> element" where
  "render_tables st =
     Styled (Vbox
       (Styled (Hbox
          [Styled (Text ''STATUS'') [Color kGold, Bold, Width 12],
           Styled (Text ''TABLE NAME'') [Color kGold, Bold, Flex],
           Styled (Text ''PROGRESS'') [Color kGold, Bold, Width 10]]) [BorderEmpty]
        # map render_table (ds_tables st))) [Border, BgColor kBgPanel, Flex]"

definition render_log_entry :: "(nat \<Rightarrow> int \<times> int \<times> int) \<Rightarrow> log_entry \<Rightarrow> element" where
  "render_log_entry local_time e =
     (let (prefix, level_color) =
            (if le_level e = ''ERROR'' then (''[ERR]'', kError)
             else if le_level e = ''WARN'' then (''[WRN]'', kGold)
             else if le_level e = ''INFO'' then (''[INF]'', kSuccess)
             else (''[---]'', kSilver))
      in Hbox
           [Styled (Text (format_time local_time (le_timestamp e) @ '' '')) [Color kSilver, Dim],
            Styled (Text (prefix @ '' '')) [Color level_color],
            Styled (Text (le_message e)) [Color kWhite]])"

text \<open>The loop indexes the log from its end.\<close>

definition log_lines :: "(nat \<Rightarrow> int \<times> int \<times> int) \<Rightarrow> dashboard_state \<Rightarrow> element list" where
  "log_lines local_time st =
     (let es = ds_activity_log st
      in map (\<lambda>i. render_log_entry local_time (es ! (length es - 1 - i))) [0 ..< min (length es) 20])"

definition render_activity_log :: "(nat \<Rightarrow> int \<times> int \<times> int) \<Rightarrow> dashboard_state \<Rightarrow> element" where
  "render_activity_log local_time st =
     Styled (Vbox (log_lines local_time st)) [Border, BgColor kBgPanel, Flex]"

definition render_footer :: element where
  "render_footer =
     Styled (Hbox
       [Styled (Text '' [Q] '') [Color kBgDark, BgColor kRed],
        Styled (Text '' Quit '') [Color kSilver],
        Text ''  '',
        Styled (Text '' [SPACE] '') [Color kBgDark, BgColor kGold],
        Styled (Text '' Pause/Resume '') [Color kSilver],
        Text ''  '',
        Styled (Text '' [R] '') [Color kBgDark, BgColor kWhite],
        Styled (Text '' Reset '') [Color kSilver],
        Text ''  '',
        Styled (Text '' [UP/DOWN] '') [Color kBgDark, BgColor kSilver],
        Styled (Text '' Scroll '') [Color kSilver]]) [Center, BorderEmpty]"

subsection \<open>The program\<close>

record dashboard =
  db_args :: dash_args
  db_state :: dashboard_state
  db_mock :: "mock_generator option"
  db_api :: "api_client option"
  db_api_connected :: bool
  db_quit :: bool

definition render ::
  "(real \<Rightarrow> real) \<Rightarrow> (real \<Rightarrow> real) \<Rightarrow> (nat \<Rightarrow> int \<times> int \<times> int) \<Rightarrow> dashboard \<Rightarrow> element" where
  "render dbl flt local_time b =
     (let st = db_state b
      in Styled (Vbox
           [render_header st (da_demo (db_args b)) (db_api_connected b),
            render_stats dbl st,
            render_progress dbl flt st,
            Styled (Hbox
              [Styled (render_tables st) [Width 60],
               Styled (render_activity_log local_time st) [Flex]]) [Flex],
            render_footer]) [BgColor kBgDark])"

text \<open>The start of \<open>main\<close>; \<^term>\<open>None\<close> when \<open>std::stoi\<close> throws on an argument or on the URL.\<close>

definition dashboard_main :: "nat \<Rightarrow> string list \<Rightarrow> dashboard option" where
  "dashboard_main now argv =
     (case parse_dash_args argv of
        None \<Rightarrow> None
      | Some args \<Rightarrow>
          let st = add_log now ''INFO''
                     (if da_demo args then ''TUI Dashboard started in DEMO mode''
                      else ''TUI Dashboard started - connecting to '' @ da_api_url args)
                     new_dashboard_state;
              b = \<lparr>db_args = args, db_state = st, db_mock = None, db_api = None,
                   db_api_connected = False, db_quit = False\<rparr>
          in if da_demo args then Some (b\<lparr>db_mock := Some create_mock_generator\<rparr>)
             else map_option (\<lambda>c. b\<lparr>db_api := Some c\<rparr>) (create_api_client (da_api_url args)))"

text \<open>One iteration of the update thread.\<close>

definition update_tick ::
  "(real \<Rightarrow> real) \<Rightarrow> ('j, 'm) json_doc_scheme \<Rightarrow> demo_draws \<Rightarrow> (nat \<Rightarrow> nat) \<Rightarrow> string + (int \<times> string)
   \<Rightarrow> dashboard \<Rightarrow> dashboard" where
  "update_tick dbl js d now res b =
     (let b1 =
            (case db_mock b of
               None \<Rightarrow> b
             | Some g \<Rightarrow>
                 let (g', st) = mock_update dbl d (g, db_state b)
                 in b\<lparr>db_mock := Some g', db_state := st\<rparr>)
      in case db_api b1 of
           None \<Rightarrow> b1
         | Some c \<Rightarrow>
             let (c', st) = fetch_status js now res (c, db_state b1)
             in b1\<lparr>db_api := Some c', db_state := st, db_api_connected := ac_connected c'\<rparr>)"

datatype key = Character char | Escape | ArrowUp | ArrowDown | OtherEvent

definition handle_key :: "nat \<Rightarrow> key \<Rightarrow> dashboard \<Rightarrow> bool \<times> dashboard" where
  "handle_key now k b =
     (if k = Character (CHR ''q'') \<or> k = Escape then (True, b\<lparr>db_quit := True\<rparr>)
      else if k = Character (CHR '' '') then (True, b\<lparr>db_state := toggle_pause now (db_state b)\<rparr>)
      else if k = Character (CHR ''r'') then (True, b\<lparr>db_state := dashboard_reset now (db_state b)\<rparr>)
      else if k = ArrowUp then (True, b\<lparr>db_state := scroll_up (db_state b)\<rparr>)
      else if k = ArrowDown then (True, b\<lparr>db_state := scroll_down (db_state b)\<rparr>)
      else (False, b))"

datatype dash_event =
    Tick demo_draws "nat \<Rightarrow> nat" "string + (int \<times> string)"
  | Key nat key

fun dash_step :: "(real \<Rightarrow> real) \<Rightarrow> ('j, 'm) json_doc_scheme \<Rightarrow> dash_event \<Rightarrow> dashboard \<Rightarrow> dashboard" where
  "dash_step dbl js (Tick d now res) b = update_tick dbl js d now res b"
| "dash_step dbl js (Key now k) b = snd (handle_key now k b)"

section \<open>Lemmas\<close>

subsection \<open>The log\<close>

text \<open>\<open>extends xs ys\<close>: the window \<open>ys\<close> comes from \<open>xs\<close> by appending entries.\<close>

definition extends :: "log_entry list \<Rightarrow> log_entry list \<Rightarrow> bool" where
  "extends xs ys \<longleftrightarrow> (\<forall>es. xs = last_n 100 es \<longrightarrow> (\<exists>new. ys = last_n 100 (es @ new)))"

lemma extends_refl [simp]: "extends xs xs"
  by (auto simp: extends_def intro: exI [of _ "[]"])

lemma extends_trans [trans]: "extends xs ys \<Longrightarrow> extends ys zs \<Longrightarrow> extends xs zs"
  unfolding extends_def by (metis append_assoc)

lemma extends_add_log: "extends xs (ds_activity_log st) \<Longrightarrow> extends xs (ds_activity_log (add_log t l m st))"
  unfolding extends_def using add_log_window by (metis append_assoc)

lemma extends_log_if: "extends xs (ds_activity_log st) \<Longrightarrow> extends xs (ds_activity_log (log_if b t l m st))"
  by (simp add: log_if_def extends_add_log)

lemma extends_initialize: "extends (ds_activity_log st) (ds_activity_log (initialize_demo dbl now st))"
  by (simp add: initialize_demo_def Let_def extends_add_log)

lemma extends_work:
  "extends (ds_activity_log st) (ds_activity_log (simulate_failure d st))"
  "extends (ds_activity_log st) (ds_activity_log (check_complete d idx st))"
  "extends (ds_activity_log st) (ds_activity_log (periodic_logs d n st))"
  by (simp_all add: simulate_failure_def check_complete_def periodic_logs_def Let_def extends_add_log)

lemma extends_advance: "extends (ds_activity_log st) (ds_activity_log (snd (advance_table dbl d idx st)))"
  by (simp add: advance_table_def Let_def extends_add_log)

lemma extends_mock_update:
  "extends (ds_activity_log st) (ds_activity_log (snd (mock_update dbl d (g, st))))"
proof -
  let ?st1 = "update_elapsed (st\<lparr>ds_elapsed_secs := dbl (ds_elapsed_secs st + dbl (1 / 10))\<rparr>)"
  let ?st2 = "simulate_failure d (migrate_rows d ?st1)"
  let ?st3 = "update_progress dbl (?st2\<lparr>ds_throughput := dbl (15000 + dd_jitter d)\<rparr>)"
  let ?adv = "advance_table dbl d (mg_current_table g) ?st3"
  let ?st5 = "check_complete d (fst ?adv) (snd ?adv)"
  have "extends (ds_activity_log st) (ds_activity_log ?st2)"
    using extends_work(1) [of "migrate_rows d ?st1" d] by (simp add: migrate_rows_def)
  also have "ds_activity_log ?st2 = ds_activity_log ?st3"
    by (simp add: update_progress_def)
  also have "extends (ds_activity_log ?st3) (ds_activity_log (snd ?adv))" by (rule extends_advance)
  also have "extends (ds_activity_log (snd ?adv)) (ds_activity_log ?st5)" by (rule extends_work)
  also have "extends (ds_activity_log ?st5) (ds_activity_log (periodic_logs d (mg_tick_count g + 1) ?st5))"
    by (rule extends_work)
  finally show ?thesis
    using extends_initialize [of st dbl "dd_now d"] by (simp add: mock_update_def Let_def case_prod_beta)
qed

lemma run_setters_log:
  assumes "\<forall>f \<in> set fs. \<forall>st st'. f st = Inr st' \<longrightarrow> ds_activity_log st' = ds_activity_log st"
  shows "ds_activity_log (snd (run_setters fs st)) = ds_activity_log st"
  using assms by (induction fs arbitrary: st) (auto split: sum.splits)

lemma map_sum_Inr_iff: "map_sum id g r = Inr y \<longleftrightarrow> (\<exists>v. r = Inr v \<and> y = g v)"
  by (cases r) auto

lemma status_setters_log: "ds_activity_log (snd (run_setters (status_setters js m) st)) = ds_activity_log st"
proof (rule run_setters_log)
  show "\<forall>f \<in> set (status_setters js m). \<forall>st st'. f st = Inr st' \<longrightarrow> ds_activity_log st' = ds_activity_log st"
    by (auto simp: status_setters_def map_sum_Inr_iff)
qed

lemma extends_update_state:
  "extends (ds_activity_log st) (ds_activity_log (snd (update_state js now u body st)))"
proof -
  let ?run = "run_setters (status_setters js (j_at js body ''migration'')) st"
  have "ds_activity_log (snd ?run) = ds_activity_log st" by (rule status_setters_log)
  then show ?thesis
    by (auto simp: update_state_def log_transitions_def Let_def extends_log_if split: prod.split option.split)
qed

lemma extends_fetch_status:
  "extends (ds_activity_log st) (ds_activity_log (snd (fetch_status js now res (c, st))))"
proof -
  have "extends (ds_activity_log st) (ds_activity_log st')"
    if "update_state js now u body st = (e, st')" for u body e st'
    using extends_update_state [of st js now u body] that by simp
  then show ?thesis
    by (auto simp: fetch_status_def Let_def extends_log_if extends_add_log split: sum.split prod.split option.split)
qed

fun is_reset :: "dash_event \<Rightarrow> bool" where
  "is_reset (Key now k) = (k = Character (CHR ''r''))"
| "is_reset (Tick d now res) = False"

lemma extends_update_tick:
  "extends (ds_activity_log (db_state b)) (ds_activity_log (db_state (update_tick dbl js d now res b)))"
proof -
  let ?st = "case db_mock b of None \<Rightarrow> db_state b | Some g \<Rightarrow> snd (mock_update dbl d (g, db_state b))"
  have "extends (ds_activity_log (db_state b)) (ds_activity_log ?st)"
    using extends_mock_update by (auto split: option.split)
  also have "extends (ds_activity_log ?st) (ds_activity_log (db_state (update_tick dbl js d now res b)))"
    using extends_fetch_status [of ?st js now res]
    by (auto simp: update_tick_def Let_def case_prod_beta split: option.splits)
  finally show ?thesis .
qed

lemma extends_dash_step:
  "\<not> is_reset ev \<Longrightarrow> extends (ds_activity_log (db_state b)) (ds_activity_log (db_state (dash_step dbl js ev b)))"
  by (cases ev) (auto simp: extends_update_tick handle_key_def toggle_pause_def scroll_up_def scroll_down_def
      Let_def extends_add_log)

lemma extends_run:
  "list_all (\<lambda>ev. \<not> is_reset ev) evs \<Longrightarrow>
   extends (ds_activity_log (db_state b)) (ds_activity_log (db_state (fold (dash_step dbl js) evs b)))"
proof (induction evs arbitrary: b)
  case (Cons ev evs)
  then show ?case
    using extends_dash_step [of ev b dbl js] Cons.IH [of "dash_step dbl js ev b"] extends_trans by auto
qed simp

text \<open>The drawn lines are the newest entries first.\<close>

lemma log_lines_newest: "log_lines lt st = map (render_log_entry lt) (take 20 (rev (ds_activity_log st)))"
  by (rule nth_equalityI) (auto simp: log_lines_def Let_def rev_nth)

lemma newest_of_window: "take 20 (rev (last_n 100 es)) = take 20 (rev es)"
  by (simp add: last_n_def rev_drop min_def)

subsection \<open>The demo\<close>

fun event_in_range :: "dash_event \<Rightarrow> bool" where
  "event_in_range (Tick d now res) = draws_in_range d"
| "event_in_range (Key now k) = True"

definition demo_screen :: "dashboard \<Rightarrow> bool" where
  "demo_screen b \<longleftrightarrow>
     (\<exists>g. db_mock b = Some g \<and> db_api b = None \<and>
       (idle_state (db_state b) \<and> (\<not> mg_started g \<longrightarrow> mg_current_table g = 0) \<or>
        mg_started g \<and> (\<exists>n. demo_ok n (mg_current_table g) (db_state b))))"

lemma dashboard_main_demo:
  assumes "dashboard_main now argv = Some b" "da_demo (db_args b)"
  shows "db_mock b = Some create_mock_generator" "db_api b = None" "idle_state (db_state b)"
    "length (ds_activity_log (db_state b)) \<le> 100"
  using assms
  by (auto simp: dashboard_main_def Let_def idle_state_def new_dashboard_state_def add_log_def
      split: option.splits if_splits)

lemma demo_screen_main: "dashboard_main now argv = Some b \<Longrightarrow> da_demo (db_args b) \<Longrightarrow> demo_screen b"
  using dashboard_main_demo [of now argv b] by (simp add: demo_screen_def create_mock_generator_def)

lemma demo_screen_tick:
  assumes "double_rounding dbl" "draws_in_range d" "demo_screen b"
  shows "demo_screen (update_tick dbl js d now res b)"
proof -
  obtain g where g: "db_mock b = Some g" "db_api b = None"
    and cases: "idle_state (db_state b) \<and> (\<not> mg_started g \<longrightarrow> mg_current_table g = 0) \<or>
        mg_started g \<and> (\<exists>n. demo_ok n (mg_current_table g) (db_state b))"
    using assms(3) by (auto simp: demo_screen_def)
  obtain g' st' where step: "mock_update dbl d (g, db_state b) = (g', st')" by fastforce
  have b': "db_mock (update_tick dbl js d now res b) = Some g'" "db_api (update_tick dbl js d now res b) = None"
    "db_state (update_tick dbl js d now res b) = st'"
    using g step by (simp_all add: update_tick_def)
  consider "idle_state (db_state b)" "mg_started g" | "idle_state (db_state b)" "\<not> mg_started g" "mg_current_table g = 0"
    | n where "mg_started g" "demo_ok n (mg_current_table g) (db_state b)"
    using cases by (cases "mg_started g") auto
  then have "idle_state st' \<and> mg_started g' \<or> mg_started g' \<and> (\<exists>n. demo_ok n (mg_current_table g') st')"
  proof cases
    case 1
    then show ?thesis using idle_after_reset [OF _ _ step] by blast
  next
    case 2
    then have "mg_started g' \<and> mg_current_table g' = 0 \<and> st' = initialize_demo dbl (dd_now d) (db_state b)"
      using step by (auto simp: mock_update_def Let_def)
    then show ?thesis using initialize_demo_ok(1) [OF 2(1)] by metis
  next
    case 3
    then show ?thesis using mock_update_ok [OF assms(1,2) _ _ step] by blast
  qed
  then show ?thesis by (auto simp: demo_screen_def b')
qed

lemma demo_ok_ui [simp]:
  "demo_ok n idx (st\<lparr>ds_is_paused := p\<rparr>) = demo_ok n idx st"
  "demo_ok n idx (st\<lparr>ds_scroll_offset := o'\<rparr>) = demo_ok n idx st"
  by (simp_all add: demo_ok_def)

lemma idle_ui [simp]:
  "idle_state (add_log t l m st) = idle_state st" "idle_state (st\<lparr>ds_scroll_offset := o'\<rparr>) = idle_state st"
  "idle_state (st\<lparr>ds_is_paused := p\<rparr>) = idle_state st"
  by (simp_all add: idle_state_def)

lemma demo_screen_key:
  assumes "demo_screen b"
  shows "demo_screen (snd (handle_key now k b))"
proof -
  have "idle_state (toggle_pause t st) = idle_state st" "demo_ok n idx (toggle_pause t st) = demo_ok n idx st"
    "idle_state (scroll_up st) = idle_state st" "demo_ok n idx (scroll_up st) = demo_ok n idx st"
    "idle_state (scroll_down st) = idle_state st" "demo_ok n idx (scroll_down st) = demo_ok n idx st"
    "idle_state (dashboard_reset t st)" for t n idx st
    by (simp_all add: toggle_pause_def scroll_up_def scroll_down_def dashboard_reset_def Let_def)
       (simp add: idle_state_def new_dashboard_state_def)
  then show ?thesis
    using assms by (auto simp: demo_screen_def handle_key_def)
qed

lemma demo_screen_run:
  assumes "double_rounding dbl" "list_all event_in_range evs" "demo_screen b"
  shows "demo_screen (fold (dash_step dbl js) evs b)"
  using assms(2,3)
proof (induction evs arbitrary: b)
  case (Cons ev evs)
  then show ?case
    using demo_screen_tick [OF assms(1), where js = js] demo_screen_key by (cases ev) auto
qed simp

lemma demo_screen_valid_figures: "demo_screen b \<Longrightarrow> valid_figures (db_state b)"
  unfolding demo_screen_def using demo_ok_valid idle_valid by blast

text \<open>Without key presses the screen is the run of the generator.\<close>

lemma tick_run:
  assumes "db_mock b = Some g" "db_api b = None"
    and "fold (mock_update dbl) (map (\<lambda>(d, _, _). d) ticks) (g, db_state b) = (g', st')"
  shows "db_state (fold (dash_step dbl js) (map (\<lambda>(d, now, res). Tick d now res) ticks) b) = st'"
  using assms
proof (induction ticks arbitrary: b g)
  case (Cons t ticks)
  obtain d now res where t: "t = (d, now, res)" by (cases t)
  obtain g1 st1 where step: "mock_update dbl d (g, db_state b) = (g1, st1)" by fastforce
  let ?b = "update_tick dbl js d now res b"
  have "db_mock ?b = Some g1" "db_api ?b = None" "db_state ?b = st1"
    using Cons.prems step by (simp_all add: update_tick_def)
  then show ?case using Cons.IH [of ?b g1] Cons.prems(3) step by (simp add: t)
qed simp

subsection \<open>Example\<close>

definition example_draws :: demo_draws where
  "example_draws =
     \<lparr>dd_rows = 500, dd_fail = 1, dd_fail_count = 3, dd_jitter = 0, dd_inc = 1, dd_msg = 0, dd_warn_chance = 1,
      dd_warn = 0, dd_now = id\<rparr>"

lemma example_draws_in_range: "draws_in_range example_draws"
  by (simp add: draws_in_range_def example_draws_def)

lemma double_rounding_id: "double_rounding id"
  by (simp add: double_rounding_def mono_def)

definition example_dashboard :: dashboard where
  "example_dashboard = the (dashboard_main 0 [''--demo''])"

lemma example_dashboard_main:
  "dashboard_main 0 [''--demo''] = Some example_dashboard" "da_demo (db_args example_dashboard)"
  by (simp_all add: example_dashboard_def dashboard_main_def parse_dash_args_def default_dash_args_def dash_flag_def
      Let_def)

section \<open>Properties\<close>

text \<open>C31. In demo mode every number on the screen is meaningful, after any sequence of updates and
  key presses, resets included, and whatever the random draws: each table has a status, a
  progress between 0 and 100 and no more migrated than total rows, a finished table is
  complete, the counters of tables agree with the list, and migrated rows, ranges and
  the overall percentage stay within their totals.\<close>

theorem demo_figures_valid:
  assumes "double_rounding dbl" "dashboard_main now argv = Some b" "da_demo (db_args b)"
    and "list_all event_in_range evs"
  shows "valid_figures (db_state (fold (dash_step dbl js) evs b))"
  using demo_screen_valid_figures demo_screen_run [OF assms(1,4) demo_screen_main [OF assms(2,3)]] by blast

theorem demo_figures_valid_witness:
  "valid_figures (db_state (fold (dash_step id example_doc)
     [Tick example_draws id (Inl []), Tick example_draws id (Inl []), Key 7 (Character (CHR ''r'')),
      Tick example_draws id (Inl [])] example_dashboard))"
  by (rule demo_figures_valid [OF double_rounding_id example_dashboard_main])
     (simp add: example_draws_in_range)

text \<open>C32. The demo finishes: 1601 updates without a key press complete all eight tables, whatever
  the random draws and the rounding, and leave the migration stopped with every row migrated.\<close>

theorem demo_completes:
  assumes "double_rounding dbl" "dashboard_main now argv = Some b" "da_demo (db_args b)"
    and "\<forall>(d, now, res) \<in> set ticks. draws_in_range d" "1601 \<le> length ticks"
  shows "let st = db_state (fold (dash_step dbl js) (map (\<lambda>(d, now, res). Tick d now res) ticks) b)
    in \<not> ds_is_running st \<and> ds_migrated_rows st = ds_total_rows st \<and> ds_tables_completed st = 8 \<and>
       list_all (\<lambda>t. ts_status t = ''DONE'' \<and> ts_rows_migrated t = ts_rows_total t) (ds_tables st)"
proof -
  let ?ds = "map (\<lambda>(d, _, _). d) ticks"
  obtain d ds where ds: "?ds = d # ds" using assms(5) by (cases ?ds) auto
  have len: "1600 \<le> length ds" using assms(5) arg_cong [OF ds, of length] by simp
  have range: "\<forall>d \<in> set ds. draws_in_range d"
    using assms(4) arg_cong [OF ds, of set] by (auto simp: image_iff)
  let ?g = "create_mock_generator\<lparr>mg_tick_count := 1, mg_started := True\<rparr>"
  let ?st = "initialize_demo dbl (dd_now d) (db_state b)"
  note main = dashboard_main_demo [OF assms(2,3)]
  have first: "mock_update dbl d (create_mock_generator, db_state b) = (?g, ?st)"
    by (simp add: mock_update_def create_mock_generator_def)
  obtain g' st' where rest: "fold (mock_update dbl) ds (?g, ?st) = (g', st')" by fastforce
  have "demo_ok 0 (mg_current_table ?g) ?st" "\<not> ds_is_paused ?st"
    using initialize_demo_ok [OF main(3)] by (simp_all add: create_mock_generator_def)
  then obtain m where m: "demo_ok m (mg_current_table g') st'" "ds_is_running st' \<longrightarrow> m = length ds"
    using mock_run_progress [OF assms(1) range _ _ _ rest, of 0] by auto
  have stopped: "\<not> ds_is_running st'"
    using demo_running_bound(1) [OF m(1)] m(2) len by auto
  have "db_state (fold (dash_step dbl js) (map (\<lambda>(d, now, res). Tick d now res) ticks) b) = st'"
    by (rule tick_run [OF main(1,2)]) (simp add: ds first rest)
  then show ?thesis
    using m(1) stopped demo_tables_ok_length [of 8 "ds_tables st'"]
    by (auto simp: Let_def demo_ok_def demo_tables_ok_def demo_table_ok_def list_all_length)
qed

theorem demo_completes_witness:
  "\<not> ds_is_running (db_state (fold (dash_step id example_doc)
     (map (\<lambda>(d, now, res). Tick d now res) (replicate 1601 (example_draws, id, Inl []))) example_dashboard))"
proof -
  have "\<forall>(d, now, res) \<in> set (replicate 1601 (example_draws, id :: nat \<Rightarrow> nat, Inl [] :: string + int \<times> string)).
      draws_in_range d"
    by (simp add: example_draws_in_range)
  from demo_completes [OF double_rounding_id example_dashboard_main this, of example_doc] show ?thesis
    by (simp only: Let_def length_replicate) simp
qed

text \<open>What the activity panel shows: as long as nobody presses reset, there is a complete log
  of everything that was ever logged, the state keeps its last 100 entries and the panel
  draws its last 20, newest first, in live and in demo mode. The bound on the stored log
  never shows.\<close>

lemma activity_panel_newest:
  assumes "list_all (\<lambda>ev. \<not> is_reset ev) evs" "length (ds_activity_log (db_state b)) \<le> 100"
  shows "\<exists>new. let complete = ds_activity_log (db_state b) @ new;
                    st = db_state (fold (dash_step dbl js) evs b)
    in ds_activity_log st = last_n 100 complete \<and>
       log_lines lt st = map (render_log_entry lt) (take 20 (rev complete))"
proof -
  have "ds_activity_log (db_state b) = last_n 100 (ds_activity_log (db_state b))"
    using assms(2) by (simp add: last_n_all)
  then obtain new where "ds_activity_log (db_state (fold (dash_step dbl js) evs b)) =
      last_n 100 (ds_activity_log (db_state b) @ new)"
    using extends_run [OF assms(1), of b dbl js] unfolding extends_def by blast
  then show ?thesis
    by (intro exI [of _ new]) (simp add: Let_def log_lines_newest newest_of_window)
qed

end
