(* ===== verification/Replication.thy ===== *)
theory Replication
  imports Fair_Retry Shadow_Spec
begin

text \<open>
  What the dual writer is for: the data of the two clusters. The driver is a parameter of the
  model, and so is what its sessions do to the data (\<open>store_laws\<close>): an execution that is
  acknowledged has applied the statement to the session's cluster; one that is answered with an
  error (\<open>cass_future_error_code\<close> is not \<open>CASS_OK\<close>, which includes a time-out) may have been
  applied, may not have been, or may still be applied during a later call, on either cluster. The
  theory shows how far apart the clusters can be while \<open>DualWriter::write\<close> and
  \<open>retry_failed_writes_loop\<close> (\<open>services/dual-writer/src/writer.cpp\<close>) run, and under which
  condition on the statements.
\<close>

section \<open>Definitions\<close>

text \<open>The clusters as the driver's world shows them: what a statement does to data, the data of
  each cluster, the statements the source came to hold without having acknowledged them, such
  as one that timed out after being applied (\<open>in_doubt\<close>), and the statements the target answered with an error and may still apply
  (\<open>in_flight\<close>).\<close>

record ('w, 'a) clusters =
  effect :: "string \<Rightarrow> 'a \<Rightarrow> 'a"
  on_source :: "'w \<Rightarrow> 'a"
  on_target :: "'w \<Rightarrow> 'a"
  in_doubt :: "'w \<Rightarrow> string list"
  in_flight :: "'w \<Rightarrow> string set"

text \<open>What one execution does. Beside its own statement, if acknowledged, the source may come to
  hold further ones, which are then in doubt, and the target may apply ones that are in flight.\<close>

definition store_laws ::
  "'w driver \<Rightarrow> scylla_connection \<Rightarrow> scylla_connection \<Rightarrow> ('w, 'a) clusters \<Rightarrow> bool" where
  "store_laws d src tgt cl \<longleftrightarrow>
     (\<forall>h q w answer w'. conn_session src = Some h \<longrightarrow> cass_session_execute d h q w = (answer, w') \<longrightarrow>
        (\<exists>ss ts. on_source cl w' =
             fold (effect cl) ((if answer = None then [q] else []) @ ss) (on_source cl w) \<and>
           in_doubt cl w' = in_doubt cl w @ ss \<and>
           on_target cl w' = fold (effect cl) ts (on_target cl w) \<and>
           set ts \<union> in_flight cl w' \<subseteq> in_flight cl w)) \<and>
     (\<forall>h q w answer w'. conn_session tgt = Some h \<longrightarrow> cass_session_execute d h q w = (answer, w') \<longrightarrow>
        (\<exists>ss ts. on_source cl w' = fold (effect cl) ss (on_source cl w) \<and>
           in_doubt cl w' = in_doubt cl w @ ss \<and>
           on_target cl w' =
             fold (effect cl) ((if answer = None then [q] else []) @ ts) (on_target cl w) \<and>
           set ts \<union> in_flight cl w' \<subseteq> insert q (in_flight cl w)))"

text \<open>The clusters hold the same data, and nothing is in doubt or in flight.\<close>

definition in_sync :: "('w, 'a) clusters \<Rightarrow> 'w \<Rightarrow> bool" where
  "in_sync cl w \<longleftrightarrow> on_source cl w = on_target cl w \<and> in_doubt cl w = [] \<and> in_flight cl w = {}"

text \<open>Statements whose order and repetition do not matter, such as writes of whole cells that
  carry their own timestamps.\<close>

definition order_free :: "(string \<Rightarrow> 'a \<Rightarrow> 'a) \<Rightarrow> bool" where
  "order_free app \<longleftrightarrow>
     (\<forall>p q x. app p (app q x) = app q (app p x)) \<and> (\<forall>q x. app q (app q x) = app q x)"

text \<open>The statements still owed to the target, in the order of the queue.\<close>

definition owed_statements :: "'w writer_system \<Rightarrow> string list" where
  "owed_statements y = map (\<lambda>i. fst (the (owed_by_writer y i))) (pending_ids y)"

text \<open>No write was given up: none was abandoned after its last attempt and none refused because
  its random id was in use.\<close>

fun loses :: "queue_event \<Rightarrow> bool" where
  "loses (Collided _) = True"
| "loses (Tried _ out) = (out = Abandoned)"
| "loses _ = False"

definition loss_free :: "'w writer_system \<Rightarrow> bool" where
  "loss_free y \<longleftrightarrow> (\<forall>e \<in> set (sys_events y). \<not> loses e)"

section \<open>Lemmas\<close>

subsection \<open>Applying statements\<close>

lemma order_free_swap: "order_free app \<Longrightarrow> app p (app q x) = app q (app p x)"
  by (simp add: order_free_def)

lemma fold_app_out: "order_free app \<Longrightarrow> fold app qs (app q x) = app q (fold app qs x)"
  by (induction qs arbitrary: x) (simp_all add: order_free_swap [of app _ q])

lemma fold_app_mem:
  assumes "order_free app" "q \<in> set qs"
  shows "fold app qs (app q x) = fold app qs x"
  using assms(2)
proof (induction qs arbitrary: x)
  case (Cons p qs)
  have "app q (app q x) = app q x" using assms(1) by (simp add: order_free_def)
  then show ?case
    using Cons order_free_swap [OF assms(1), of p q x] by (cases "p = q") auto
qed simp

lemma fold_app_mset:
  assumes "order_free app" "mset qs = mset qs'"
  shows "fold app qs = fold app qs'"
proof
  fix x
  show "fold app qs x = fold app qs' x"
    using assms(2) order_free_swap [OF assms(1)]
    by (intro fold_permuted_eq [where P = "\<lambda>_. True"]) blast+
qed

subsection \<open>Executions\<close>

text \<open>The clusters differ by the statements \<open>qs\<close> and those in doubt, and what the target may
  still apply is in the data of the source already.\<close>

definition differ_by :: "('w, 'a) clusters \<Rightarrow> string list \<Rightarrow> 'w \<Rightarrow> bool" where
  "differ_by cl qs w \<longleftrightarrow>
     on_source cl w = fold (effect cl) (qs @ in_doubt cl w) (on_target cl w) \<and>
     (\<forall>q \<in> in_flight cl w. effect cl q (on_source cl w) = on_source cl w)"

lemma fold_absorbed: "\<forall>q \<in> set ts. app q x = x \<Longrightarrow> fold app ts x = x"
  by (induction ts) simp_all

lemma differ_by_mset:
  assumes "order_free (effect cl)" "mset qs = mset qs'" "differ_by cl qs w"
  shows "differ_by cl qs' w"
proof -
  have same: "fold (effect cl) (qs @ in_doubt cl w) = fold (effect cl) (qs' @ in_doubt cl w)"
    using assms(2) by (intro fold_app_mset [OF assms(1)]) simp
  show ?thesis using assms(3) unfolding differ_by_def same .
qed

lemma differ_by_moves:
  assumes free: "order_free (effect cl)" and old: "differ_by cl qs w"
    and source: "on_source cl w' = fold (effect cl) ss (on_source cl w)"
    and target: "on_target cl w' = fold (effect cl) (us @ ts) (on_target cl w)"
    and same: "\<forall>q \<in> set ts \<union> in_flight cl w'. effect cl q (on_source cl w) = on_source cl w"
    and balance: "mset (us @ qs' @ in_doubt cl w') = mset (qs @ in_doubt cl w @ ss)"
  shows "differ_by cl qs' w'"
proof -
  have "fold (effect cl) (qs' @ in_doubt cl w') (on_target cl w') =
      fold (effect cl) ((us @ ts) @ qs' @ in_doubt cl w') (on_target cl w)"
    by (simp add: target)
  also have "fold (effect cl) ((us @ ts) @ qs' @ in_doubt cl w') =
      fold (effect cl) ((qs @ in_doubt cl w) @ ts @ ss)"
    using balance by (intro fold_app_mset [OF free]) (simp add: ac_simps)
  also have "fold (effect cl) ((qs @ in_doubt cl w) @ ts @ ss) (on_target cl w) =
      fold (effect cl) ss (fold (effect cl) ts (on_source cl w))"
    using old by (simp add: differ_by_def)
  also have "fold (effect cl) ts (on_source cl w) = on_source cl w"
    by (rule fold_absorbed) (use same in blast)
  finally show ?thesis
    using same by (simp add: differ_by_def source fold_app_out [OF free, symmetric])
qed

lemma source_execute_data:
  assumes laws: "store_laws d src tgt cl" and free: "order_free (effect cl)"
    and exec: "conn_execute d src q s = (a, s')" and old: "differ_by cl qs (io_world s)"
  shows "differ_by cl (if isl a then qs else q # qs) (io_world s')"
  using exec
proof (cases rule: conn_execute_cases)
  case (2 h answer w')
  then obtain ss ts where data:
    "on_source cl w' = fold (effect cl) ((if answer = None then [q] else []) @ ss) (on_source cl (io_world s))"
    "in_doubt cl w' = in_doubt cl (io_world s) @ ss"
    "on_target cl w' = fold (effect cl) ([] @ ts) (on_target cl (io_world s))"
    "set ts \<union> in_flight cl w' \<subseteq> in_flight cl (io_world s)"
    using laws unfolding store_laws_def by (metis append_Nil)
  show ?thesis
    unfolding 2(4)
    by (rule differ_by_moves [OF free old data(1,3)]) (use old data(2,4) 2(3) in \<open>auto simp: differ_by_def\<close>)
qed (use old in simp)

lemma target_execute_data:
  assumes laws: "store_laws d src tgt cl" and free: "order_free (effect cl)"
    and exec: "conn_execute d tgt q s = (b, s')" and old: "differ_by cl (q # qs) (io_world s)"
  shows "differ_by cl (if isl b then q # qs else qs) (io_world s')"
  using exec
proof (cases rule: conn_execute_cases)
  case (2 h answer w')
  then obtain ss ts where data:
    "on_source cl w' = fold (effect cl) ss (on_source cl (io_world s))"
    "in_doubt cl w' = in_doubt cl (io_world s) @ ss"
    "on_target cl w' = fold (effect cl) ((if answer = None then [q] else []) @ ts) (on_target cl (io_world s))"
    "set ts \<union> in_flight cl w' \<subseteq> insert q (in_flight cl (io_world s))"
    using laws unfolding store_laws_def by metis
  have "effect cl q (on_source cl (io_world s)) = on_source cl (io_world s)"
    using old fold_app_mem [OF free, of q "(q # qs) @ in_doubt cl (io_world s)"]
    by (simp add: differ_by_def fold_app_out [OF free, symmetric])
  then have same: "\<forall>p \<in> set ts \<union> in_flight cl w'. effect cl p (on_source cl (io_world s)) = on_source cl (io_world s)"
    using old data(4) by (auto simp: differ_by_def)
  show ?thesis
    unfolding 2(4) by (rule differ_by_moves [OF free old data(1,3) same]) (use data(2) 2(3) in simp)
qed (use old in simp)

text \<open>What one client write and one retry do to the data.\<close>

lemma write_data:
  assumes laws: "store_laws d (dw_source w) (dw_target w) cl" and free: "order_free (effect cl)"
    and client: "dual_write env d q k w s = (r, w', s')" and "\<not> blacklists w k"
    and old: "differ_by cl qs (io_world s)"
  shows "differ_by cl (if source_ok r \<and> \<not> target_ok r then q # qs else qs) (io_world s')"
proof -
  obtain a s1 where src: "conn_execute d (dw_source w) q s = (a, s1)" by force
  obtain b s2 where tgt: "conn_execute d (dw_target w) q s1 = (b, s2)" by force
  have "source_ok r = (\<not> isl a)" "target_ok r = (\<not> isl a \<and> \<not> isl b)" "s' = (if isl a then s1 else s2)"
    using assms(3,4) src tgt
    by (auto simp: dual_write_def Let_def case_prod_beta filter_gate_decides frame_simps
        write_dual_async_result split: if_splits)
  then show ?thesis
    using source_execute_data [OF laws free src old] target_execute_data [OF laws free tgt, of qs]
    by (auto split: if_splits)
qed

lemma retry_data:
  assumes laws: "store_laws d src (dw_target w) cl" and free: "order_free (effect cl)"
    and retry: "retry_one d fw w s = (out, w', s')" and old: "differ_by cl (fw_cql fw # qs) (io_world s)"
  shows "differ_by cl (if out = Succeeded then qs else fw_cql fw # qs) (io_world s')"
    and "out = NowBlacklisted \<Longrightarrow> blacklists w (fw_keyspace fw)"
proof -
  obtain b s2 where tgt: "conn_execute d (dw_target w) (fw_cql fw) s = (b, s2)" by force
  consider "s' = s" "out \<in> {Abandoned, NowBlacklisted}" "out = NowBlacklisted \<longrightarrow> blacklists w (fw_keyspace fw)"
    | "s' = s2" "out = Succeeded \<longleftrightarrow> \<not> isl b" "out \<noteq> NowBlacklisted"
    using retry tgt
    by (auto simp: retry_one_def Let_def case_prod_beta frame_simps filter_gate_decides
        split: if_splits sum.splits)
  then show "differ_by cl (if out = Succeeded then qs else fw_cql fw # qs) (io_world s')"
    and "out = NowBlacklisted \<Longrightarrow> blacklists w (fw_keyspace fw)"
    using target_execute_data [OF laws free tgt old] old by (cases; auto)+
qed

subsection \<open>The statements owed\<close>

lemma owed_statements_mset:
  assumes "system_inv y"
  shows "mset (owed_statements y) =
    image_mset (\<lambda>i. fst (the (owed_by_writer y i))) (mset_set (dom (owed_by_writer y)))"
proof -
  have "distinct (pending_ids y)" using assms by (simp add: pending_ids_def system_inv_def)
  then have "mset (pending_ids y) = mset_set (dom (owed_by_writer y))"
    unfolding dom_owed by (simp add: mset_set_set)
  then show ?thesis by (simp add: owed_statements_def)
qed

lemma owed_dropped:
  assumes "system_inv y" "system_inv y'" "owed_by_writer y i = Some (q, k)"
    "owed_by_writer y' = (owed_by_writer y)(i := None)"
  shows "mset (owed_statements y) = add_mset q (mset (owed_statements y'))"
proof -
  let ?D = "dom (owed_by_writer y)"
  have fin: "finite ?D" "i \<in> ?D" using assms(3) dom_owed [of y] by auto
  have D: "mset_set ?D = add_mset i (mset_set (?D - {i}))" using fin by (simp add: mset_set.remove)
  have "image_mset (\<lambda>j. fst (the (owed_by_writer y' j))) (mset_set (?D - {i})) =
      image_mset (\<lambda>j. fst (the (owed_by_writer y j))) (mset_set (?D - {i}))"
    using fin by (intro image_mset_cong) (simp add: assms(4))
  moreover have "dom (owed_by_writer y') = ?D - {i}" by (simp add: assms(4))
  ultimately show ?thesis
    by (simp add: owed_statements_mset [OF assms(1)] owed_statements_mset [OF assms(2)] D assms(3))
qed

lemma owed_added:
  assumes "system_inv y" "system_inv y'" "owed_by_writer y i = None"
    "owed_by_writer y' = (owed_by_writer y)(i \<mapsto> (q, k))"
  shows "mset (owed_statements y') = add_mset q (mset (owed_statements y))"
  using assms by (intro owed_dropped [where i = i and k = k]) (auto simp: fun_eq_iff)

lemma owed_member:
  assumes "owed_by_writer y i = Some (q, k)"
  shows "q \<in> set (owed_statements y)"
proof -
  have "i \<in> set (pending_ids y)" using assms dom_owed [of y] by blast
  then show ?thesis using assms by (force simp: owed_statements_def)
qed

lemma owed_same:
  assumes "system_inv y" "system_inv y'" "owed_by_writer y' = owed_by_writer y"
  shows "mset (owed_statements y') = mset (owed_statements y)"
  by (simp add: owed_statements_mset [OF assms(1)] owed_statements_mset [OF assms(2)] assms(3))

subsection \<open>The two clusters\<close>

text \<open>Up to the statements owed and further statements \<open>extra\<close>.\<close>

definition replicated :: "('w, 'a) clusters \<Rightarrow> string list \<Rightarrow> 'w writer_system \<Rightarrow> bool" where
  "replicated cl extra y \<longleftrightarrow>
     (loss_free y \<longrightarrow> differ_by cl (owed_statements y @ extra) (io_world (sys_io y)))"

lemma write_replicates:
  assumes laws: "store_laws d src tgt cl" and free: "order_free (effect cl)"
    and step: "dual_write env d q k (sys_writer y) (sys_io y) = (r, w', s')" and inv: "refine_inv src tgt y"
    and y': "y' = y\<lparr>sys_writer := w', sys_io := s',
       sys_events := sys_events y @ write_events env k r (sys_writer y)\<rparr>"
    and pass: "\<not> blacklists (sys_writer y) k" and rep: "replicated cl extra y"
  shows "replicated cl extra y'"
proof -
  let ?w = "sys_writer y" and ?i = "generate_id (env_hi env) (env_lo env)"
  have conns: "dw_source ?w = src" "dw_target ?w = tgt" using inv by (simp_all add: refine_inv_def)
  have sys: "system_inv y" "system_inv y'"
    using inv write_queues(1) [OF step inv y' refl] by (simp_all add: refine_inv_def)
  note owed = write_queues(2) [OF step inv y' refl]
  have "differ_by cl (owed_statements y' @ extra) (io_world s')" if loss: "loss_free y'"
  proof (rule differ_by_mset [OF free])
    have "differ_by cl (owed_statements y @ extra) (io_world (sys_io y))"
      using loss rep by (auto simp: replicated_def loss_free_def y')
    from write_data [OF laws [folded conns] free step pass this]
    show "differ_by cl (if source_ok r \<and> \<not> target_ok r then q # owed_statements y @ extra
        else owed_statements y @ extra) (io_world s')" .
    show "mset (if source_ok r \<and> \<not> target_ok r then q # owed_statements y @ extra
        else owed_statements y @ extra) = mset (owed_statements y' @ extra)"
    proof (cases "source_ok r \<and> \<not> target_ok r")
      case True
      have fresh: "?i \<notin> set (umap_keys (dw_failed ?w))"
        using loss True pass by (auto simp: loss_free_def y' write_events_def Let_def)
      then have "owed_by_writer y ?i = None"
        by (simp add: owed_by_writer_def umap_keys_def map_of_eq_None_iff)
      then show ?thesis using owed_added [OF sys] owed True pass fresh by simp
    qed (use owed owed_same [OF sys] in auto)
  qed
  then show ?thesis by (simp add: replicated_def y')
qed

lemma retry_replicates:
  assumes laws: "store_laws d src tgt cl" and free: "order_free (effect cl)"
    and phase: "sys_phase y = Working ((i, fw) # rest) muts"
    and step: "retry_one d fw (sys_writer y) (sys_io y) = (out, w', s')" and inv: "refine_inv src tgt y"
    and y': "y' = y\<lparr>sys_writer := w', sys_io := s', sys_phase := Working rest (note_outcome i out muts),
       sys_events := sys_events y @ [Tried i out]\<rparr>"
    and pass: "\<not> blacklists (sys_writer y) (fw_keyspace fw)" and rep: "replicated cl extra y"
  shows "replicated cl extra y'"
proof -
  have sys: "system_inv y" "system_inv y'" and tgt: "dw_target (sys_writer y) = tgt"
    using inv retry_keeps [OF phase step inv y'] by (simp_all add: refine_inv_def)
  note owed = retry_owed [OF phase step inv y', unfolded fw_statement_def]
  obtain rest_owed where parts: "mset (owed_statements y) = add_mset (fw_cql fw) (mset rest_owed)"
    using that [of "remove1 (fw_cql fw) (owed_statements y)"] owed_member [OF owed(1)] by simp
  have "differ_by cl (owed_statements y' @ extra) (io_world s')" if loss: "loss_free y'"
  proof (rule differ_by_mset [OF free])
    have "differ_by cl (owed_statements y @ extra) (io_world (sys_io y))"
      using loss rep by (auto simp: replicated_def loss_free_def y')
    then have old: "differ_by cl (fw_cql fw # rest_owed @ extra) (io_world (sys_io y))"
      by (rule differ_by_mset [OF free, rotated]) (simp add: parts)
    note data = retry_data [OF laws [folded tgt] free step old]
    show "differ_by cl (if out = Succeeded then rest_owed @ extra else fw_cql fw # rest_owed @ extra) (io_world s')"
      by (rule data(1))
    show "mset (if out = Succeeded then rest_owed @ extra else fw_cql fw # rest_owed @ extra) =
        mset (owed_statements y' @ extra)"
    proof (cases "settled out")
      case True
      then have "out = Succeeded"
        using loss data(2) pass by (cases out) (auto simp: loss_free_def y')
      then show ?thesis using owed_dropped [OF sys owed(1)] owed(2) True parts by simp
    next
      case False
      then have "out \<noteq> Succeeded" by auto
      then show ?thesis using False owed_same [OF sys] owed(2) parts by simp
    qed
  qed
  then show ?thesis by (simp add: replicated_def y')
qed

text \<open>No table is excluded from the synchronisation, and the clusters differ by what is owed.\<close>

definition replication_inv ::
  "scylla_connection \<Rightarrow> scylla_connection \<Rightarrow> ('w, 'a) clusters \<Rightarrow> 'w writer_system \<Rightarrow> bool" where
  "replication_inv src tgt cl y \<longleftrightarrow>
     refine_inv src tgt y \<and> (\<forall>t. \<not> blacklists (sys_writer y) t) \<and> replicated cl [] y"

lemma replicated_cong:
  assumes "replicated cl extra y" "order_free (effect cl)" "system_inv y" "system_inv y'"
    and "shadow_of y' = shadow_of y" "sys_io y' = sys_io y"
  shows "replicated cl extra y'"
proof -
  have "mset (owed_statements y @ extra) = mset (owed_statements y' @ extra)"
    using assms(5) owed_same [OF assms(3,4)] by (simp add: shadow_of_def)
  from differ_by_mset [OF assms(2) this] show ?thesis
    using assms(1,5,6) by (simp add: replicated_def loss_free_def shadow_of_def)
qed

lemma step_replicates:
  assumes laws: "store_laws d src tgt cl" and free: "order_free (effect cl)"
    and "writer_step d y y'" "refine_inv src tgt y" "\<forall>t. \<not> blacklists (sys_writer y) t"
    and "replicated cl extra y"
  shows "refine_inv src tgt y' \<and> (\<forall>t. \<not> blacklists (sys_writer y') t) \<and> replicated cl extra y'"
proof -
  note inv = assms(4-6)
  have ref: "refine_inv src tgt y'" using writer_step_refines [OF assms(3)] inv by blast
  have sys: "system_inv y" "system_inv y'" using ref inv by (simp_all add: refine_inv_def)
  note same = replicated_cong [OF inv(3) free sys]
  have "(\<forall>t. \<not> blacklists (sys_writer y') t) \<and> replicated cl extra y'"
    using assms(3)
  proof (cases rule: writer_step.cases)
    case (client_write env q k r w' s')
    then show ?thesis
      using write_replicates [OF laws free client_write(2) _ client_write(1)] inv
        dual_write_frame(4) [of env d q k "sys_writer y" "sys_io y"] by simp
  next
    case (retry_entry i fw rest muts out w' s')
    then show ?thesis
      using retry_replicates [OF laws free retry_entry(2,3) _ retry_entry(1)] inv retry_one_frameD(4) [OF retry_entry(3)]
      by simp
  next
    case (apply_mutations muts)
    then show ?thesis
      using same apply_keeps [OF apply_mutations(2), of src tgt] inv by (simp add: blacklists_def)
  next
    case (sleep_slice e)
    then show ?thesis using same phase_keeps [OF _ sleep_slice(2,1)] inv by auto
  next
    case (take_snapshot e)
    then show ?thesis using same phase_keeps [OF _ take_snapshot(2,1)] inv by auto
  next
    case request_stop
    then show ?thesis using same stop_keeps [of src tgt y True] inv by auto
  next
    case (leave_loop e)
    then show ?thesis using same phase_keeps [OF _ leave_loop(2,1)] inv by auto
  qed
  with ref show ?thesis by simp
qed

lemma replication_step:
  assumes "store_laws d src tgt cl" "order_free (effect cl)"
    and "writer_step d y y'" "replication_inv src tgt cl y"
  shows "replication_inv src tgt cl y'"
  using step_replicates [OF assms(1-3)] assms(4) unfolding replication_inv_def by blast

lemma replication_start:
  assumes "\<forall>t. \<not> blacklists w t" "dw_failed w = []" "in_sync cl (io_world s)"
  shows "replication_inv (dw_source w) (dw_target w) cl (system_start w s)"
  using refine_inv_start [OF assms(2), of s] assms
  by (simp add: replication_inv_def replicated_def differ_by_def in_sync_def system_start_def owed_statements_def pending_ids_def)

lemma replication_reachable:
  assumes "store_laws d src tgt cl" "order_free (effect cl)"
    and "\<forall>t. \<not> blacklists (dual_writer_new cfg src tgt flt mtr) t" "in_sync cl (io_world s)"
    and "(writer_step d)\<^sup>*\<^sup>* (system_start (dual_writer_new cfg src tgt flt mtr) s) y"
  shows "replication_inv src tgt cl y"
  using assms(5)
proof (induction rule: rtranclp_induct)
  case base
  show ?case
    using replication_start [of "dual_writer_new cfg src tgt flt mtr" cl s] assms(3,4)
    by (simp add: dual_writer_new_def)
qed (rule replication_step [OF assms(1,2)])

section \<open>Examples\<close>

text \<open>A client write as a function on the system.\<close>

definition client_next ::
  "call_env \<Rightarrow> 'w driver \<Rightarrow> string \<Rightarrow> string \<Rightarrow> 'w writer_system \<Rightarrow> 'w writer_system" where
  "client_next env d q k y =
     (let (r, w', s') = dual_write env d q k (sys_writer y) (sys_io y)
      in y\<lparr>sys_writer := w', sys_io := s',
           sys_events := sys_events y @ write_events env k r (sys_writer y)\<rparr>)"

lemma client_next_steps: "writer_step d y (client_next env d q k y)"
proof -
  obtain r w' s' where "dual_write env d q k (sys_writer y) (sys_io y) = (r, w', s')" by (metis prod_cases3)
  then show ?thesis using client_write [of env d q k y r w' s'] by (simp add: client_next_def)
qed

text \<open>Two clusters with data on the sessions 1 and 2. The first one answers a slow statement with a
  time-out although it applies it, the second one fails the first statement it gets.\<close>

type_synonym 'a two_clusters = "'a \<times> 'a \<times> bool \<times> string list"

definition slow_statement :: string where
  "slow_statement = ''UPDATE ks.t SET b = 1''"

definition flaky_store :: "(string \<Rightarrow> 'a \<Rightarrow> 'a) \<Rightarrow> 'a two_clusters driver" where
  "flaky_store app =
     \<lparr>cass_cluster_new = (\<lambda>w. (Some 0, w)), cass_session_new = (\<lambda>w. (Some 0, w)),
      cass_session_connect = (\<lambda>se cl ks w. (None, w)),
      cass_session_execute = (\<lambda>se q (s, t, tried, doubt).
        if se = 1
        then (if q = slow_statement then (Some ''timed out'', app q s, t, tried, doubt @ [q])
              else (None, app q s, t, tried, doubt))
        else if tried then (None, s, app q t, True, doubt)
        else (Some ''down'', s, t, True, doubt)),
      cass_session_close = (\<lambda>se w. w)\<rparr>"

definition source_data :: "'a two_clusters \<Rightarrow> 'a" where
  "source_data w = fst w"

definition target_data :: "'a two_clusters \<Rightarrow> 'a" where
  "target_data w = fst (snd w)"

definition doubtful :: "'a two_clusters \<Rightarrow> string list" where
  "doubtful w = snd (snd (snd w))"

definition flaky_clusters :: "(string \<Rightarrow> 'a \<Rightarrow> 'a) \<Rightarrow> ('a two_clusters, 'a) clusters" where
  "flaky_clusters app =
     \<lparr>effect = app, on_source = source_data, on_target = target_data, in_doubt = doubtful,
      in_flight = (\<lambda>_. {})\<rparr>"

lemma flaky_clusters_simps [simp]:
  "effect (flaky_clusters app) = app" "on_source (flaky_clusters app) = source_data"
  "on_target (flaky_clusters app) = target_data" "in_doubt (flaky_clusters app) = doubtful"
  "in_flight (flaky_clusters app) w = {}"
  by (simp_all add: flaky_clusters_def)

lemmas flaky_store_simps =
  flaky_store_def example_connection_def source_data_def target_data_def doubtful_def

lemma flaky_store_laws:
  "store_laws (flaky_store app) (example_connection 1) (example_connection 2) (flaky_clusters app)"
  unfolding store_laws_def flaky_clusters_simps
proof (intro conjI allI impI)
  fix h q w answer w'
  assume "conn_session (example_connection 1) = Some h" "cass_session_execute (flaky_store app) h q w = (answer, w')"
  then show "\<exists>ss ts. source_data w' = fold app ((if answer = None then [q] else []) @ ss) (source_data w) \<and>
      doubtful w' = doubtful w @ ss \<and> target_data w' = fold app ts (target_data w) \<and> set ts \<union> {} \<subseteq> {}"
    by (intro exI [of _ "if q = slow_statement then [q] else []"] exI [of _ "[]"])
      (auto simp: flaky_store_simps split: prod.splits if_splits)
next
  fix h q w answer w'
  assume "conn_session (example_connection 2) = Some h" "cass_session_execute (flaky_store app) h q w = (answer, w')"
  then show "\<exists>ss ts. source_data w' = fold app ss (source_data w) \<and> doubtful w' = doubtful w @ ss \<and>
      target_data w' = fold app ((if answer = None then [q] else []) @ ts) (target_data w) \<and>
      set ts \<union> {} \<subseteq> insert q {}"
    by (intro exI [of _ "[]"]) (auto simp: flaky_store_simps split: prod.splits if_splits)
qed

definition store_start :: "'a \<Rightarrow> 'a two_clusters io" where
  "store_start x = \<lparr>io_world = (x, x, False, []), io_calls = []\<rparr>"

definition eager_config :: dual_writer_config where
  "eager_config = example_writer_config\<lparr>dwc_writer := default_writer_config\<lparr>retry_delay_ms := 0\<rparr>\<rparr>"

text \<open>A writer on these clusters after one write, whose shadow write fails.\<close>

definition store_queued :: "(string \<Rightarrow> 'a \<Rightarrow> 'a) \<Rightarrow> 'a \<Rightarrow> 'a two_clusters writer_system" where
  "store_queued app x =
     client_next example_env (flaky_store app) ''UPDATE ks.t SET a = 1'' ''ks.t''
       (system_start (dual_writer_new eager_config (example_connection 1) (example_connection 2) None None)
         (store_start x))"

lemmas store_simps =
  store_queued_def client_next_def flaky_store_def system_start_def store_start_def dual_write_def Let_def
  filter_gate_def write_dual_async_def conn_execute_def enqueue_failed frame_simps example_connection_def
  dual_writer_new_def did_call_def new_write_result_def write_events_def blacklists_def slow_statement_def

lemma store_queued_simps:
  "io_world (sys_io (store_queued app x)) = (app ''UPDATE ks.t SET a = 1'' x, x, True, [])"
  "dw_filter (sys_writer (store_queued app x)) = None"
  "dw_target (sys_writer (store_queued app x)) = example_connection 2"
  "dw_source (sys_writer (store_queued app x)) = example_connection 1"
  "dw_config (sys_writer (store_queued app x)) = eager_config"
  "sys_phase (store_queued app x) = Sleeping 0"
  "sys_stop (store_queued app x) = False"
  by (simp_all add: store_simps)

lemma store_queued_failed:
  "dw_failed (sys_writer (store_queued app x)) =
     [(generate_id 1 2, queued_write example_env ''UPDATE ks.t SET a = 1'' ''ks.t''
        (what (DatabaseError ''Query execution failed: down'')))]"
  "sys_events (store_queued app x) = [ShadowFailed (generate_id 1 2)]"
  by (simp_all add: store_simps example_env_def)

lemma store_queued_reachable:
  "(writer_step (flaky_store app))\<^sup>*\<^sup>* (system_start (dual_writer_new eager_config
     (example_connection 1) (example_connection 2) None None) (store_start x)) (store_queued app x)"
  unfolding store_queued_def by (rule r_into_rtranclp) (rule client_next_steps)

text \<open>From here on the target answers, so that every retry succeeds at the first attempt.\<close>

definition calm :: "'a two_clusters writer_system \<Rightarrow> bool" where
  "calm y \<longleftrightarrow>
     fst (snd (snd (io_world (sys_io y)))) \<and> dw_filter (sys_writer y) = None \<and>
     dw_target (sys_writer y) = example_connection 2 \<and> dw_config (sys_writer y) = eager_config \<and>
     (\<forall>fw \<in> snd ` (set (dw_failed (sys_writer y)) \<union> set (phase_todo (sys_phase y))). fw_attempts fw = 1) \<and>
     snd (phase_mutations (sys_phase y)) = [] \<and> loss_free y"

lemma calm_retry:
  assumes "fst (snd (snd (io_world s)))" "dw_filter w = None" "dw_target w = example_connection 2"
    "dw_config w = eager_config" "fw_attempts fw = 1"
  shows "retry_one (flaky_store app) fw w s =
    (Succeeded, count_retried w,
     s\<lparr>io_world := (source_data (io_world s), app (fw_cql fw) (target_data (io_world s)), True, doubtful (io_world s)),
       io_calls := io_calls s @ [SessionExecute 2 (fw_cql fw)]\<rparr>)"
  using assms
  by (simp add: retry_one_def filter_gate_def conn_execute_def flaky_store_def example_connection_def Let_def
      did_call_def case_prod_beta source_data_def target_data_def doubtful_def eager_config_def default_writer_config_def
      word_le_nat_alt)

lemma calm_next:
  assumes "calm y"
  shows "calm (thread_next (flaky_store app) y)"
proof (cases "sys_phase y")
  case (Working todo muts)
  show ?thesis
  proof (cases todo)
    case Nil
    then show ?thesis
      using assms Working set_retry_apply [of muts "dw_failed (sys_writer y)"]
      by (auto simp: calm_def thread_next_simps loss_free_def)
  next
    case (Cons a rest)
    obtain i fw where a: "a = (i, fw)" by (cases a)
    show ?thesis
      using assms Working Cons a
      by (auto simp: calm_def thread_next_simps(4) [OF _ calm_retry] note_outcome_cases loss_free_def frame_simps
          count_retried_def)
  qed
qed (use assms in \<open>auto simp: calm_def thread_next_def loss_free_def\<close>)

lemma calm_next_doubts:
  assumes "calm y"
  shows "doubtful (io_world (sys_io (thread_next (flaky_store app) y))) = doubtful (io_world (sys_io y))"
proof (cases "sys_phase y")
  case (Working todo muts)
  show ?thesis
  proof (cases todo)
    case (Cons a rest)
    obtain i fw where a: "a = (i, fw)" by (cases a)
    show ?thesis
      using assms Working Cons a
      by (auto simp: calm_def thread_next_simps(4) [OF _ calm_retry] doubtful_def)
  qed (use Working in \<open>simp add: thread_next_simps\<close>)
qed (simp_all add: thread_next_def)

lemma calm_run: "calm y \<Longrightarrow> calm (thread_run (flaky_store app) y n)"
  by (induction n) (simp_all add: thread_run_def calm_next)

lemma store_queued_calm: "calm (store_queued app x)"
  by (simp add: calm_def store_queued_simps store_queued_failed queued_write_def loss_free_def)

lemma calm_loss_free: "calm y \<Longrightarrow> loss_free y"
  by (simp add: calm_def)

lemma thread_run_failed_ids:
  "shadow_failed_ids (sys_events (thread_run d y n)) = shadow_failed_ids (sys_events y)"
  by (induction n) (simp_all add: thread_run_def)

subsection \<open>Statements whose order matters\<close>

text \<open>A retry sends the old statement as a new one. Without timestamps of its own it overwrites a
  newer write: the first write of a cell fails on the target, a second one reaches both clusters,
  and the retry of the first leaves the target with the old value for good, while nothing is
  pending, no write was given up and both writes count as successful.\<close>

definition overwritten :: "string two_clusters writer_system" where
  "overwritten =
     thread_run (flaky_store (\<lambda>q _. q))
       (client_next example_env (flaky_store (\<lambda>q _. q)) ''UPDATE ks.t SET a = 2'' ''ks.t''
         (store_queued (\<lambda>q _. q) [])) 3"

lemma store_second_write:
  assumes "q \<noteq> slow_statement"
  shows "let y = client_next example_env (flaky_store app) q ''ks.t'' (store_queued app x)
   in io_world (sys_io y) = (app q (app ''UPDATE ks.t SET a = 1'' x), app q x, True, []) \<and>
      calm y \<and> dw_failed (sys_writer y) = dw_failed (sys_writer (store_queued app x)) \<and>
      sys_phase y = Sleeping 0 \<and> sys_stop y = False"
  using store_queued_calm [of app x] assms
  by (simp add: client_next_def calm_def dual_write_def write_dual_async_def filter_gate_def conn_execute_def
      flaky_store_def example_connection_def did_call_def write_events_def new_write_result_def
      store_queued_simps store_queued_failed frame_simps loss_free_def Let_def)

lemma one_retry_round:
  assumes "calm y" "sys_phase y = Sleeping 0" "\<not> sys_stop y" "dw_failed (sys_writer y) = [(i, fw)]"
  shows "let y' = thread_run (flaky_store app) y 3
    in pending_ids y' = [] \<and> io_world (sys_io y') =
      (source_data (io_world (sys_io y)), app (fw_cql fw) (target_data (io_world (sys_io y))), True, doubtful (io_world (sys_io y)))"
proof -
  let ?d = "flaky_store app"
  have cfg: "retry_delay_ms (dwc_writer (dw_config (sys_writer y))) = 0" "fw_attempts fw = 1"
    using assms(1,4) by (simp_all add: calm_def eager_config_def)
  let ?y1 = "y\<lparr>sys_phase := Working [(i, fw)] ([], [])\<rparr>"
  have one: "thread_next ?d y = ?y1" using assms cfg by (simp add: thread_next_def)
  have "retry_one ?d fw (sys_writer ?y1) (sys_io ?y1) = (Succeeded, count_retried (sys_writer y),
     (sys_io y)\<lparr>io_world := (source_data (io_world (sys_io y)), app (fw_cql fw) (target_data (io_world (sys_io y))), True,
         doubtful (io_world (sys_io y))),
       io_calls := io_calls (sys_io y) @ [SessionExecute 2 (fw_cql fw)]\<rparr>)"
    using assms(1) cfg(2) by (simp add: calm_retry calm_def)
  from thread_next_simps(4) [OF _ this, of i "[]" "([], [])"] show ?thesis
    using one assms(4)
    by (simp add: thread_run_def numeral_3_eq_3 thread_next_simps(3) pending_ids_def retry_apply_def umap_keys_erase
        frame_simps)
qed

lemma retry_overwrites_newer:
  "(writer_step (flaky_store (\<lambda>q _. q)))\<^sup>*\<^sup>* (system_start (dual_writer_new eager_config
     (example_connection 1) (example_connection 2) None None) (store_start [])) overwritten"
  "pending_ids overwritten = [] \<and> loss_free overwritten"
  "io_world (sys_io overwritten) = (''UPDATE ks.t SET a = 2'', ''UPDATE ks.t SET a = 1'', True, [])"
proof -
  let ?d = "flaky_store (\<lambda>q (_ :: string). q)"
  let ?y = "client_next example_env ?d ''UPDATE ks.t SET a = 2'' ''ks.t'' (store_queued (\<lambda>q _. q) [])"
  note second = store_second_write [of "''UPDATE ks.t SET a = 2''" "\<lambda>q _. q" "[]",
    unfolded Let_def slow_statement_def, simplified]
  have run: "sys_phase (thread_run ?d ?y n) \<noteq> Stopped" for n
    using thread_run_running [of ?y] second by simp
  have "(writer_step ?d)\<^sup>*\<^sup>* ?y (thread_run ?d ?y n)" for n
    by (induction n) (use run in \<open>auto simp: thread_run_def intro: rtranclp.rtrancl_into_rtrancl thread_next_steps\<close>)
  then show "(writer_step ?d)\<^sup>*\<^sup>* (system_start (dual_writer_new eager_config
     (example_connection 1) (example_connection 2) None None) (store_start [])) overwritten"
    unfolding overwritten_def
    by (meson client_next_steps rtranclp.rtrancl_into_rtrancl rtranclp_trans store_queued_reachable)
  have calm: "calm ?y" "sys_phase ?y = Sleeping 0" "\<not> sys_stop ?y" using second by simp_all
  have failed: "dw_failed (sys_writer ?y) = dw_failed (sys_writer (store_queued (\<lambda>q _. q) []))"
    using second by simp
  note round = one_retry_round [OF calm failed [unfolded store_queued_failed], unfolded Let_def,
    of "\<lambda>q _. q", folded overwritten_def]
  show "pending_ids overwritten = [] \<and> loss_free overwritten"
    using round calm_loss_free [OF calm_run [OF calm(1)]] by (simp add: overwritten_def)
  show "io_world (sys_io overwritten) = (''UPDATE ks.t SET a = 2'', ''UPDATE ks.t SET a = 1'', True, [])"
    using round second by (simp add: queued_write_def source_data_def target_data_def doubtful_def)
qed

subsection \<open>A statement in doubt\<close>

text \<open>A client sends the slow statement: the source applies it and reports a time-out, so that the
  write counts as failed and the target never gets it.\<close>

definition store_doubted :: "(string \<Rightarrow> 'a \<Rightarrow> 'a) \<Rightarrow> 'a \<Rightarrow> 'a two_clusters writer_system" where
  "store_doubted app x = client_next example_env (flaky_store app) slow_statement ''ks.t'' (store_queued app x)"

lemma store_doubted_simps:
  "io_world (sys_io (store_doubted app x)) =
     (app slow_statement (app ''UPDATE ks.t SET a = 1'' x), x, True, [slow_statement])"
  "sys_phase (store_doubted app x) = Sleeping 0"
  "sys_stop (store_doubted app x) = False"
  "calm (store_doubted app x)"
  using store_queued_calm [of app x]
  by (simp_all add: store_doubted_def client_next_def calm_def dual_write_def write_dual_async_def filter_gate_def
      conn_execute_def flaky_store_def example_connection_def did_call_def write_events_def new_write_result_def
      store_queued_simps store_queued_failed frame_simps loss_free_def Let_def)

lemma store_doubted_reachable:
  "(writer_step (flaky_store app))\<^sup>*\<^sup>* (system_start (dual_writer_new eager_config
     (example_connection 1) (example_connection 2) None None) (store_start x)) (store_doubted app x)"
  unfolding store_doubted_def
  by (rule rtranclp.rtrancl_into_rtrancl [OF store_queued_reachable client_next_steps])

lemma calm_doubts: "calm y \<Longrightarrow> doubtful (io_world (sys_io (thread_run (flaky_store app) y n))) = doubtful (io_world (sys_io y))"
proof (induction n)
  case (Suc n)
  let ?y = "thread_run (flaky_store app) y n"
  have "doubtful (io_world (sys_io (thread_next (flaky_store app) ?y))) = doubtful (io_world (sys_io ?y))"
    using calm_next_doubts [OF calm_run [OF Suc.prems]] .
  then show ?case using Suc by (simp add: thread_run_def)
qed (simp add: thread_run_def)

section \<open>Properties\<close>

text \<open>The clusters differ by the statements owed and those in doubt, and nothing else: from equal
  data, if the order and the repetition of statements do not matter, no table is excluded and
  no write was given up, then in every state that client writes and retries reach, in any
  interleaving, the data of the source is the data of the target after these statements.\<close>

lemma clusters_differ_by_owed:
  assumes "store_laws d src tgt cl" "order_free (effect cl)"
    and "\<forall>t. \<not> blacklists (dual_writer_new cfg src tgt flt mtr) t" "in_sync cl (io_world s)"
    and "(writer_step d)\<^sup>*\<^sup>* (system_start (dual_writer_new cfg src tgt flt mtr) s) y" "loss_free y"
  shows "on_source cl (io_world (sys_io y)) =
    fold (effect cl) (owed_statements y @ in_doubt cl (io_world (sys_io y))) (on_target cl (io_world (sys_io y)))"
  using replication_reachable [OF assms(1-5)] assms(6)
  by (simp add: replication_inv_def replicated_def differ_by_def del: fold_append)

lemma store_example:
  "order_free (effect (flaky_clusters (insert :: string \<Rightarrow> string set \<Rightarrow> string set)))"
  "\<forall>t. \<not> blacklists (dual_writer_new eager_config (example_connection 1) (example_connection 2) None None) t"
  "in_sync (flaky_clusters app) (io_world (store_start x))"
  by (auto simp: order_free_def dual_writer_new_def blacklists_def store_start_def source_data_def
      target_data_def in_sync_def doubtful_def)

text \<open>C5. Eventual consistency: suppose the clusters start with equal data and nothing in doubt or in
  flight, the order and the repetition of statements do not matter, no table is excluded, no
  write is given up (abandoned after its last attempt or refused because its id was in use),
  and the retry delay is below its 64-bit bound. Then in a run that is fair to the retry
  thread and sees no stop request, once no further shadow write fails, the clusters come to
  differ by the statements in doubt only (those the source holds without having acknowledged
  them, such as one that timed out after being applied), and by nothing if there are none, and
  stay so while clients go on writing. A failed statement may have been applied, or be applied later, on
  either cluster.\<close>

theorem eventually_consistent:
  assumes "store_laws d src tgt cl" "order_free (effect cl)"
    and "\<forall>t. \<not> blacklists (dual_writer_new cfg src tgt flt mtr) t" "in_sync cl (io_world s)"
    and "(writer_step d)\<^sup>*\<^sup>* (system_start (dual_writer_new cfg src tgt flt mtr) s) (run 0)"
    and "\<forall>n. writer_step d (run n) (run (Suc n))"
    and "fair_run d run" "\<forall>n. \<not> sys_stop (run n)" "\<forall>n. loss_free (run n)"
    and "unat (retry_delay_ms (dwc_writer cfg)) + 100 \<le> 2 ^ 64"
    and "\<forall>n\<ge>N. shadow_failed_ids (sys_events (run n)) = shadow_failed_ids (sys_events (run N))"
  shows "\<exists>m. \<forall>n\<ge>m. let w = io_world (sys_io (run n)) in
    on_source cl w = fold (effect cl) (in_doubt cl w) (on_target cl w) \<and>
    (in_doubt cl w = [] \<longrightarrow> on_source cl w = on_target cl w)"
proof -
  have "replication_inv src tgt cl (run n)" for n
    by (induction n) (use replication_reachable [OF assms(1-5)] replication_step [OF assms(1,2)] assms(6) in blast)+
  then have same: "let w = io_world (sys_io (run n)) in
      on_source cl w = fold (effect cl) (in_doubt cl w) (on_target cl w) \<and>
      (in_doubt cl w = [] \<longrightarrow> on_source cl w = on_target cl w)"
    if "pending_ids (run n) = []" for n
    using that assms(9) by (simp add: replication_inv_def replicated_def differ_by_def owed_statements_def Let_def)
  have "run_inv (dwc_writer cfg) (run 0)"
    using run_inv_reachable [OF assms(5)] by (simp add: dual_writer_new_def)
  from fair_drains [OF assms(7) this assms(8,10,11) order_refl] show ?thesis using same by blast
qed

theorem eventually_consistent_witness:
  "let run = thread_run (flaky_store insert) (store_queued insert ({} :: string set));
     doubted = thread_run (flaky_store insert) (store_doubted insert {})
   in source_data (io_world (sys_io (run 0))) \<noteq> target_data (io_world (sys_io (run 0))) \<and>
      (\<exists>m. \<forall>n\<ge>m. source_data (io_world (sys_io (run n))) = target_data (io_world (sys_io (run n)))) \<and>
      (\<exists>m. \<forall>n\<ge>m. source_data (io_world (sys_io (doubted n))) =
         insert slow_statement (target_data (io_world (sys_io (doubted n)))))"
proof -
  let ?d = "flaky_store (insert :: string \<Rightarrow> string set \<Rightarrow> string set)"
  let ?cl = "flaky_clusters (insert :: string \<Rightarrow> string set \<Rightarrow> string set)"
  have delay: "unat (retry_delay_ms (dwc_writer eager_config)) + 100 \<le> 2 ^ 64" by (simp add: eager_config_def)
  have settles: "\<exists>m. \<forall>n\<ge>m. source_data (io_world (sys_io (thread_run ?d y n))) =
      fold insert (doubtful (io_world (sys_io y))) (target_data (io_world (sys_io (thread_run ?d y n))))"
    if reach: "(writer_step ?d)\<^sup>*\<^sup>* (system_start (dual_writer_new eager_config
        (example_connection 1) (example_connection 2) None None) (store_start {})) y"
      and "calm y" and ready: "\<not> sys_stop y" "sys_phase y \<noteq> Stopped" for y
  proof -
    have start: "(writer_step ?d)\<^sup>*\<^sup>* (system_start (dual_writer_new eager_config
        (example_connection 1) (example_connection 2) None None) (store_start {})) (thread_run ?d y 0)"
      using reach by (simp add: thread_run_def)
    have loss: "\<forall>n. loss_free (thread_run ?d y n)" by (intro allI calm_loss_free calm_run \<open>calm y\<close>)
    have "\<exists>m. \<forall>n\<ge>m. let w = io_world (sys_io (thread_run ?d y n)) in
        on_source ?cl w = fold (effect ?cl) (in_doubt ?cl w) (on_target ?cl w) \<and>
        (in_doubt ?cl w = [] \<longrightarrow> on_source ?cl w = on_target ?cl w)"
      by (rule eventually_consistent [OF flaky_store_laws store_example start _ thread_run_fair [OF ready] _ loss delay])
        (simp_all add: thread_run_steps [OF ready] thread_run_running [OF ready] thread_run_failed_ids)
    then show ?thesis using calm_doubts [OF \<open>calm y\<close>] by (simp add: Let_def) blast
  qed
  have "\<exists>m. \<forall>n\<ge>m. source_data (io_world (sys_io (thread_run ?d (store_queued insert {}) n))) =
      target_data (io_world (sys_io (thread_run ?d (store_queued insert {}) n)))"
    using settles [OF store_queued_reachable store_queued_calm] by (simp add: store_queued_simps doubtful_def)
  moreover have "\<exists>m. \<forall>n\<ge>m. source_data (io_world (sys_io (thread_run ?d (store_doubted insert {}) n))) =
      insert slow_statement (target_data (io_world (sys_io (thread_run ?d (store_doubted insert {}) n))))"
    using settles [OF store_doubted_reachable store_doubted_simps(4)] by (simp add: store_doubted_simps doubtful_def)
  ultimately show ?thesis
    unfolding Let_def by (simp add: thread_run_def store_queued_simps source_data_def target_data_def)
qed

end
