(* ===== verification/Write_Interleaving.thy ===== *)
theory Write_Interleaving
  imports Replication
begin

text \<open>
  \<open>DualWriter::write\<close> (\<open>services/dual-writer/src/writer.cpp\<close>) in stages: between the execution on
  the source, the execution on the target, the queueing of a failed shadow write and the
  counters, the retry thread and other writes may run. The stages of one write make up
  \<open>dual_write\<close>; any number of writes may be in progress, on as many threads.
\<close>

section \<open>Definitions\<close>

subsection \<open>One write\<close>

datatype write_stage = AtSource | AtTarget | ToQueue sync_error | Finished write_result

record open_write =
  ow_env :: call_env
  ow_cql :: string
  ow_table :: string
  ow_skip :: bool
  ow_stage :: write_stage

text \<open>Up to the dispatch: the request is counted and the filter asked.\<close>

definition write_begin :: "call_env \<Rightarrow> string \<Rightarrow> string \<Rightarrow> dual_writer \<Rightarrow> open_write \<times> dual_writer" where
  "write_begin env q k w =
     (let w0 = count_total w; (skip, w1) = filter_gate k w0
      in (\<lparr>ow_env = env, ow_cql = q, ow_table = k, ow_skip = skip, ow_stage = AtSource\<rparr>,
          if skip then count_filtered w1 else w1))"

text \<open>The body of \<open>write_source_only\<close> or \<open>write_dual_async\<close>, one statement at a time.\<close>

fun stage_next ::
  "'w driver \<Rightarrow> open_write \<times> dual_writer \<times> 'w io \<Rightarrow> open_write \<times> dual_writer \<times> 'w io" where
  "stage_next d (ow, w, s) =
     (case ow_stage ow of
        AtSource \<Rightarrow>
          (case conn_execute d (dw_source w) (ow_cql ow) s of
             (Inl e, s') \<Rightarrow>
               (ow\<lparr>ow_stage := Finished (new_write_result\<lparr>error_message := ''Source write failed: '' @ what e\<rparr>)\<rparr>,
                w, s')
           | (Inr _, s') \<Rightarrow>
               (ow\<lparr>ow_stage := (if ow_skip ow then Finished (new_write_result\<lparr>source_ok := True\<rparr>) else AtTarget)\<rparr>,
                w, s'))
      | AtTarget \<Rightarrow>
          (case conn_execute d (dw_target w) (ow_cql ow) s of
             (Inr _, s') \<Rightarrow>
               (ow\<lparr>ow_stage := Finished (new_write_result\<lparr>source_ok := True, target_ok := True\<rparr>)\<rparr>, w, s')
           | (Inl e, s') \<Rightarrow> (ow\<lparr>ow_stage := ToQueue e\<rparr>, w, s'))
      | ToQueue e \<Rightarrow>
          (ow\<lparr>ow_stage := Finished (new_write_result\<lparr>source_ok := True,
              error_message := ''Target shadow write failed: '' @ what e\<rparr>)\<rparr>,
           enqueue_failed_write (ow_env ow) (ow_cql ow) (ow_table ow) (what e) w, s)
      | Finished r \<Rightarrow> (ow, w, s))"

text \<open>The elapsed time, the counters and the metrics.\<close>

definition write_end :: "open_write \<Rightarrow> write_result \<Rightarrow> dual_writer \<Rightarrow> write_result \<times> dual_writer" where
  "write_end ow r w =
     (if ow_skip ow
      then (r, count_metrics (ow_table ow) (source_ok r) 0 (count_result (source_ok r) w))
      else
        let r' = r\<lparr>latency_ms := elapsed_ms (ow_env ow)\<rparr>
        in (r', count_metrics (ow_table ow) (fully_successful r')
              (env_round (ow_env ow) (latency_ms r' / 1000)) (count_result (source_ok r') w)))"

definition in_stages ::
  "call_env \<Rightarrow> 'w driver \<Rightarrow> string \<Rightarrow> string \<Rightarrow> dual_writer \<Rightarrow> 'w io
   \<Rightarrow> write_result \<times> dual_writer \<times> 'w io" where
  "in_stages env d q k w s =
     (let (ow, w1) = write_begin env q k w;
          (ow', w2, s') = (stage_next d ^^ 3) (ow, w1, s)
      in case ow_stage ow' of
           Finished r \<Rightarrow> (let (r', w3) = write_end ow' r w2 in (r', w3, s'))
         | _ \<Rightarrow> (new_write_result, w2, s'))"

subsection \<open>Any number of writes beside the retry thread\<close>

record 'w open_system =
  os_system :: "'w writer_system"
  os_open :: "open_write list"

definition queue_events :: "open_write \<Rightarrow> dual_writer \<Rightarrow> queue_event list" where
  "queue_events ow w =
     (case ow_stage ow of
        ToQueue e \<Rightarrow>
          let i = generate_id (env_hi (ow_env ow)) (env_lo (ow_env ow))
          in ShadowFailed i # (if i \<in> set (umap_keys (dw_failed w)) then [Collided i] else [])
      | _ \<Rightarrow> [])"

inductive open_step :: "'w driver \<Rightarrow> 'w open_system \<Rightarrow> 'w open_system \<Rightarrow> bool" for d where
  write_begins:
    "write_begin env q k (sys_writer (os_system f)) = (ow, w') \<Longrightarrow>
     open_step d f (f\<lparr>os_system := (os_system f)\<lparr>sys_writer := w'\<rparr>, os_open := os_open f @ [ow]\<rparr>)"
| write_advances:
    "os_open f = pre @ ow # post \<Longrightarrow>
     stage_next d (ow, sys_writer (os_system f), sys_io (os_system f)) = (ow', w', s') \<Longrightarrow>
     open_step d f (f\<lparr>os_system := (os_system f)\<lparr>sys_writer := w', sys_io := s',
         sys_events := sys_events (os_system f) @ queue_events ow (sys_writer (os_system f))\<rparr>,
       os_open := pre @ ow' # post\<rparr>)"
| write_ends:
    "os_open f = pre @ ow # post \<Longrightarrow> ow_stage ow = Finished r \<Longrightarrow>
     write_end ow r (sys_writer (os_system f)) = (r', w') \<Longrightarrow>
     open_step d f (f\<lparr>os_system := (os_system f)\<lparr>sys_writer := w'\<rparr>, os_open := pre @ post\<rparr>)"
| thread_moves:
    "sys_phase (os_system f) \<noteq> Stopped \<Longrightarrow>
     open_step d f (f\<lparr>os_system := thread_next d (os_system f)\<rparr>)"
| stop_requested:
    "open_step d f (f\<lparr>os_system := (os_system f)\<lparr>sys_stop := True\<rparr>\<rparr>)"

definition open_start :: "dual_writer \<Rightarrow> 'w io \<Rightarrow> 'w open_system" where
  "open_start w s = \<lparr>os_system = system_start w s, os_open = []\<rparr>"

text \<open>Statements that the source has and the target is still to get from the write itself, or that
  the write is still to queue.\<close>

fun at_target :: "write_stage \<Rightarrow> bool" where
  "at_target AtTarget = True"
| "at_target (ToQueue _) = True"
| "at_target _ = False"

definition open_statements :: "'w open_system \<Rightarrow> string list" where
  "open_statements f = map ow_cql (filter (\<lambda>ow. at_target (ow_stage ow)) (os_open f))"

section \<open>Lemmas\<close>

subsection \<open>The invariant\<close>

text \<open>The retry thread and the queue as before, whatever the driver and the rules; and, under the
  laws, the clusters differ by the statements of the queue and of the writes in progress.\<close>

definition open_inv ::
  "scylla_connection \<Rightarrow> scylla_connection \<Rightarrow> ('w, 'a) clusters \<Rightarrow> 'w open_system \<Rightarrow> bool" where
  "open_inv src tgt cl f \<longleftrightarrow>
     refine_inv src tgt (os_system f) \<and> (\<forall>t. \<not> blacklists (sys_writer (os_system f)) t) \<and>
     replicated cl (open_statements f) (os_system f) \<and>
     (\<forall>ow \<in> set (os_open f). \<not> ow_skip ow)"

lemma replicated_mset:
  assumes "order_free (effect cl)" "mset qs = mset qs'" "replicated cl qs y"
  shows "replicated cl qs' y"
  using assms(3) differ_by_mset [OF assms(1), of "owed_statements y @ qs" "owed_statements y @ qs'"] assms(2)
  by (simp add: replicated_def)

text \<open>Steps that change counters, the filter's record and the driver's world only.\<close>

lemma quiet_replicates:
  assumes "refine_inv src tgt y" "order_free (effect cl)" and y': "y' = y\<lparr>sys_writer := w', sys_io := s'\<rparr>"
    and "dw_failed w' = dw_failed (sys_writer y)" "dw_source w' = dw_source (sys_writer y)"
      "dw_target w' = dw_target (sys_writer y)"
    and data: "loss_free y \<Longrightarrow> differ_by cl (owed_statements y @ extra) (io_world s')"
  shows "replicated cl extra y'"
proof -
  note quiet = quiet_keeps [OF assms(1) y' assms(4-6)]
  then have "mset (owed_statements y @ extra) = mset (owed_statements y' @ extra)"
    using assms(1) owed_same [of y y'] by (simp add: refine_inv_def)
  from differ_by_mset [OF assms(2) this] show ?thesis
    using data by (simp add: replicated_def loss_free_def y')
qed

lemma write_begin_frame:
  assumes "write_begin env q k w = (ow, w')"
  shows "dw_failed w' = dw_failed w" "dw_source w' = dw_source w" "dw_target w' = dw_target w"
    "blacklists w' t = blacklists w t" "ow_stage ow = AtSource" "ow_skip ow = blacklists w k"
  using assms by (auto simp: write_begin_def Let_def case_prod_beta frame_simps filter_gate_decides split: if_splits)

lemma write_end_frame:
  assumes "write_end ow r w = (r', w')"
  shows "dw_failed w' = dw_failed w" "dw_source w' = dw_source w" "dw_target w' = dw_target w"
    "blacklists w' t = blacklists w t"
  using assms by (auto simp: write_end_def Let_def frame_simps split: if_splits)

subsection \<open>The queue\<close>

text \<open>Every stage keeps the accounts of the queue, without any law on the driver's answers.\<close>

lemma stage_refines:
  assumes ref: "refine_inv src tgt y"
    and step: "stage_next d (ow, sys_writer y, sys_io y) = (ow', w', s')"
    and y': "y' = y\<lparr>sys_writer := w', sys_io := s',
         sys_events := sys_events y @ queue_events ow (sys_writer y)\<rparr>"
  shows "refine_inv src tgt y'"
proof (cases "\<exists>e. ow_stage ow = ToQueue e")
  case True
  then obtain e where e: "ow_stage ow = ToQueue e" by blast
  let ?i = "generate_id (env_hi (ow_env ow)) (env_lo (ow_env ow))"
  have "dw_failed w' = umap_emplace ?i (queued_write (ow_env ow) (ow_cql ow) (ow_table ow) (what e))
      (dw_failed (sys_writer y))"
    "dw_source w' = dw_source (sys_writer y)" "dw_target w' = dw_target (sys_writer y)"
    using step e by (auto simp: enqueue_failed frame_simps)
  then show ?thesis
    by (rule queue_keeps(1) [OF ref, where i = ?i and s' = s', rotated]) (simp add: y' e queue_events_def Let_def)
next
  case False
  then have "w' = sys_writer y" "queue_events ow (sys_writer y) = []"
    using step by (auto simp: queue_events_def split: write_stage.splits prod.splits sum.splits)
  then show ?thesis
    using quiet_keeps [OF ref refl refl refl refl, of s'] y' by (cases y) simp
qed

lemma open_step_refines:
  assumes "open_step d f f'" and ref: "refine_inv src tgt (os_system f)"
  shows "refine_inv src tgt (os_system f')"
  using assms(1)
proof (cases rule: open_step.cases)
  case (write_begins env q k ow w')
  then show ?thesis
    using quiet_keeps [OF ref, where w' = w' and s' = "sys_io (os_system f)"] write_begin_frame [OF write_begins(2)] by simp
next
  case (write_advances pre ow post ow' w' s')
  then show ?thesis using stage_refines [OF ref write_advances(3) refl] by simp
next
  case (write_ends pre ow post r r' w')
  then show ?thesis
    using quiet_keeps [OF ref, where w' = w' and s' = "sys_io (os_system f)"] write_end_frame [OF write_ends(4)] by simp
next
  case thread_moves
  then show ?thesis using writer_step_refines [OF thread_next_steps ref] by simp
next
  case stop_requested
  then show ?thesis using writer_step_refines [OF request_stop ref] by simp
qed

lemma open_refines:
  assumes "(open_step d)\<^sup>*\<^sup>* (open_start (dual_writer_new cfg src tgt flt mtr) s) f"
  shows "refine_inv src tgt (os_system f)"
  using assms
proof (induction rule: rtranclp_induct)
  case base
  show ?case
    using refine_inv_start [of "dual_writer_new cfg src tgt flt mtr" s] by (simp add: open_start_def dual_writer_new_def)
qed (rule open_step_refines)

subsection \<open>The stages and the data\<close>

lemma source_stage:
  assumes laws: "store_laws d src tgt cl" and free: "order_free (effect cl)"
    and ref: "refine_inv src tgt y" and rep: "replicated cl extra y"
    and exec: "conn_execute d src q (sys_io y) = (a, s')"
  shows "replicated cl (if isl a then extra else q # extra) (y\<lparr>sys_writer := sys_writer y, sys_io := s'\<rparr>)"
proof (rule quiet_replicates [OF ref free refl refl refl refl])
  assume "loss_free y"
  then have "differ_by cl (owed_statements y @ extra) (io_world (sys_io y))" using rep by (simp add: replicated_def)
  from source_execute_data [OF laws free exec this]
  show "differ_by cl (owed_statements y @ (if isl a then extra else q # extra)) (io_world s')"
    by (rule differ_by_mset [OF free, rotated]) simp
qed

lemma target_stage:
  assumes laws: "store_laws d src tgt cl" and free: "order_free (effect cl)"
    and ref: "refine_inv src tgt y" and rep: "replicated cl (q # extra) y"
    and exec: "conn_execute d tgt q (sys_io y) = (b, s')"
  shows "replicated cl (if isl b then q # extra else extra) (y\<lparr>sys_writer := sys_writer y, sys_io := s'\<rparr>)"
proof (rule quiet_replicates [OF ref free refl refl refl refl])
  assume "loss_free y"
  then have "differ_by cl (owed_statements y @ q # extra) (io_world (sys_io y))" using rep by (simp add: replicated_def)
  then have "differ_by cl (q # owed_statements y @ extra) (io_world (sys_io y))"
    by (rule differ_by_mset [OF free, rotated]) simp
  from target_execute_data [OF laws free exec this]
  show "differ_by cl (owed_statements y @ (if isl b then q # extra else extra)) (io_world s')"
    by (rule differ_by_mset [OF free, rotated]) simp
qed

lemma queue_stage:
  assumes free: "order_free (effect cl)"
    and ref: "refine_inv src tgt y" and rep: "replicated cl (q # extra) y"
    and w': "w' = enqueue_failed_write env q k e (sys_writer y)" and i: "i = generate_id (env_hi env) (env_lo env)"
    and y': "y' = y\<lparr>sys_writer := w', sys_io := s', sys_events := sys_events y @ ShadowFailed i #
      (if i \<in> set (umap_keys (dw_failed (sys_writer y))) then [Collided i] else [])\<rparr>"
    and s': "s' = sys_io y"
  shows "replicated cl extra y'"
proof -
  have failed: "dw_failed w' = umap_emplace i (queued_write env q k e) (dw_failed (sys_writer y))"
    "dw_source w' = dw_source (sys_writer y)" "dw_target w' = dw_target (sys_writer y)"
    by (simp_all add: w' i enqueue_failed frame_simps)
  note queued = queue_keeps [OF ref y' failed]
  have "differ_by cl (owed_statements y' @ extra) (io_world s')" if loss: "loss_free y'"
  proof -
    have fresh: "i \<notin> set (umap_keys (dw_failed (sys_writer y)))" and "loss_free y"
      using loss by (auto simp: loss_free_def y')
    have "mset (owed_statements y') = add_mset q (mset (owed_statements y))"
      using fresh queued ref
      by (intro owed_added [where i = i and k = k])
        (auto simp: refine_inv_def fw_statement_def queued_write_def owed_by_writer_def umap_keys_def map_of_eq_None_iff)
    then have "mset (owed_statements y @ q # extra) = mset (owed_statements y' @ extra)" by simp
    from differ_by_mset [OF free this] show ?thesis using rep \<open>loss_free y\<close> s' by (simp add: replicated_def)
  qed
  then show ?thesis by (simp add: replicated_def y')
qed

lemma open_statements_split:
  "os_open f = pre @ ow # post \<Longrightarrow> mset (open_statements f) = mset
     ((if at_target (ow_stage ow) then [ow_cql ow] else []) @
      map ow_cql (filter (\<lambda>ow. at_target (ow_stage ow)) (pre @ post)))"
  by (simp add: open_statements_def)

text \<open>One stage of one write, in any system state.\<close>

lemma stage_replicates:
  assumes laws: "store_laws d src tgt cl" and free: "order_free (effect cl)"
    and ref: "refine_inv src tgt y" and skip: "\<not> ow_skip ow"
    and rep: "replicated cl ((if at_target (ow_stage ow) then [ow_cql ow] else []) @ rest) y"
    and step: "stage_next d (ow, sys_writer y, sys_io y) = (ow', w', s')"
    and y': "y' = y\<lparr>sys_writer := w', sys_io := s',
         sys_events := sys_events y @ queue_events ow (sys_writer y)\<rparr>"
  shows "\<not> ow_skip ow' \<and> blacklists w' = blacklists (sys_writer y) \<and>
    replicated cl ((if at_target (ow_stage ow') then [ow_cql ow'] else []) @ rest) y'"
proof -
  have conns: "dw_source (sys_writer y) = src" "dw_target (sys_writer y) = tgt"
    using ref by (simp_all add: refine_inv_def)
  have y'_quiet: "y' = y\<lparr>sys_writer := sys_writer y, sys_io := s'\<rparr>"
    if "w' = sys_writer y" "queue_events ow (sys_writer y) = []"
    using that y' by (cases y) simp
  show ?thesis
  proof (cases "ow_stage ow")
    case AtSource
    obtain a s1 where exec: "conn_execute d src (ow_cql ow) (sys_io y) = (a, s1)" by force
    have rep': "replicated cl rest y" using rep AtSource by simp
    show ?thesis
      using source_stage [OF laws free ref rep' exec] step exec AtSource skip conns y'_quiet
      by (cases a) (auto simp: queue_events_def)
  next
    case AtTarget
    obtain b s1 where exec: "conn_execute d tgt (ow_cql ow) (sys_io y) = (b, s1)" by force
    have rep': "replicated cl (ow_cql ow # rest) y" using rep AtTarget by simp
    show ?thesis
      using target_stage [OF laws free ref rep' exec] step exec AtTarget skip conns y'_quiet
      by (cases b) (auto simp: queue_events_def)
  next
    case (ToQueue e)
    have rep': "replicated cl (ow_cql ow # rest) y" using rep ToQueue by simp
    show ?thesis
      using queue_stage [OF free ref rep' refl refl _ refl, of y' "ow_env ow" "ow_table ow" "what e"] step ToQueue skip y'
      by (auto simp: queue_events_def Let_def frame_simps fun_eq_iff)
  next
    case (Finished r)
    then have "y' = y" using step y' by (cases y) (auto simp: queue_events_def)
    then show ?thesis using ref rep step Finished skip by auto
  qed
qed

lemma open_step_keeps:
  assumes laws: "store_laws d src tgt cl" and free: "order_free (effect cl)"
    and "open_step d f f'" and inv: "open_inv src tgt cl f"
  shows "open_inv src tgt cl f'"
proof -
  let ?y = "os_system f"
  have ref: "refine_inv src tgt ?y" and pass: "\<forall>t. \<not> blacklists (sys_writer ?y) t"
    and rep: "replicated cl (open_statements f) ?y" and skip: "\<forall>ow \<in> set (os_open f). \<not> ow_skip ow"
    using inv by (simp_all add: open_inv_def)
  have ref': "refine_inv src tgt (os_system f')" by (rule open_step_refines [OF assms(3) ref])
  have quiet: "replicated cl (open_statements f) (?y\<lparr>sys_writer := w'\<rparr>)"
    if "dw_failed w' = dw_failed (sys_writer ?y)" "dw_source w' = dw_source (sys_writer ?y)"
      "dw_target w' = dw_target (sys_writer ?y)" for w'
    using rep by (intro quiet_replicates [OF ref free _ that, where s' = "sys_io ?y"]) (simp_all add: replicated_def)
  show ?thesis
    using assms(3)
  proof (cases rule: open_step.cases)
    case (write_begins env q k ow w')
    note frame = write_begin_frame [OF write_begins(2)]
    show ?thesis
      using ref' quiet [OF frame(1-3)] pass skip
      by (simp add: open_inv_def write_begins(1) open_statements_def frame)
  next
    case (write_advances pre ow post ow' w' s')
    let ?rest = "map ow_cql (filter (\<lambda>ow. at_target (ow_stage ow)) (pre @ post))"
    have "replicated cl ((if at_target (ow_stage ow) then [ow_cql ow] else []) @ ?rest) ?y"
      by (rule replicated_mset [OF free open_statements_split [OF write_advances(2)] rep])
    from stage_replicates [OF laws free ref _ this write_advances(3) refl] have new:
      "\<not> ow_skip ow'" "blacklists w' = blacklists (sys_writer ?y)"
      "replicated cl ((if at_target (ow_stage ow') then [ow_cql ow'] else []) @ ?rest) (os_system f')"
      using skip write_advances(1,2) by auto
    have "os_open f' = pre @ ow' # post" by (simp add: write_advances(1))
    from replicated_mset [OF free open_statements_split [OF this, symmetric] new(3)]
    show ?thesis using ref' new pass skip write_advances(1,2) by (simp add: open_inv_def)
  next
    case (write_ends pre ow post r r' w')
    note frame = write_end_frame [OF write_ends(4)]
    show ?thesis
      using ref' quiet [OF frame(1-3)] pass skip write_ends(2,3)
      by (simp add: open_inv_def write_ends(1) open_statements_def frame)
  next
    case thread_moves
    then show ?thesis
      using step_replicates [OF laws free thread_next_steps ref pass rep] skip
      by (simp add: open_inv_def open_statements_def)
  next
    case stop_requested
    then show ?thesis
      using step_replicates [OF laws free request_stop ref pass rep] skip
      by (simp add: open_inv_def open_statements_def)
  qed
qed

lemma open_reachable:
  assumes "store_laws d src tgt cl" "order_free (effect cl)"
    and "\<forall>t. \<not> blacklists (dual_writer_new cfg src tgt flt mtr) t" "in_sync cl (io_world s)"
    and "(open_step d)\<^sup>*\<^sup>* (open_start (dual_writer_new cfg src tgt flt mtr) s) f"
  shows "open_inv src tgt cl f"
  using assms(5)
proof (induction rule: rtranclp_induct)
  case base
  show ?case
    using replication_start [of "dual_writer_new cfg src tgt flt mtr" cl s] assms(3,4)
    by (simp add: open_inv_def open_start_def replication_inv_def open_statements_def) (simp add: dual_writer_new_def)
qed (rule open_step_keeps [OF assms(1,2)])

section \<open>Properties\<close>

text \<open>The stages are those of \<open>write\<close>: taken one after the other without interruption, they
  return the result of \<open>dual_write\<close> and leave the same writer, after the same driver calls.\<close>

lemma dual_write_in_stages: "in_stages env d q k w s = dual_write env d q k w s"
proof -
  obtain skip w1 where gate: "filter_gate k (count_total w) = (skip, w1)" by force
  obtain a s1 where src: "conn_execute d (dw_source w1) q s = (a, s1)" by force
  obtain b s2 where tgt: "conn_execute d (dw_target w1) q s1 = (b, s2)" by force
  show ?thesis
    using gate src tgt
    by (cases a; cases b)
      (auto simp: in_stages_def write_begin_def dual_write_def write_dual_async_def write_source_only_def
        write_end_def numeral_3_eq_3 frame_simps Let_def case_prod_beta)
qed

text \<open>C6. Writes may overlap in any way: in every state reached from a new writer, whatever the
  order in which the stages of any number of writes and the moves of the retry thread take
  effect, whatever the rules and the driver's answers, every failed shadow write that was
  queued is settled, pending or was refused for its id. If moreover the clusters started with
  equal data and nothing in doubt or in flight, the order and the repetition of statements do
  not matter, no table is excluded and no write was given up, then the data of the source is
  the data of the target after the statements owed by the queue, those a write in progress
  has still to send or queue, and those in doubt (held by the source without having been
  acknowledged, such as one that timed out after being applied). A failed statement may have been applied, or be applied later, on
  either cluster.\<close>

theorem interleaved_writes_replicate:
  assumes "(open_step d)\<^sup>*\<^sup>* (open_start (dual_writer_new cfg src tgt flt mtr) s) f"
  shows "let y = os_system f; w = io_world (sys_io y) in
    mset (shadow_failed_ids (sys_events y)) =
      mset (settled_ids (sys_events y)) + mset (pending_ids y) + mset (collided_ids (sys_events y)) \<and>
    (store_laws d src tgt cl \<and> order_free (effect cl) \<and> in_sync cl (io_world s) \<and>
     (\<forall>t. \<not> blacklists (dual_writer_new cfg src tgt flt mtr) t) \<and> loss_free y \<longrightarrow>
       on_source cl w =
         fold (effect cl) (owed_statements y @ open_statements f @ in_doubt cl w) (on_target cl w))"
proof -
  have "on_source cl (io_world (sys_io (os_system f))) =
      fold (effect cl) (owed_statements (os_system f) @ open_statements f @ in_doubt cl (io_world (sys_io (os_system f))))
        (on_target cl (io_world (sys_io (os_system f))))"
    if "store_laws d src tgt cl" "order_free (effect cl)" "in_sync cl (io_world s)"
      "\<forall>t. \<not> blacklists (dual_writer_new cfg src tgt flt mtr) t" "loss_free (os_system f)"
    using open_reachable [OF that(1,2,4,3) assms] that(5)
    by (simp add: open_inv_def replicated_def differ_by_def del: fold_append)
  then show ?thesis
    using open_refines [OF assms] by (simp add: refine_inv_def conserved_def Let_def del: fold_append)
qed

text \<open>A write between its two executions.\<close>

definition half_written :: "string set two_clusters open_system" where
  "half_written =
     (let w = dual_writer_new eager_config (example_connection 1) (example_connection 2) None None;
          q = ''UPDATE ks.t SET a = 1''; (ow, w1) = write_begin example_env q ''ks.t'' w;
          (ow', w2, s') = stage_next (flaky_store insert) (ow, w1, store_start {});
          f = open_start w (store_start {})
      in f\<lparr>os_system := (os_system f)\<lparr>sys_writer := w2, sys_io := s'\<rparr>, os_open := [ow']\<rparr>)"

lemma half_written_simps:
  "io_world (sys_io (os_system half_written)) = ({''UPDATE ks.t SET a = 1''}, {}, False, [])"
  "sys_events (os_system half_written) = []" "pending_ids (os_system half_written) = []"
  "open_statements half_written = [''UPDATE ks.t SET a = 1'']"
  by (simp_all add: half_written_def write_begin_def filter_gate_def open_start_def open_statements_def pending_ids_def
      store_simps count_total_def)

lemma half_written_reachable:
  "(open_step (flaky_store insert))\<^sup>*\<^sup>* (open_start (dual_writer_new eager_config
     (example_connection 1) (example_connection 2) None None) (store_start {})) half_written"
proof -
  let ?w = "dual_writer_new eager_config (example_connection 1) (example_connection 2) None None"
  let ?f = "open_start ?w (store_start {})"
  obtain ow w1 where b: "write_begin example_env ''UPDATE ks.t SET a = 1'' ''ks.t'' ?w = (ow, w1)" by force
  obtain ow' w2 s' where a: "stage_next (flaky_store insert) (ow, w1, store_start {}) = (ow', w2, s')"
    by (metis prod_cases3)
  let ?f1 = "?f\<lparr>os_system := (os_system ?f)\<lparr>sys_writer := w1\<rparr>, os_open := [ow]\<rparr>"
  have "queue_events ow w1 = []" using write_begin_frame(5) [OF b] by (simp add: queue_events_def)
  then have f2: "half_written = ?f1\<lparr>os_system := (os_system ?f1)\<lparr>sys_writer := w2, sys_io := s',
      sys_events := sys_events (os_system ?f1) @ queue_events ow (sys_writer (os_system ?f1))\<rparr>,
      os_open := [] @ ow' # []\<rparr>"
    using a b by (simp add: half_written_def open_start_def system_start_def)
  have "open_step (flaky_store insert) ?f ?f1"
    using write_begins [of example_env _ _ ?f ow w1] b by (simp add: open_start_def system_start_def)
  moreover have "open_step (flaky_store insert) ?f1 half_written"
    by (subst f2, rule write_advances) (use a in \<open>simp_all add: open_start_def system_start_def\<close>)
  ultimately show ?thesis by simp
qed

theorem interleaved_writes_replicate_witness:
  "let y = os_system half_written; w = io_world (sys_io y) in
   source_data w = {''UPDATE ks.t SET a = 1''} \<and>
   source_data w = fold insert (owed_statements y @ open_statements half_written @ doubtful w) (target_data w)"
proof -
  have "loss_free (os_system half_written)" by (simp add: loss_free_def half_written_simps)
  then show ?thesis
    using interleaved_writes_replicate [OF half_written_reachable, of "flaky_clusters insert"]
      flaky_store_laws [of insert] store_example(1,2) store_example(3) [of insert "{}"]
    by (simp add: Let_def half_written_simps source_data_def)
qed

end
