(* ===== verification/Spec2Isabelle.thy ===== *)
theory Spec2Isabelle
  imports Deployment Process_Liveness Loader_Process Test_Cases Index_Manager Validator Dashboard_Screen Write_Interleaving
begin

text \<open>
  A verification development for \<open>scylla-cluster-sync-cxx\<close>: three services that move a live
  Cassandra/ScyllaDB workload from a source to a target cluster over a shared library, and a
  terminal dashboard that watches them.

  \<^bold>\<open>The parts of the program and the theories that model them.\<close>

  \<^item> \<open>svckit\<close> is the shared library. \<open>Svckit_Types\<close> has the \<open>SyncError\<close> hierarchy as a
    datatype (an exception is a value \<open>Inl\<close> of type \<open>outcome\<close>), filter decisions,
    discrepancies, validation results and the metrics registry (a log of the calls on the
    prometheus client). \<open>Svckit_Config\<close> has the configuration sections and their parsers;
    yaml-cpp, the file system and the environment are parameters (records of functions).
    \<open>Svckit_Database\<close> has \<open>ScyllaConnection\<close>: connect, execute, ping, close, the destructor,
    the move operations. The DataStax driver is a parameter: a record of functions on a world
    of any type \<open>'w\<close>. Every driver call is appended to a history \<open>io_calls\<close>, over which the
    properties are stated.
  \<^item> \<open>Filter_Governor\<close> is the interface \<open>FilterGovernorBase\<close> as a locale; \<open>Dual_Writer_Filter\<close>
    and \<open>Sstable_Filter\<close> interpret its extension for blacklists, \<open>Dual_Reader_Filter\<close> (the
    whitelist AND gate) the interface itself.
  \<^item> \<open>services/dual-writer\<close>: \<open>Dual_Writer_Config\<close>; \<open>Dual_Writer\<close> has \<open>DualWriter::write\<close> and the
    write modes, the statistics and the queue of failed writes (\<open>writer.cpp\<close>);
    \<open>Dual_Writer_Retry\<close> has the retry thread and its interleavings with client writes as a
    step relation, \<open>Shadow_Spec\<close> the abstract machine it implements, \<open>Fair_Retry\<close> its fair infinite
    runs, \<open>Replication\<close> the data of the two clusters and \<open>Write_Interleaving\<close> the stages of a
    write between which anything may happen; \<open>Cql_Protocol\<close> the frame
    encoding, the classification of statements and the extraction of table names,
    \<open>Cql_Server\<close> the proxy connection that intercepts writes and \<open>Proxy_Server\<close> the accept loop
    with any number of connections beside the retry thread (\<open>cql_server.cpp\<close>).
  \<^item> \<open>services/sstable-loader\<close>: \<open>Sstable_Config\<close>; \<open>Token_Range\<close> has the split of the Murmur3
    ring with 64-bit arithmetic; \<open>Sstable_Loader\<close> the migration with its batches of threads,
    pause, stop and statistics (\<open>loader.cpp\<close>); \<open>Index_Manager\<close> the secondary indexes.
  \<^item> \<open>services/dual-reader\<close>: \<open>Dual_Reader_Config\<close>; \<open>Reconciliation\<close> has the three strategies;
    \<open>Dual_Reader\<close> validation, its continuous loop and the map of discrepancies; \<open>Validator\<close> the
    comparison of row counts.
  \<^item> The processes: \<open>Command_Line\<close> has the argument parsers of the four programs,
    \<open>Service_Startup\<close> the \<open>main\<close> functions of the services from the arguments to the running
    service (configuration, filter rules, connections, what happens when a step fails, hot
    reload, automatic migration, the loader's signal handler), \<open>Service_Api\<close> their HTTP
    endpoints (\<open>api.cpp\<close>, \<open>health.cpp\<close>). The rest of each \<open>main\<close>, from the threads it starts to its
    return, is a step relation whose steps are those of the event loop, of the threads and of the
    destructors (\<open>Writer_Process\<close>, with its infinite runs in \<open>Process_Liveness\<close>, and
    \<open>Reader_Process\<close>) or, for the loader, whose migration never
    suspends, a function (\<open>Loader_Process\<close>, whose driver \<open>beside_api\<close> puts the pings of the HTTP API
    between its statements). \<open>Deployment\<close> runs the writer and the reader over the same
    clusters, which anything else may change at any time.
  \<^item> \<open>Shipped_Config\<close> has the shipped configuration files as document trees, an instance of the
    yaml-cpp parameter, and the origin of the credentials; \<open>Unit_Tests\<close> the copies of production code
    in \<open>tests/\<close>, compared with it, and \<open>Test_Cases\<close> the test cases themselves, which all hold of the
    model (\<open>unit_tests_pass\<close>).
  \<^item> \<open>services/tui-dash\<close>: \<open>Dashboard_State\<close> has the state and its formatting (\<open>state.cpp\<close>),
    \<open>Dashboard_Demo\<close> the demo generator (\<open>mock.cpp\<close>), \<open>Dashboard_Client\<close> the polling of the
    loader's \<open>/status\<close> (\<open>api.cpp\<close>), \<open>Dashboard_Screen\<close> what is drawn, the key handler and the
    update loop (\<open>main.cpp\<close>).

  \<open>Sync_Prelude\<close> holds the machine integers (words, so that additions wrap), the string and
  container operations of the C++ standard library, and the lemmas that the theories share.

  \<^bold>\<open>How state and operations correspond.\<close> A class is a record, a method a function from
  its arguments, the object and the driver history to its result and their new values; every
  \<open>throw\<close>, early return and \<open>catch\<close> is a branch. Sources of nondeterminism are arguments: the
  driver's answers, random words, clock readings, the rounding of floating-point operations,
  the order in which the threads of a batch take effect (\<open>sched\<close>) and the control calls that
  arrive while a migration runs (\<open>inbox\<close>), the draws of the demo and the outcome of an HTTP
  request. Operations under one lock are one step; the retry
  thread of the dual writer takes one step for each entry of its snapshot, and client writes
  may occur between any two. In the step relations a client write is one step: all it shares with the
  retry thread are atomic counters and the queue, which it touches once, when it enqueues.
  \<open>Write_Interleaving\<close> takes it apart into its stages, with any number of writes in progress.

  \<^bold>\<open>Interfaces.\<close> Six locales state what one component relies on of another:
  \<open>cql_driver\<close> (a connection executes a statement at most once and records it),
  \<open>filter_governor\<close> and its extension \<open>blacklist_governor\<close> (operations never change a later
  decision, and what the blacklist means), \<open>index_operations\<close>, \<open>reconciliation_strategy\<close>,
  and \<open>refinement\<close> (a detailed transition system implements an abstract one), which relates
  the server to the writer and the writer to the machine of \<open>Shadow_Spec\<close>. What the code relies
  on of nlohmann's JSON library is the predicate \<open>json_laws\<close>, and of rounding to \<open>double\<close> the
  predicate \<open>double_rounding\<close>. Each locale is interpreted on the definitions of the components that provide it.

  \<^bold>\<open>What is shown.\<close>

  \<^item> Dual writes: which calls reach which cluster and in which order, what the client is told,
    that every failed shadow write is queued, retried a bounded number of times and accounted
    for under every interleaving, that the statistics add up, and that all this refines a
    machine whose state is the statements still owed to the target. Under fairness to the retry
    thread every failed shadow write is settled (\<open>Fair_Retry\<close>), also within the process and from
    the command line on (\<open>Process_Liveness\<close>). On what a statement does to data
    (\<open>store_laws\<close>, the documented answers of the driver: a statement answered with an error, such
    as a time-out, may have been applied or not, or be applied later, on either cluster): from
    equal data, for statements whose order and repetition do not matter, with no table excluded
    and no write given up, the source is the target plus what is owed and what is in doubt, also
    when the stages of writes overlap, and in the end the clusters differ by what is in doubt
    only (\<open>Replication\<close>, \<open>Write_Interleaving\<close>). Without the condition on the order the target
    can keep an old value for good (\<open>retry_overwrites_newer\<close>).
  \<^item> The proxy: encoding and decoding of frames are inverse, other frames pass through byte for
    byte, only allowed writes reach the target whatever bytes any number of clients send
    and however they interleave with retries, which table a write statement is filtered by (and
    which texts mislead the search for it), and which lengths make the parser throw.
  \<^item> The loader: the token ranges partition the ring, each is queried exactly once for every
    batch size and thread order, the migration terminates and accounts for every table.
  \<^item> Indexes: the sequential and the parallel strategy drop the same indexes and agree on failed
    rebuilds; the operations on a keyspace stay within it.
  \<^item> The reader: the filter gate, the effect of every reconciliation strategy, the agreement of
    \<open>Validator\<close> and \<open>DualReader\<close>.
  \<^item> Connections: every driver handle is freed exactly once or owned by a live connection, also
    when a service fails to start.
  \<^item> The processes: printed arguments are parsed back; with which rules a service starts and which
    missing rules stop it; where
    credentials come from; what HTTP requests can change and which statements they send. From the
    command line on and under every interleaving, the writer's target receives only health probes
    and allowed writes that the source got before and no failed shadow write is lost while it runs, the reader only selects configured tables that
    pass its filter, and the loader, if its migration returns, sends pings and queries of tables that
    the rules in force allow (none are with \<open>--skip-filters\<close> or an unreadable file); each process can
    return from a shutdown, with every driver handle freed, unless its HTTP API is listening (or,
    for the loader, a pause was requested or there are no loader threads).
  \<^item> The test doubles: the governor that the unit tests check and those of the writer and the loader
    are interchangeable, and the copied range computation is the loader's.
  \<^item> The dashboard: its figures stay valid under any updates and key presses, the demo finishes,
    the activity panel shows the newest entries of the complete log, and a poll mirrors the
    loader.
  \<^item> Defects of the code that the model makes visible, as properties or lemmas: the loader copies
    no row, the reader reports no discrepancy, bound values of \<open>EXECUTE\<close> are dropped, a stop
    during a pause still runs a batch, zero loader threads never return, failed ranges are
    counted twice, the loader starts without rules when it cannot read them, a write that times out on
    the source after being applied is never mirrored (\<open>store_doubted\<close>), a reset ends the demo for good,
    throughput and elapsed time are never shown in live mode, a listening API keeps every service
    from ending, the shipped \<open>username: null\<close> logs in as \<open>null\<close>, and a retried statement
    overwrites a newer write on the target (\<open>retry_overwrites_newer\<close>).

  \<^bold>\<open>Termination and bounds.\<close> All loops over data are structural recursion. The batch loop
  of a migration is unbounded only for zero loader threads (\<open>NeverReturns\<close> of the type \<open>run\<close>); a
  property shows that it returns otherwise. The retry thread and a client connection run for
  as long as there are steps or input bytes: they are functions of the finite part of a run
  under consideration, so no fuel bounds the results. After a stop request the retry thread
  ends once it has gone through its snapshot (\<open>destroy_ends_thread\<close>), in every fair run
  (\<open>fair_stop\<close>); the demo of the dashboard
  ends within 1601 updates.

  \<^bold>\<open>Not modelled.\<close> Logging, the length of sleeps, and data races below the level of the locks; the
  browser dashboard (Rust and JavaScript) and the deployment charts. A second shutdown signal
  stays in the queue of the signal set, which nothing reads, and is left out. Library code outside the repository (the DataStax
  driver, yaml-cpp, nlohmann's JSON, cpp-httplib, prometheus, FTXUI, Asio) is a parameter or
  the record of the calls made on it. Casts of a \<open>double\<close> to an integer type are truncations; the
  undefined behaviour outside the range of the type is not modelled.

  Fairness is stated for the writer with its retry thread and for the shutdown of its
  process (\<open>endless_run_serves\<close>); the other processes are shown to be able to end. The loader is a function of the orders in
  which its threads and control calls take effect and not a step relation, since its migration
  never suspends, and so it is not part of \<open>Deployment\<close>.
\<close>

section \<open>Lemmas across components\<close>

lemma blacklists_run:
  assumes "dw_filter w = Some (dw_governor_run ops (dw_governor_new cfg))"
  shows "blacklists w t = table_blacklisted (set (dw_cfg_table_blacklist cfg)) t"
  using assms by (simp add: blacklists_def)

lemma ld_blacklists_run:
  assumes "ld_filter l = Some (ss_governor_run ops (ss_governor_new cfg))"
  shows "ld_blacklists l t = table_blacklisted (set (ss_cfg_table_blacklist cfg)) t"
  using assms by (simp add: ld_blacklists_def)

definition shared_rules_writer :: dual_writer where
  "shared_rules_writer = example_writer\<lparr>dw_filter := Some (dw_governor_new
     (default_dw_filter_config\<lparr>dw_cfg_table_blacklist := [''*.audit'']\<rparr>))\<rparr>"

definition shared_rules_loader :: sstable_loader where
  "shared_rules_loader = (example_loader 4)\<lparr>ld_filter := Some (ss_governor_new
     \<lparr>ss_cfg_tenant_blacklist = [], ss_cfg_table_blacklist = [''*.audit''], ss_cfg_tenant_id_columns = []\<rparr>)\<rparr>"

section \<open>Properties across components\<close>

text \<open>C39. Writer and loader agree on what is synchronised: when both are configured with the
  same table rules, then after any decisions and reloads of their governors a write that the
  source accepts is mirrored to the target exactly when the loader's gate lets the migration
  of its table through.\<close>

theorem mirrored_iff_migrated:
  assumes "set (dw_cfg_table_blacklist c) = set (ss_cfg_table_blacklist c')"
    and "dw_filter w = Some (dw_governor_run ops (dw_governor_new c))"
    and "ld_filter l = Some (ss_governor_run ops' (ss_governor_new c'))"
  shows "let (r, w', s') = dual_write env d cql table w s;
             (skip, l') = table_gate table l
         in io_calls s' = io_calls s @ exec_calls (dw_source w) cql @
              (if source_ok r \<and> \<not> skip then exec_calls (dw_target w) cql else [])"
  using assms dual_write_history [of env d cql table w s] table_gate_decides [of table l]
  by (simp add: case_prod_beta Let_def blacklists_run [OF assms(2)] ld_blacklists_run [OF assms(3)])

theorem mirrored_iff_migrated_witness:
  "io_calls (snd (snd (dual_write example_env example_up ''DELETE FROM ks.audit'' ''ks.audit''
     shared_rules_writer io_start))) = [SessionExecute 1 ''DELETE FROM ks.audit'']"
proof -
  let ?c = "default_dw_filter_config\<lparr>dw_cfg_table_blacklist := [''*.audit'']\<rparr>"
  let ?c' = "\<lparr>ss_cfg_tenant_blacklist = [], ss_cfg_table_blacklist = [''*.audit''], ss_cfg_tenant_id_columns = []\<rparr>"
  have w: "dw_filter shared_rules_writer = Some (dw_governor_run [] (dw_governor_new ?c))"
    by (simp add: shared_rules_writer_def dw_governor_run_def)
  have l: "ld_filter shared_rules_loader = Some (ss_governor_run [] (ss_governor_new ?c'))"
    by (simp add: shared_rules_loader_def ss_governor_run_def)
  have "fst (table_gate ''ks.audit'' shared_rules_loader)"
    unfolding table_gate_decides ld_blacklists_run [OF l] by code_simp
  with mirrored_iff_migrated [OF _ w l, of example_env example_up "''DELETE FROM ks.audit''" "''ks.audit''" io_start]
  show ?thesis
    by (simp add: case_prod_beta Let_def shared_rules_writer_def example_writer_def dual_writer_new_def
        exec_calls_def live_def example_connection_def io_start_def)
qed

end
